(* ===== verification/Prelude.thy ===== *)
theory Prelude
  imports Main "HOL-Library.Word" "HOL-Library.Finite_Map"
begin

text \<open>
  Shared vocabulary of the development: the machine integers of the Rust sources as words,
  Rust's \<open>Result\<close> as a sum type with the propagation of its error, a judgement on the outcome
  of a computation that may panic, generic facts on finite maps, finite sets and lists, and a
  locale for state machines driven by a list of inputs.
\<close>

section \<open>Collections of facts\<close>

named_theorems res_simps \<open>unfolding of the result combinators\<close>
named_theorems eval_simps \<open>evaluation of closed finite maps and sets\<close>

section \<open>Types\<close>

type_synonym u8 = "8 word"
type_synonym u16 = "16 word"
type_synonym u32 = "32 word"
type_synonym u64 = "64 word"

text \<open>
  A Rust \<open>str\<close> is a sequence of UTF-8 bytes and \<open>len\<close> counts bytes. An Isabelle \<^typ>\<open>char\<close> is a
  byte, so a \<^typ>\<open>string\<close> is the byte sequence of a Rust string. \<open>ReadString\<close> of the crate
  pgtest-utils is an immutable shared \<open>str\<close> whose equality, hash and display are those of its
  contents, so it is the string itself. A \<open>usize\<close> that counts the elements of a container is a
  \<^typ>\<open>nat\<close>: such counts are bounded by the memory and do not wrap.
\<close>

type_synonym ReadString = string

section \<open>Checked machine arithmetic\<close>

definition checked_add :: "'a::len word \<Rightarrow> 'a word \<Rightarrow> 'a word option" where
  "checked_add a b = (if unat a + unat b < 2 ^ LENGTH('a) then Some (a + b) else None)"

text \<open>\<open>u64::try_from\<close> on a \<open>usize\<close>.\<close>

definition u64_try_from :: "nat \<Rightarrow> u64 option" where
  "u64_try_from n = (if n < 2 ^ 64 then Some (of_nat n) else None)"

text \<open>\<open>usize::div_ceil\<close>; callers exclude a zero divisor before the call.\<close>

definition div_ceil :: "nat \<Rightarrow> nat \<Rightarrow> nat" where
  "div_ceil a b = (if a mod b = 0 then a div b else a div b + 1)"

lemma checked_add_Some:
  "checked_add a b = Some c \<longleftrightarrow> unat a + unat b < 2 ^ LENGTH('a) \<and> c = a + b"
  for a :: "'a::len word"
  by (auto simp: checked_add_def)

lemma unat_checked_add: "checked_add a b = Some c \<Longrightarrow> unat c = unat a + unat b"
  by (auto simp: checked_add_def unat_add_lem split: if_splits)

lemma u64_try_from_Some: "u64_try_from n = Some w \<longleftrightarrow> n < 2 ^ 64 \<and> w = of_nat n"
  by (auto simp: u64_try_from_def)

lemma unat_u64_try_from: "u64_try_from n = Some w \<Longrightarrow> unat w = n"
  by (auto simp: u64_try_from_Some unat_of_nat)

lemma div_ceil_mult_eq:
  "div_ceil a b * b + a mod b = a + (if a mod b = 0 then 0 else b)"
proof -
  have "a div b * b + a mod b = a" by (rule div_mult_mod_eq)
  then show ?thesis by (auto simp: div_ceil_def algebra_simps)
qed

lemma div_ceil_mult_ge: "0 < b \<Longrightarrow> a \<le> div_ceil a b * b"
proof -
  assume "0 < b"
  then have "a mod b < b" by (rule mod_less_divisor)
  with div_ceil_mult_eq [of a b] show ?thesis by (cases "a mod b = 0") simp_all
qed

lemma div_ceil_mult_less: "0 < b \<Longrightarrow> div_ceil a b * b < a + b"
  using div_ceil_mult_eq [of a b] by (auto split: if_splits)

lemma div_ceil_pos: "0 < b \<Longrightarrow> 0 < a \<Longrightarrow> 0 < div_ceil a b"
  using div_ceil_mult_ge [of b a] by (cases "div_ceil a b") auto

section \<open>Results\<close>

text \<open>
  \<open>Result<T, E>\<close> is \<open>'e + 't\<close> with \<^const>\<open>Inl\<close> the error. \<open>bind_res\<close> is the question mark
  operator, \<open>map_res\<close> runs a fallible function over a list from left to right.
\<close>

definition bind_res :: "'e + 'a \<Rightarrow> ('a \<Rightarrow> 'e + 'b) \<Rightarrow> 'e + 'b" where
  "bind_res m f = (case m of Inl e \<Rightarrow> Inl e | Inr x \<Rightarrow> f x)"

fun map_res :: "('a \<Rightarrow> 'e + 'b) \<Rightarrow> 'a list \<Rightarrow> 'e + 'b list" where
  "map_res f [] = Inr []"
| "map_res f (x # xs) = bind_res (f x) (\<lambda>y. bind_res (map_res f xs) (\<lambda>ys. Inr (y # ys)))"

lemma bind_res_Inl [simp]: "bind_res (Inl e) f = Inl e"
  and bind_res_Inr [simp]: "bind_res (Inr x) f = f x"
  by (simp_all add: bind_res_def)

lemma bind_res_eq_Inr [res_simps]:
  "bind_res m f = Inr y \<longleftrightarrow> (\<exists>x. m = Inr x \<and> f x = Inr y)"
  by (cases m) auto

lemma bind_res_eq_Inl [res_simps]:
  "bind_res m f = Inl e \<longleftrightarrow> m = Inl e \<or> (\<exists>x. m = Inr x \<and> f x = Inl e)"
  by (cases m) auto

lemma bind_resE:
  assumes "bind_res m f = Inr y"
  obtains x where "m = Inr x" "f x = Inr y"
  using assms by (cases m) auto

lemma bind_res_pairE:
  assumes "bind_res m (\<lambda>(a, b). f a b) = Inr y"
  obtains a b where "m = Inr (a, b)" "f a b = Inr y"
  using assms by (cases m) auto

lemma bind_res_cong [fundef_cong]:
  "m = m' \<Longrightarrow> (\<And>x. m' = Inr x \<Longrightarrow> f x = g x) \<Longrightarrow> bind_res m f = bind_res m' g"
  by (cases m') auto

lemma map_res_all_Inr:
  "(\<And>x. x \<in> set xs \<Longrightarrow> f x = Inr (g x)) \<Longrightarrow> map_res f xs = Inr (map g xs)"
  by (induction xs) auto

section \<open>Outcomes\<close>

text \<open>
  \<open>outcome E P m\<close>: the computation \<open>m\<close> either fails with an error in \<open>E\<close> or returns a value that
  satisfies \<open>P\<close>. Its rules compose along \<^const>\<open>bind_res\<close>, so an invariant of a handler is proved
  operation by operation.
\<close>

definition outcome :: "('e \<Rightarrow> bool) \<Rightarrow> ('a \<Rightarrow> bool) \<Rightarrow> 'e + 'a \<Rightarrow> bool" where
  "outcome E P m \<longleftrightarrow> (case m of Inl e \<Rightarrow> E e | Inr x \<Rightarrow> P x)"

lemma outcome_Inl [simp]: "outcome E P (Inl e) \<longleftrightarrow> E e"
  and outcome_Inr [simp]: "outcome E P (Inr x) \<longleftrightarrow> P x"
  by (simp_all add: outcome_def)

lemma outcome_bind:
  "outcome E P m \<Longrightarrow> (\<And>x. P x \<Longrightarrow> outcome E Q (f x)) \<Longrightarrow> outcome E Q (bind_res m f)"
  by (cases m) auto

lemma outcome_mono:
  "outcome E P m \<Longrightarrow> (\<And>x. P x \<Longrightarrow> Q x) \<Longrightarrow> outcome E Q m"
  by (cases m) auto

lemma outcome_InrD: "outcome E P m \<Longrightarrow> m = Inr x \<Longrightarrow> P x"
  by simp

lemma outcome_InlD: "outcome E P m \<Longrightarrow> m = Inl e \<Longrightarrow> E e"
  by simp

lemma outcomeI:
  "(\<And>e. m = Inl e \<Longrightarrow> E e) \<Longrightarrow> (\<And>x. m = Inr x \<Longrightarrow> P x) \<Longrightarrow> outcome E P m"
  by (cases m) auto

section \<open>Finite maps and sets\<close>

lemma fcard_finsert_eval [eval_simps]:
  "fcard (finsert x A) = (if x |\<in>| A then fcard A else Suc (fcard A))"
  by (simp add: fcard_finsert_if)

lemma ffilter_finsert [eval_simps]:
  "ffilter P (finsert x A) = (if P x then finsert x (ffilter P A) else ffilter P A)"
  by auto

lemma ffilter_fempty [simp, eval_simps]: "ffilter P {||} = {||}"
  by auto

lemma fcard_fempty [simp, eval_simps]: "fcard {||} = 0"
  by (simp add: fcard.rep_eq)

lemma fmlookup_fmdom: "k |\<in>| fmdom m \<longleftrightarrow> fmlookup m k \<noteq> None"
  by (metis fmdom_notD fmdom_notI)

lemma fmlookup_in_fmdom: "fmlookup m k = Some v \<Longrightarrow> k |\<in>| fmdom m"
  by (simp add: fmlookup_fmdom)

lemma fcard_fmdom_fmupd_le: "fcard (fmdom (fmupd k v m)) \<le> Suc (fcard (fmdom m))"
  by (simp add: fcard_finsert_if)

lemma fmdrop_fmdom_iff [simp]: "x |\<in>| fmdom (fmdrop k m) \<longleftrightarrow> x \<noteq> k \<and> x |\<in>| fmdom m"
  by auto

section \<open>Batches\<close>

text \<open>The report of a whole batch: every index once, in any order.\<close>

definition reports_once :: "nat \<Rightarrow> (nat \<times> 'r) list \<Rightarrow> bool" where
  "reports_once n cs \<longleftrightarrow> distinct (map fst cs) \<and> fst ` set cs = {..<n}"

text \<open>
  The contract of a client that works through a batch: one final result per index. Its callers rely
  on the number of results and on finding the result of every index.
\<close>

locale batch_reporter =
  fixes report :: "nat \<Rightarrow> (nat \<times> 'r) list"
  assumes report_law: "reports_once n (report n)"
begin

lemma report_length: "length (report n) = n"
proof -
  have "distinct (map fst (report n))" "set (map fst (report n)) = {..<n}"
    using report_law [of n] by (simp_all add: reports_once_def)
  then show ?thesis using distinct_card [of "map fst (report n)"] by simp
qed

lemma report_unique: "i < n \<Longrightarrow> \<exists>!r. (i, r) \<in> set (report n)"
proof -
  assume "i < n"
  have d: "distinct (map fst (report n))" and r: "fst ` set (report n) = {..<n}"
    using report_law [of n] by (simp_all add: reports_once_def)
  from r \<open>i < n\<close> have "i \<in> fst ` set (report n)" by simp
  then obtain x where "(i, x) \<in> set (report n)" by auto
  with eq_key_imp_eq_value [OF d] show ?thesis by blast
qed

end

section \<open>Decimal numbers\<close>

fun show_nat :: "nat \<Rightarrow> string" where
  "show_nat n =
     (if n < 10 then [char_of (48 + n)] else show_nat (n div 10) @ [char_of (48 + n mod 10)])"

declare show_nat.simps [simp del]

lemma show_nat_not_empty [simp]: "show_nat n \<noteq> []"
  by (subst show_nat.simps) simp

lemma show_nat_one_digit: "length (show_nat n) = 1 \<longleftrightarrow> n < 10"
  by (subst show_nat.simps) simp

lemma digit_inj: "char_of (48 + i :: nat) = (char_of (48 + j) :: char) \<Longrightarrow> i < 10 \<Longrightarrow> j < 10 \<Longrightarrow> i = j"
  by (drule arg_cong [of _ _ "of_char :: char \<Rightarrow> nat"]) simp

lemma show_nat_inj: "show_nat m = show_nat n \<Longrightarrow> m = n"
proof (induction m arbitrary: n rule: show_nat.induct)
  case (1 m)
  then have digits: "m < 10 \<longleftrightarrow> n < 10" using show_nat_one_digit by metis
  show ?case
  proof (cases "m < 10")
    case True
    with digits "1.prems" digit_inj show ?thesis by (simp add: show_nat.simps [of n] show_nat.simps [of m])
  next
    case False
    with digits have n: "\<not> n < 10" by simp
    have split: "show_nat k = show_nat (k div 10) @ [char_of (48 + k mod 10)]" if "\<not> k < 10" for k
      using that by (simp add: show_nat.simps [of k])
    from "1.prems" split [OF False] split [OF n] have "show_nat (m div 10) = show_nat (n div 10)"
      "char_of (48 + m mod 10) = (char_of (48 + n mod 10) :: char)" by (metis append1_eq_conv)+
    with "1.IH" [OF False, of "n div 10"] digit_inj [of "m mod 10" "n mod 10"]
    have "m div 10 = n div 10" "m mod 10 = n mod 10" by simp_all
    then show ?thesis by (metis div_mult_mod_eq)
  qed
qed

section \<open>Machines driven by a list of inputs\<close>

text \<open>
  \<open>run_machine step is s\<close> feeds the inputs \<open>is\<close> to a fallible step function. The locale
  \<open>machine_invariant\<close> is the contract between one step and a whole run: a property of states that
  every accepted step keeps.
\<close>

fun run_machine :: "('i \<Rightarrow> 's \<Rightarrow> 'e + 's) \<Rightarrow> 'i list \<Rightarrow> 's \<Rightarrow> 'e + 's" where
  "run_machine step [] s = Inr s"
| "run_machine step (i # is) s = bind_res (step i s) (run_machine step is)"

lemma run_machine_append:
  "run_machine step (xs @ ys) s = bind_res (run_machine step xs s) (run_machine step ys)"
proof (induction xs arbitrary: s)
  case Nil
  then show ?case by simp
next
  case (Cons x xs)
  then show ?case by (cases "step x s") auto
qed

locale machine_invariant =
  fixes step :: "'i \<Rightarrow> 's \<Rightarrow> 'e + 's"
    and ok :: "'i \<Rightarrow> 's \<Rightarrow> bool"
    and benign :: "'e \<Rightarrow> bool"
    and inv :: "'s \<Rightarrow> bool"
  assumes step_inv: "inv s \<Longrightarrow> ok i s \<Longrightarrow> outcome benign inv (step i s)"
begin

text \<open>The inputs of a run are acceptable when each of them is, in the state it meets.\<close>

fun run_ok :: "'i list \<Rightarrow> 's \<Rightarrow> bool" where
  "run_ok [] s = True"
| "run_ok (i # is) s = (ok i s \<and> (case step i s of Inl e \<Rightarrow> True | Inr s' \<Rightarrow> run_ok is s'))"

lemma run_outcome: "inv s \<Longrightarrow> run_ok is s \<Longrightarrow> outcome benign inv (run_machine step is s)"
proof (induction "is" arbitrary: s)
  case Nil
  then show ?case by simp
next
  case (Cons i "is")
  from Cons.prems have st: "outcome benign inv (step i s)"
    by (intro step_inv) auto
  show ?case
  proof (cases "step i s")
    case (Inl e)
    with st show ?thesis by simp
  next
    case (Inr s')
    with st Cons.prems have "inv s'" and "run_ok is s'" by auto
    with Inr Cons.IH show ?thesis by simp
  qed
qed

lemma run_inv: "inv s \<Longrightarrow> run_ok is s \<Longrightarrow> run_machine step is s = Inr s' \<Longrightarrow> inv s'"
  using run_outcome by fastforce

lemma run_benign: "inv s \<Longrightarrow> run_ok is s \<Longrightarrow> run_machine step is s = Inl e \<Longrightarrow> benign e"
  using run_outcome by fastforce

end

text \<open>
  The same contract for a step relation. \<open>relative_invariant\<close> adds a property that a step keeps as long
  as the invariant holds.
\<close>

locale step_invariant =
  fixes step :: "'s \<Rightarrow> 's \<Rightarrow> bool"
    and inv :: "'s \<Rightarrow> bool"
  assumes inv_step: "step s s' \<Longrightarrow> inv s \<Longrightarrow> inv s'"
begin

lemma inv_run: "step\<^sup>*\<^sup>* s s' \<Longrightarrow> inv s \<Longrightarrow> inv s'"
  by (induction rule: rtranclp_induct) (auto intro: inv_step)

end

locale relative_invariant = step_invariant +
  fixes extra :: "'a \<Rightarrow> bool"
  assumes extra_step: "step s s' \<Longrightarrow> inv s \<Longrightarrow> extra s \<Longrightarrow> extra s'"
begin

lemma extra_run: "step\<^sup>*\<^sup>* s s' \<Longrightarrow> inv s \<Longrightarrow> extra s \<Longrightarrow> extra s'"
  by (induction rule: rtranclp_induct) (auto intro: extra_step inv_run)

end

end
