(* ===== verification/Lease_Id.thy ===== *)
theory Lease_Id
  imports Prelude
begin

text \<open>
  Lease identifiers and the error values of the engine (crates/pgtest-core/src/worker_engine:
  lease_id.rs and errors.rs). A lease identifier can only be built by its validating constructor.
\<close>

section \<open>Errors\<close>

datatype InvalidLeaseId = InvalidLeaseId

datatype ReleaseError =
    ReleaseInvalidLeaseId
  | ReleaseLeaseRecordLimitReached
  | ReleaseEngineUnavailable
  | ReplyTimedOut
  | UnexpectedReply

datatype AttachError =
    AttachInvalidLeaseId
  | AttachLeaseRecordLimitReached
  | LeaseClosed
  | TemplateMismatch
  | AttachEngineUnavailable
  | TimedOut
  | Failed

datatype IOError = FailedToSendTheMessage

datatype PostgresDDLClientError = OperationFailed string

section \<open>Lease identifiers\<close>

datatype LeaseId = LeaseId (lease_str: ReadString)

definition NUL :: char where
  "NUL = CHR 0x00"

definition LeaseId_new :: "string \<Rightarrow> InvalidLeaseId + LeaseId" where
  "LeaseId_new value =
     (if value = [] \<or> length value > 256 \<or> CHR ''/'' \<in> set value \<or> NUL \<in> set value
      then Inl InvalidLeaseId
      else Inr (LeaseId value))"

text \<open>The documented contract of a lease identifier: 1 to 256 bytes, no slash, no NUL.\<close>

definition valid_lease_str :: "string \<Rightarrow> bool" where
  "valid_lease_str v \<longleftrightarrow>
     1 \<le> length v \<and> length v \<le> 256 \<and> CHR ''/'' \<notin> set v \<and> NUL \<notin> set v"

lemma LeaseId_new_Inr [simp]:
  "LeaseId_new v = Inr l \<longleftrightarrow> valid_lease_str v \<and> l = LeaseId v"
  by (cases v) (auto simp: LeaseId_new_def valid_lease_str_def)

lemma LeaseId_new_Inl [simp]:
  "LeaseId_new v = Inl e \<longleftrightarrow> \<not> valid_lease_str v"
  by (cases v; cases e) (auto simp: LeaseId_new_def valid_lease_str_def)

end
