(* ===== verification/Messages.thy ===== *)
theory Messages
  imports Lease_Id
begin

text \<open>
  The messages exchanged by the engine, its clients and its database workers
  (crates/pgtest-core/src/worker_engine: database_jobs.rs, messages.rs, traits.rs). The test-only
  variant \<open>Barrier\<close> of \<open>EngineMessage\<close>, compiled under \<open>cfg(test)\<close> only, is left out.
\<close>

section \<open>Panics\<close>

text \<open>
  Every \<open>expect\<close>, \<open>assert\<close> and \<open>unwrap\<close> of the engine and its inventory is a value of this type:
  the two exhaustion panics, and the panics that signal an internal inconsistency.
\<close>

datatype panic =
    DatabaseIdentityExhausted
  | LeaseGenerationExhausted
  | CreationIndexOutsideBatch
  | InitialCreationWithoutReservation
  | GrowthCountZero
  | DispatchRequiresReady
  | ReplyRequiresAssigned
  | RemoveRequiresLease

definition exhaustion :: "panic \<Rightarrow> bool" where
  "exhaustion p \<longleftrightarrow> p = DatabaseIdentityExhausted \<or> p = LeaseGenerationExhausted"

lemma exhaustion_simps [simp]:
  "exhaustion DatabaseIdentityExhausted"
  "exhaustion LeaseGenerationExhausted"
  "\<not> exhaustion CreationIndexOutsideBatch"
  "\<not> exhaustion InitialCreationWithoutReservation"
  "\<not> exhaustion GrowthCountZero"
  "\<not> exhaustion DispatchRequiresReady"
  "\<not> exhaustion ReplyRequiresAssigned"
  "\<not> exhaustion RemoveRequiresLease"
  by (simp_all add: exhaustion_def)

section \<open>Database jobs\<close>

datatype DatabaseId = DatabaseId (id_num: u64)

record CreateDatabases =
  first_database_id :: DatabaseId
  amount :: nat

definition database_id :: "CreateDatabases \<Rightarrow> nat \<Rightarrow> panic + DatabaseId" where
  "database_id request index =
     (if \<not> index < amount request then Inl CreationIndexOutsideBatch
      else case u64_try_from index of
             None \<Rightarrow> Inl DatabaseIdentityExhausted
           | Some i \<Rightarrow>
               (case checked_add (id_num (first_database_id request)) i of
                  None \<Rightarrow> Inl DatabaseIdentityExhausted
                | Some n \<Rightarrow> Inr (DatabaseId n)))"

record CleanupDatabase =
  cleanup_id :: DatabaseId
  cleanup_name :: ReadString

datatype DatabaseWorkerMessages =
    CreationFinished DatabaseId "PostgresDDLClientError + ReadString"
  | CleanupFinished DatabaseId "PostgresDDLClientError + unit"

section \<open>Engine messages and replies\<close>

text \<open>
  An \<open>Instant\<close> is a point of a monotonic clock, a number of milliseconds here. A child token of the
  engine's root cancellation token is named by the lease generation it was created for: each call
  of \<open>child_token\<close> follows an increment of the generation.
\<close>

type_synonym Instant = nat

datatype CancellationToken = ChildToken u64

datatype 'c EngineMessage =
    AttachOrJoin LeaseId 'c Instant
  | ReleaseLease LeaseId 'c
  | Detach LeaseId u64
  | LeaseMaxTimeReached LeaseId u64
  | DatabaseWorker DatabaseWorkerMessages
  | Shutdown

datatype ConsumerReply =
    Attached ReadString u64 CancellationToken
  | FailedToAttach
  | AttachRejected AttachError
  | ReleaseResult "ReleaseError + unit"

text \<open>
  The calls the engine makes through the traits \<open>ConsumerIO\<close> and \<open>EngineIO\<close> and on its
  cancellation tokens, in order. The last component of a call that can fail says whether it
  succeeded.
\<close>

datatype 'c call =
    Reply 'c ConsumerReply bool
  | RequestCreation CreateDatabases bool
  | RequestCleanup CleanupDatabase bool
  | SendDelayed LeaseId u64 u32 CancellationToken bool
  | CancelToken CancellationToken
  | CancelRoot

text \<open>
  What the surroundings answer while one message is handled: whether a consumer's reply channel
  still accepts a reply, whether the two worker channels are open and a timer can be scheduled, and
  the milliseconds elapsed since an instant. A consumer receives at most one reply and a request
  carries an identity that is never reused, so a function of the request loses no behaviour.
\<close>

record 'c env =
  accepts :: "'c \<Rightarrow> ConsumerReply \<Rightarrow> bool"
  creation_open :: "CreateDatabases \<Rightarrow> bool"
  cleanup_open :: "CleanupDatabase \<Rightarrow> bool"
  timer_ok :: "LeaseId \<Rightarrow> u64 \<Rightarrow> bool"
  elapsed_ms :: "Instant \<Rightarrow> nat"

section \<open>The identities of a batch\<close>

text \<open>\<open>batch_id request index\<close> is the identity the call computes when it does not panic.\<close>

definition batch_id :: "CreateDatabases \<Rightarrow> nat \<Rightarrow> DatabaseId" where
  "batch_id request index = DatabaseId (id_num (first_database_id request) + of_nat index)"

definition batch_fits :: "CreateDatabases \<Rightarrow> bool" where
  "batch_fits request \<longleftrightarrow> unat (id_num (first_database_id request)) + amount request \<le> 2 ^ 64"

lemma database_id_Inr:
  assumes "batch_fits request" "index < amount request"
  shows "database_id request index = Inr (batch_id request index)"
proof -
  from assms have lt: "index < 2 ^ 64" "unat (id_num (first_database_id request)) + index < 2 ^ 64"
    by (auto simp: batch_fits_def)
  then have "unat (of_nat index :: u64) = index"
    by (simp add: unat_of_nat)
  with assms lt show ?thesis
    by (simp add: database_id_def u64_try_from_def checked_add_def batch_id_def)
qed

lemma unat_batch_id:
  assumes "batch_fits request" "index < amount request"
  shows "unat (id_num (batch_id request index)) = unat (id_num (first_database_id request)) + index"
proof -
  from assms have lt: "unat (id_num (first_database_id request)) + index < 2 ^ 64"
    by (auto simp: batch_fits_def)
  moreover from assms lt have "unat (of_nat index :: u64) = index"
    by (simp add: unat_of_nat)
  ultimately show ?thesis
    by (simp add: batch_id_def unat_word_ariths)
qed

lemma inj_on_batch_id: "batch_fits request \<Longrightarrow> inj_on (batch_id request) {..<amount request}"
  by (rule inj_onI) (metis add_left_cancel lessThan_iff unat_batch_id)

lemma database_id_no_internal_panic:
  "index < amount request \<Longrightarrow> outcome exhaustion (\<lambda>_. True) (database_id request index)"
  by (auto simp: database_id_def split: option.splits)

end
