(* ===== verification/Inventory.thy ===== *)
theory Inventory
  imports Messages
begin

text \<open>
  The database inventory (crates/pgtest-core/src/worker_engine/database_inventory.rs): the
  databases being created, the ready queue and the databases being retired. Its invariant keeps
  every database identity in one place and below the counter that names new databases.
\<close>

section \<open>State and operations\<close>

record Database =
  db_id :: DatabaseId
  db_name :: ReadString

record DatabaseInventory =
  next_database_id :: u64
  creating :: "DatabaseId fset"
  ready :: "Database list"
  retiring :: "(DatabaseId, ReadString) fmap"

definition DatabaseInventory_default :: DatabaseInventory where
  "DatabaseInventory_default =
     \<lparr>next_database_id = 0, creating = {||}, ready = [], retiring = fmempty\<rparr>"

definition reserve_creations ::
  "nat \<Rightarrow> DatabaseInventory \<Rightarrow> panic + (CreateDatabases option \<times> DatabaseInventory)" where
  "reserve_creations n iv =
     (if n = 0 then Inr (None, iv)
      else case u64_try_from n of
             None \<Rightarrow> Inl DatabaseIdentityExhausted
           | Some k \<Rightarrow>
               (case checked_add (next_database_id iv) k of
                  None \<Rightarrow> Inl DatabaseIdentityExhausted
                | Some last_id \<Rightarrow>
                    (let request = \<lparr>first_database_id = DatabaseId (next_database_id iv + 1),
                                    amount = n\<rparr>
                     in bind_res (map_res (database_id request) [0..<n]) (\<lambda>ids.
                          Inr (Some request,
                               iv\<lparr>creating := creating iv |\<union>| fset_of_list ids,
                                   next_database_id := last_id\<rparr>)))))"

definition cancel_creation :: "DatabaseId \<Rightarrow> DatabaseInventory \<Rightarrow> bool \<times> DatabaseInventory" where
  "cancel_creation d iv = (d |\<in>| creating iv, iv\<lparr>creating := creating iv |-| {|d|}\<rparr>)"

definition complete_creation ::
  "DatabaseId \<Rightarrow> PostgresDDLClientError + ReadString \<Rightarrow> DatabaseInventory
     \<Rightarrow> (PostgresDDLClientError + unit) option \<times> DatabaseInventory" where
  "complete_creation d result iv =
     (if d |\<notin>| creating iv then (None, iv)
      else let iv' = iv\<lparr>creating := creating iv |-| {|d|}\<rparr>
           in case result of
                Inl e \<Rightarrow> (Some (Inl e), iv')
              | Inr name \<Rightarrow>
                  (Some (Inr ()), iv'\<lparr>ready := ready iv' @ [\<lparr>db_id = d, db_name = name\<rparr>]\<rparr>))"

definition take_ready :: "DatabaseInventory \<Rightarrow> Database option \<times> DatabaseInventory" where
  "take_ready iv =
     (case ready iv of
        [] \<Rightarrow> (None, iv)
      | db # rest \<Rightarrow> (Some db, iv\<lparr>ready := rest\<rparr>))"

definition return_ready :: "Database \<Rightarrow> DatabaseInventory \<Rightarrow> DatabaseInventory" where
  "return_ready db iv = iv\<lparr>ready := db # ready iv\<rparr>"

definition retire :: "Database \<Rightarrow> DatabaseInventory \<Rightarrow> CleanupDatabase \<times> DatabaseInventory" where
  "retire db iv =
     (\<lparr>cleanup_id = db_id db, cleanup_name = db_name db\<rparr>,
      iv\<lparr>retiring := fmupd (db_id db) (db_name db) (retiring iv)\<rparr>)"

definition complete_cleanup ::
  "DatabaseId \<Rightarrow> PostgresDDLClientError + unit \<Rightarrow> DatabaseInventory
     \<Rightarrow> (PostgresDDLClientError + unit) option \<times> DatabaseInventory" where
  "complete_cleanup d result iv =
     (if d |\<notin>| fmdom (retiring iv) then (None, iv)
      else case result of
             Inl e \<Rightarrow> (Some (Inl e), iv)
           | Inr u \<Rightarrow> (Some (Inr ()), iv\<lparr>retiring := fmdrop d (retiring iv)\<rparr>))"

definition supply_len :: "DatabaseInventory \<Rightarrow> nat" where
  "supply_len iv = length (ready iv) + fcard (creating iv)"

text \<open>
  \<open>contains\<close> guards \<open>return_ready\<close> and \<open>retire\<close> through \<open>debug_assert\<close>, which a release build
  drops: the operations above are those of a release build, and the engine's theory shows that the
  asserted condition holds at every call.
\<close>

definition contains :: "DatabaseInventory \<Rightarrow> DatabaseId \<Rightarrow> bool" where
  "contains iv d \<longleftrightarrow>
     d |\<in>| creating iv \<or> (\<exists>db \<in> set (ready iv). db_id db = d) \<or> d |\<in>| fmdom (retiring iv)"

section \<open>Invariant\<close>

definition held :: "DatabaseInventory \<Rightarrow> DatabaseId set" where
  "held iv = fset (creating iv) \<union> db_id ` set (ready iv) \<union> fset (fmdom (retiring iv))"

text \<open>An identity is known when the counter has already named it.\<close>

definition known :: "DatabaseInventory \<Rightarrow> DatabaseId \<Rightarrow> bool" where
  "known iv d \<longleftrightarrow> 1 \<le> unat (id_num d) \<and> unat (id_num d) \<le> unat (next_database_id iv)"

definition inventory_inv :: "DatabaseInventory \<Rightarrow> bool" where
  "inventory_inv iv \<longleftrightarrow>
     distinct (map db_id (ready iv)) \<and>
     fset (creating iv) \<inter> db_id ` set (ready iv) = {} \<and>
     fset (creating iv) \<inter> fset (fmdom (retiring iv)) = {} \<and>
     db_id ` set (ready iv) \<inter> fset (fmdom (retiring iv)) = {} \<and>
     (\<forall>d \<in> held iv. known iv d)"

lemma contains_held: "contains iv d \<longleftrightarrow> d \<in> held iv"
  by (auto simp: contains_def held_def)

lemma inventory_inv_default: "inventory_inv DatabaseInventory_default"
  by (simp add: inventory_inv_def DatabaseInventory_default_def held_def)

section \<open>Reserving a batch\<close>

definition batch_ids :: "CreateDatabases \<Rightarrow> DatabaseId set" where
  "batch_ids request = batch_id request ` {..<amount request}"

lemma card_batch_ids: "batch_fits request \<Longrightarrow> card (batch_ids request) = amount request"
  by (simp add: batch_ids_def card_image inj_on_batch_id)

text \<open>The request a reservation returns, and the inventory it leaves.\<close>

definition next_request :: "DatabaseInventory \<Rightarrow> nat \<Rightarrow> CreateDatabases" where
  "next_request iv n = \<lparr>first_database_id = DatabaseId (next_database_id iv + 1), amount = n\<rparr>"

lemma next_request_simps [simp]:
  "amount (next_request iv n) = n"
  "first_database_id (next_request iv n) = DatabaseId (next_database_id iv + 1)"
  by (simp_all add: next_request_def)

definition reserved :: "DatabaseInventory \<Rightarrow> nat \<Rightarrow> DatabaseInventory" where
  "reserved iv n =
     iv\<lparr>creating := creating iv |\<union>| fset_of_list (map (batch_id (next_request iv n)) [0..<n]),
        next_database_id := next_database_id iv + of_nat n\<rparr>"

lemma unat_next_first:
  assumes "0 < n" "unat (next_database_id iv) + n < 2 ^ 64"
  shows "unat (next_database_id iv + 1) = unat (next_database_id iv) + 1"
  using assms by (simp add: unat_word_ariths)

lemma unat_next_last:
  assumes "unat (next_database_id iv) + n < 2 ^ 64"
  shows "unat (next_database_id iv + of_nat n) = unat (next_database_id iv) + n"
  using assms by (simp add: unat_word_ariths unat_of_nat)

lemma next_request_fits:
  assumes "0 < n" "unat (next_database_id iv) + n < 2 ^ 64"
  shows "batch_fits (next_request iv n)"
  using assms unat_next_first [OF assms] by (simp add: batch_fits_def next_request_def)

lemma reserve_creations_zero [simp]: "reserve_creations 0 iv = Inr (None, iv)"
  by (simp add: reserve_creations_def)

lemma reserve_creations_fits:
  assumes "0 < n" "unat (next_database_id iv) + n < 2 ^ 64"
  shows "reserve_creations n iv = Inr (Some (next_request iv n), reserved iv n)"
proof -
  have fits: "batch_fits (next_request iv n)"
    using assms by (rule next_request_fits)
  have ids: "map_res (database_id (next_request iv n)) [0..<n]
               = Inr (map (batch_id (next_request iv n)) [0..<n])"
    by (rule map_res_all_Inr) (simp add: database_id_Inr [OF fits])
  from assms have "u64_try_from n = Some (of_nat n)"
    and "checked_add (next_database_id iv) (of_nat n) = Some (next_database_id iv + of_nat n)"
    by (simp_all add: u64_try_from_def checked_add_def unat_of_nat)
  with assms ids show ?thesis
    by (simp add: reserve_creations_def reserved_def next_request_def Let_def)
qed

lemma reserve_creations_exhausted:
  assumes "0 < n" "2 ^ 64 \<le> unat (next_database_id iv) + n"
  shows "reserve_creations n iv = Inl DatabaseIdentityExhausted"
  using assms
  by (auto simp: reserve_creations_def u64_try_from_def checked_add_def unat_of_nat)

lemma batch_next_request:
  assumes "0 < n" "unat (next_database_id iv) + n < 2 ^ 64" "d \<in> batch_ids (next_request iv n)"
  shows "unat (next_database_id iv) < unat (id_num d)"
    and "unat (id_num d) \<le> unat (next_database_id iv) + n"
proof -
  from assms(3) obtain i where "i < n" and d: "d = batch_id (next_request iv n) i"
    by (auto simp: batch_ids_def next_request_def)
  then have "unat (id_num d) = unat (next_database_id iv + 1) + i"
    using unat_batch_id [OF next_request_fits [OF assms(1,2)], of i]
    by (simp add: next_request_def)
  with \<open>i < n\<close> unat_next_first [OF assms(1,2)]
  show "unat (next_database_id iv) < unat (id_num d)"
    and "unat (id_num d) \<le> unat (next_database_id iv) + n"
    by simp_all
qed

lemma reserved_simps [simp]:
  "ready (reserved iv n) = ready iv"
  "retiring (reserved iv n) = retiring iv"
  "fset (creating (reserved iv n)) = fset (creating iv) \<union> batch_ids (next_request iv n)"
  by (auto simp: reserved_def batch_ids_def next_request_def fset_of_list.rep_eq)

lemma known_not_reserved:
  assumes "0 < n" "unat (next_database_id iv) + n < 2 ^ 64" "known iv d"
  shows "d \<notin> batch_ids (next_request iv n)"
  using batch_next_request(1) [OF assms(1,2)] assms(3) by (fastforce simp: known_def)

lemma known_reserved:
  assumes "unat (next_database_id iv) + n < 2 ^ 64" "known iv d"
  shows "known (reserved iv n) d"
  using assms unat_next_last [OF assms(1)] by (simp add: known_def reserved_def)

lemma held_reserved: "held (reserved iv n) = held iv \<union> batch_ids (next_request iv n)"
  by (auto simp: held_def)

lemma inventory_inv_reserved:
  assumes "0 < n" "unat (next_database_id iv) + n < 2 ^ 64" "inventory_inv iv"
  shows "inventory_inv (reserved iv n)"
proof -
  have fresh: "held iv \<inter> batch_ids (next_request iv n) = {}"
    using assms known_not_reserved [OF assms(1,2)] by (auto simp: inventory_inv_def)
  have new: "known (reserved iv n) d" if "d \<in> batch_ids (next_request iv n)" for d
    using batch_next_request [OF assms(1,2) that] unat_next_last [OF assms(2)]
    by (simp add: known_def reserved_def)
  have old: "known (reserved iv n) d" if "d \<in> held iv" for d
    using assms that known_reserved [OF assms(2)] by (auto simp: inventory_inv_def)
  from assms(3) fresh new old show ?thesis
    by (auto simp: inventory_inv_def held_reserved) (auto simp: held_def)
qed

lemma supply_len_reserved:
  assumes "0 < n" "unat (next_database_id iv) + n < 2 ^ 64" "inventory_inv iv"
  shows "supply_len (reserved iv n) = supply_len iv + n"
proof -
  have "finite (batch_ids (next_request iv n))"
    by (simp add: batch_ids_def)
  moreover have "fset (creating iv) \<inter> batch_ids (next_request iv n) = {}"
    using assms known_not_reserved [OF assms(1,2)] by (auto simp: inventory_inv_def held_def)
  ultimately have "card (fset (creating iv) \<union> batch_ids (next_request iv n)) = fcard (creating iv) + n"
    using card_batch_ids [OF next_request_fits [OF assms(1,2)]]
    by (simp add: card_Un_disjoint fcard.rep_eq next_request_def)
  then show ?thesis
    by (simp add: supply_len_def fcard.rep_eq)
qed

section \<open>Where a database is\<close>

text \<open>
  The abstract view of the inventory: for every identity, the place that holds it. \<^const>\<open>None\<close> is
  an identity that is not reserved yet, checked out by the engine, or gone.
\<close>

datatype place = Creating | Ready | Retiring

definition place_of :: "DatabaseInventory \<Rightarrow> DatabaseId \<Rightarrow> place option" where
  "place_of iv d =
     (if d |\<in>| creating iv then Some Creating
      else if d \<in> set (map db_id (ready iv)) then Some Ready
      else if d |\<in>| fmdom (retiring iv) then Some Retiring
      else None)"

lemma place_of_None: "place_of iv d = None \<longleftrightarrow> d \<notin> held iv"
  by (auto simp: place_of_def held_def)

lemma place_of_Creating: "place_of iv d = Some Creating \<longleftrightarrow> d |\<in>| creating iv"
  by (auto simp: place_of_def)

lemma place_of_Ready:
  "inventory_inv iv \<Longrightarrow> place_of iv d = Some Ready \<longleftrightarrow> d \<in> db_id ` set (ready iv)"
  by (auto simp: place_of_def inventory_inv_def)

lemma place_of_Retiring:
  "inventory_inv iv \<Longrightarrow> place_of iv d = Some Retiring \<longleftrightarrow> d |\<in>| fmdom (retiring iv)"
  by (auto simp: place_of_def inventory_inv_def)

lemma inventory_inv_held: "inventory_inv iv \<Longrightarrow> d \<in> held iv \<Longrightarrow> known iv d"
  by (simp add: inventory_inv_def)

section \<open>Every operation keeps the invariant and moves one database\<close>

lemma place_of_reserved:
  assumes "0 < n" "unat (next_database_id iv) + n < 2 ^ 64" "inventory_inv iv"
  shows "place_of (reserved iv n) d =
           (if d \<in> batch_ids (next_request iv n) then Some Creating else place_of iv d)"
  by (simp add: place_of_def)

lemma cancel_creation_correct:
  assumes "inventory_inv iv"
  shows "inventory_inv (snd (cancel_creation d iv))"
    and "place_of (snd (cancel_creation d iv)) =
           (if place_of iv d = Some Creating then (place_of iv)(d := None) else place_of iv)"
    and "fst (cancel_creation d iv) \<longleftrightarrow> place_of iv d = Some Creating"
  using assms
  by (auto simp: cancel_creation_def inventory_inv_def held_def known_def place_of_def fun_eq_iff)

lemma complete_creation_correct:
  assumes "inventory_inv iv"
  shows "inventory_inv (snd (complete_creation d r iv))"
    and "place_of (snd (complete_creation d r iv)) =
           (if place_of iv d = Some Creating
            then (place_of iv)(d := (case r of Inl e \<Rightarrow> None | Inr name \<Rightarrow> Some Ready))
            else place_of iv)"
    and "fst (complete_creation d r iv) =
           (if place_of iv d = Some Creating then Some (map_sum id (\<lambda>_. ()) r) else None)"
  using assms
  by (auto simp: complete_creation_def inventory_inv_def held_def known_def place_of_def fun_eq_iff
      Let_def split: sum.splits)

lemma take_ready_Some: "take_ready iv = (Some db, iv') \<longleftrightarrow> (\<exists>rest. ready iv = db # rest \<and> iv' = iv\<lparr>ready := rest\<rparr>)"
  by (auto simp: take_ready_def split: list.splits)

lemma take_ready_None: "take_ready iv = (None, iv') \<longleftrightarrow> ready iv = [] \<and> iv' = iv"
  by (auto simp: take_ready_def split: list.splits)

lemma take_ready_correct:
  assumes "inventory_inv iv" "take_ready iv = (Some db, iv')"
  shows "inventory_inv iv'"
    and "place_of iv (db_id db) = Some Ready"
    and "place_of iv' = (place_of iv)(db_id db := None)"
    and "known iv' (db_id db)"
proof -
  from assms(2) obtain rest where r: "ready iv = db # rest" "iv' = iv\<lparr>ready := rest\<rparr>"
    by (auto simp: take_ready_Some)
  with assms(1) show "inventory_inv iv'"
    by (auto simp: inventory_inv_def held_def known_def)
  from r assms(1) show "place_of iv (db_id db) = Some Ready"
    by (auto simp: place_of_def inventory_inv_def)
  from r assms(1) show "known iv' (db_id db)"
    by (auto simp: inventory_inv_def held_def known_def)
  from r assms(1) show "place_of iv' = (place_of iv)(db_id db := None)"
    by (intro ext) (auto simp: place_of_def inventory_inv_def)
qed

lemma return_ready_correct:
  assumes "inventory_inv iv" "place_of iv (db_id db) = None" "known iv (db_id db)"
  shows "inventory_inv (return_ready db iv)"
    and "place_of (return_ready db iv) = (place_of iv)(db_id db := Some Ready)"
  using assms
  by (auto simp: return_ready_def inventory_inv_def held_def known_def place_of_def fun_eq_iff
      split: if_splits)

lemma retire_correct:
  assumes "inventory_inv iv" "place_of iv (db_id db) = None" "known iv (db_id db)"
  shows "inventory_inv (snd (retire db iv))"
    and "place_of (snd (retire db iv)) = (place_of iv)(db_id db := Some Retiring)"
  using assms
  by (auto simp: retire_def inventory_inv_def held_def known_def place_of_def fun_eq_iff
      split: if_splits)

lemma complete_cleanup_correct:
  assumes "inventory_inv iv"
  shows "inventory_inv (snd (complete_cleanup d r iv))"
    and "place_of (snd (complete_cleanup d r iv)) =
           (if place_of iv d = Some Retiring \<and> r = Inr () then (place_of iv)(d := None) else place_of iv)"
    and "fst (complete_cleanup d r iv) = (if place_of iv d = Some Retiring then Some r else None)"
  using assms
  by (auto simp: complete_cleanup_def inventory_inv_def held_def known_def place_of_def fun_eq_iff
      split: sum.splits if_splits)

section \<open>The contract of the inventory\<close>

text \<open>
  What the engine relies on: a store of databases with an abstract view \<open>where_is\<close>. The laws are
  one per operation; the lemmas are the combinations the engine performs (handing a database out
  and taking it back, retiring a checked-out database, giving up a batch that could not be
  submitted, a completion that arrives twice).
\<close>

locale database_store =
  fixes reserve :: "nat \<Rightarrow> 's \<Rightarrow> panic + (CreateDatabases option \<times> 's)"
    and cancel :: "DatabaseId \<Rightarrow> 's \<Rightarrow> bool \<times> 's"
    and settle :: "DatabaseId \<Rightarrow> PostgresDDLClientError + ReadString \<Rightarrow> 's
                     \<Rightarrow> (PostgresDDLClientError + unit) option \<times> 's"
    and checkout :: "'s \<Rightarrow> Database option \<times> 's"
    and give_back :: "Database \<Rightarrow> 's \<Rightarrow> 's"
    and discard :: "Database \<Rightarrow> 's \<Rightarrow> CleanupDatabase \<times> 's"
    and forget :: "DatabaseId \<Rightarrow> PostgresDDLClientError + unit \<Rightarrow> 's
                     \<Rightarrow> (PostgresDDLClientError + unit) option \<times> 's"
    and where_is :: "'s \<Rightarrow> DatabaseId \<Rightarrow> place option"
    and named :: "'s \<Rightarrow> DatabaseId \<Rightarrow> bool"
    and wf :: "'s \<Rightarrow> bool"
  assumes reserve_law: "wf s \<Longrightarrow> 0 < n \<Longrightarrow>
      outcome exhaustion (\<lambda>(r, s'). \<exists>req. r = Some req \<and> amount req = n \<and> batch_fits req \<and> wf s' \<and>
        (\<forall>d \<in> batch_ids req. where_is s d = None) \<and>
        where_is s' = (\<lambda>d. if d \<in> batch_ids req then Some Creating else where_is s d))
      (reserve n s)"
    and cancel_law: "wf s \<Longrightarrow> wf (snd (cancel d s)) \<and> where_is (snd (cancel d s)) =
        (if where_is s d = Some Creating then (where_is s)(d := None) else where_is s)"
    and settle_law: "wf s \<Longrightarrow> wf (snd (settle d r s)) \<and> where_is (snd (settle d r s)) =
        (if where_is s d = Some Creating
         then (where_is s)(d := (case r of Inl e \<Rightarrow> None | Inr name \<Rightarrow> Some Ready)) else where_is s)"
    and settle_answer: "wf s \<Longrightarrow> fst (settle d r s) \<noteq> None \<longleftrightarrow> where_is s d = Some Creating"
    and checkout_law: "wf s \<Longrightarrow> checkout s = (Some db, s') \<Longrightarrow>
        wf s' \<and> where_is s (db_id db) = Some Ready \<and> named s' (db_id db) \<and>
        where_is s' = (where_is s)(db_id db := None)"
    and give_back_law: "wf s \<Longrightarrow> where_is s (db_id db) = None \<Longrightarrow> named s (db_id db) \<Longrightarrow>
        wf (give_back db s) \<and> where_is (give_back db s) = (where_is s)(db_id db := Some Ready)"
    and discard_law: "wf s \<Longrightarrow> where_is s (db_id db) = None \<Longrightarrow> named s (db_id db) \<Longrightarrow>
        wf (snd (discard db s)) \<and>
        where_is (snd (discard db s)) = (where_is s)(db_id db := Some Retiring)"
    and forget_law: "wf s \<Longrightarrow> wf (snd (forget d u s)) \<and> where_is (snd (forget d u s)) =
        (if where_is s d = Some Retiring \<and> u = Inr () then (where_is s)(d := None) else where_is s)"
begin

lemma checkout_give_back:
  assumes "wf s" "checkout s = (Some db, s')"
  shows "wf (give_back db s')" and "where_is (give_back db s') = where_is s"
proof -
  note out = checkout_law [OF assms]
  then have returned: "wf (give_back db s')"
    "where_is (give_back db s') = (where_is s')(db_id db := Some Ready)"
    using give_back_law [of s' db] by auto
  then show "wf (give_back db s')" by simp
  from returned out show "where_is (give_back db s') = where_is s"
    by (auto simp: fun_eq_iff)
qed

lemma checkout_discard:
  assumes "wf s" "checkout s = (Some db, s')"
  shows "wf (snd (discard db s'))"
    and "where_is (snd (discard db s')) = (where_is s)(db_id db := Some Retiring)"
  using checkout_law [OF assms] discard_law [of s' db] by auto

lemma discard_forget:
  assumes "wf s" "where_is s (db_id db) = None" "named s (db_id db)"
  shows "where_is (snd (forget (db_id db) (Inr ()) (snd (discard db s)))) = where_is s"
  using discard_law [OF assms] forget_law [of "snd (discard db s)" "db_id db" "Inr ()"] assms(2)
  by (auto simp: fun_eq_iff)

lemma settle_again:
  assumes "wf s"
  shows "fst (settle d r' (snd (settle d r s))) = None"
    and "where_is (snd (settle d r' (snd (settle d r s)))) = where_is (snd (settle d r s))"
proof -
  let ?t = "snd (settle d r s)"
  have t: "wf ?t" "where_is ?t d \<noteq> Some Creating"
    using settle_law [OF assms, of d r] by (auto split: sum.splits)
  then show "fst (settle d r' ?t) = None"
    using settle_answer by blast
  from t show "where_is (snd (settle d r' ?t)) = where_is ?t"
    using settle_law [of ?t d r'] by simp
qed

lemma cancel_list:
  assumes "wf s"
  shows "wf (fold (\<lambda>d s. snd (cancel d s)) ds s) \<and>
         where_is (fold (\<lambda>d s. snd (cancel d s)) ds s) =
           (\<lambda>d. if d \<in> set ds \<and> where_is s d = Some Creating then None else where_is s d)"
  using assms
proof (induction ds arbitrary: s)
  case Nil
  then show ?case by (simp add: fun_eq_iff)
next
  case (Cons d ds)
  have "wf (snd (cancel d s))" and w: "where_is (snd (cancel d s)) =
      (if where_is s d = Some Creating then (where_is s)(d := None) else where_is s)"
    using cancel_law [OF Cons.prems] by auto
  from Cons.IH [OF this(1)] show ?case
    by (auto simp: w fun_eq_iff)
qed

lemma reserve_give_up:
  assumes "wf s" "0 < n" "reserve n s = Inr (Some req, s')"
    and "set ds = batch_ids req"
  shows "wf (fold (\<lambda>d s. snd (cancel d s)) ds s')"
    and "where_is (fold (\<lambda>d s. snd (cancel d s)) ds s') = where_is s"
proof -
  from reserve_law [OF assms(1,2)] assms(3)
  have "wf s'" and free: "\<forall>d \<in> batch_ids req. where_is s d = None"
    and w: "where_is s' = (\<lambda>d. if d \<in> batch_ids req then Some Creating else where_is s d)"
    by auto
  from cancel_list [OF \<open>wf s'\<close>, of ds]
  show "wf (fold (\<lambda>d s. snd (cancel d s)) ds s')"
    and "where_is (fold (\<lambda>d s. snd (cancel d s)) ds s') = where_is s"
    using free assms(4) by (auto simp: w fun_eq_iff)
qed

end

lemma reserve_creations_outcome:
  assumes "inventory_inv iv" "0 < n"
  shows "outcome exhaustion (\<lambda>(r, iv'). r = Some (next_request iv n) \<and> iv' = reserved iv n \<and>
           unat (next_database_id iv) + n < 2 ^ 64) (reserve_creations n iv)"
  using reserve_creations_fits [OF assms(2), of iv] reserve_creations_exhausted [OF assms(2), of iv]
  by (cases "unat (next_database_id iv) + n < 2 ^ 64") auto

lemma place_of_batch:
  assumes "0 < n" "unat (next_database_id iv) + n < 2 ^ 64" "inventory_inv iv"
    "d \<in> batch_ids (next_request iv n)"
  shows "place_of iv d = None"
  using known_not_reserved [OF assms(1,2)] assms(3,4) inventory_inv_held place_of_None by blast

interpretation store: database_store reserve_creations cancel_creation complete_creation
  take_ready return_ready retire complete_cleanup place_of known inventory_inv
proof (unfold_locales, goal_cases)
  case (1 s n)
  from reserve_creations_outcome [OF 1] show ?case
    by (rule outcome_mono)
      (auto simp: place_of_reserved [OF 1(2) _ 1(1)] fun_eq_iff next_request_fits [OF 1(2)]
        inventory_inv_reserved [OF 1(2) _ 1(1)] place_of_batch [OF 1(2) _ 1(1)])
next
  case (4 s d r)
  then show ?case by (simp add: complete_creation_correct(3))
qed (simp_all add: cancel_creation_correct complete_creation_correct take_ready_correct
    return_ready_correct retire_correct complete_cleanup_correct)

end
