(* ===== verification/Engine.thy ===== *)
theory Engine
  imports Inventory
begin

text \<open>
  The worker engine (crates/pgtest-core/src/worker_engine/core.rs): the single task that owns the
  leases, the queue of waiting leases and the database inventory, and handles one message at a
  time. Every method is one definition that takes the engine and returns it updated, or the panic
  it ends in; the calls it makes to its surroundings are appended to \<open>calls\<close>.
\<close>

section \<open>State\<close>

record WorkerEngineConfig =
  initial_slots :: u16
  starvation_threshold :: u16
  grow_batch_size :: u16
  lease_claim_timeout_ms :: u64
  max_lease_records :: nat

datatype LeaseStatus = Open | Closed

record LeaseEntry =
  database :: Database
  conns :: u16
  generation :: u64
  cancellation :: CancellationToken

record EngineCounters =
  rejected_attach_max_lifetime :: u64
  waiter_timeouts :: u64
  template_create_failures :: u64
  detach_on_zero :: u64
  non_ready_slots :: u64
  unable_to_start_database_slots :: u64

definition EngineCounters_default :: EngineCounters where
  "EngineCounters_default =
     \<lparr>rejected_attach_max_lifetime = 0, waiter_timeouts = 0, template_create_failures = 0,
      detach_on_zero = 0, non_ready_slots = 0, unable_to_start_database_slots = 0\<rparr>"

record 'c WorkerEngine =
  leases :: "(LeaseId, LeaseEntry) fmap"
  lease_records :: "(LeaseId, LeaseStatus) fmap"
  next_generation :: u64
  config :: WorkerEngineConfig
  waiters :: "LeaseId list"
  group_waiters :: "(LeaseId, ('c \<times> Instant) list) fmap"
  counters :: EngineCounters
  inventory :: DatabaseInventory
  calls :: "'c call list"

definition WorkerEngine_new :: "WorkerEngineConfig \<Rightarrow> 'c WorkerEngine" where
  "WorkerEngine_new cfg =
     \<lparr>leases = fmempty, lease_records = fmempty, next_generation = 0, config = cfg, waiters = [],
      group_waiters = fmempty, counters = EngineCounters_default,
      inventory = DatabaseInventory_default, calls = []\<rparr>"

section \<open>Calls to the surroundings\<close>

definition record_call :: "'c call \<Rightarrow> 'c WorkerEngine \<Rightarrow> 'c WorkerEngine" where
  "record_call c s = s\<lparr>calls := calls s @ [c]\<rparr>"

definition send_reply :: "'c env \<Rightarrow> 'c \<Rightarrow> ConsumerReply \<Rightarrow> 'c WorkerEngine \<Rightarrow> bool \<times> 'c WorkerEngine" where
  "send_reply env c msg s = (accepts env c msg, record_call (Reply c msg (accepts env c msg)) s)"

text \<open>The loops that send the same rejection to a list of waiting consumers.\<close>

definition reject_all ::
  "'c env \<Rightarrow> AttachError \<Rightarrow> ('c \<times> Instant) list \<Rightarrow> 'c WorkerEngine \<Rightarrow> 'c WorkerEngine" where
  "reject_all env err ws s = fold (\<lambda>(c, _) s. snd (send_reply env c (AttachRejected err) s)) ws s"

section \<open>Initialisation\<close>

text \<open>
  \<open>try_init\<close> receives the results of the initial batch through a callback, in the order in which
  the PostgreSQL client reports them: \<open>completions n\<close> is the sequence of calls of the callback for a
  batch of \<open>n\<close>.
\<close>

fun init_completions ::
  "CreateDatabases \<Rightarrow> (nat \<times> (PostgresDDLClientError + ReadString)) list
     \<Rightarrow> PostgresDDLClientError option \<Rightarrow> DatabaseInventory
     \<Rightarrow> panic + (PostgresDDLClientError option \<times> DatabaseInventory)" where
  "init_completions request [] first_error iv = Inr (first_error, iv)"
| "init_completions request ((index, result) # rest) first_error iv =
     bind_res (database_id request index) (\<lambda>d.
       case complete_creation d result iv of
         (None, iv') \<Rightarrow> Inl InitialCreationWithoutReservation
       | (Some (Inl e), iv') \<Rightarrow>
           init_completions request rest
             (case first_error of None \<Rightarrow> Some e | Some e0 \<Rightarrow> Some e0) iv'
       | (Some (Inr u), iv') \<Rightarrow> init_completions request rest first_error iv')"

definition try_init ::
  "(nat \<Rightarrow> (nat \<times> (PostgresDDLClientError + ReadString)) list) \<Rightarrow> 'c WorkerEngine
     \<Rightarrow> panic + ((PostgresDDLClientError + unit) \<times> 'c WorkerEngine)" where
  "try_init create_databases s =
     bind_res (reserve_creations (unat (initial_slots (config s))) (inventory s)) (\<lambda>(r, iv).
       case r of
         None \<Rightarrow> Inr (Inr (), s)
       | Some request \<Rightarrow>
           bind_res (init_completions request (create_databases (amount request)) None iv)
             (\<lambda>(first_error, iv').
               Inr (case first_error of None \<Rightarrow> Inr () | Some e \<Rightarrow> Inl e, s\<lparr>inventory := iv'\<rparr>)))"

section \<open>Growth\<close>

text \<open>A queued claim is live while its timeout, if there is one, has not passed.\<close>

definition claim_live :: "'c env \<Rightarrow> 'c WorkerEngine \<Rightarrow> Instant \<Rightarrow> bool" where
  "claim_live env s t \<longleftrightarrow>
     lease_claim_timeout_ms (config s) = 0 \<or>
     elapsed_ms env t \<le> unat (lease_claim_timeout_ms (config s))"

definition waiting_leases :: "'c env \<Rightarrow> 'c WorkerEngine \<Rightarrow> LeaseId fset" where
  "waiting_leases env s =
     ffilter (\<lambda>l. l |\<notin>| fmdom (leases s) \<and>
                  (case fmlookup (group_waiters s) l of
                     None \<Rightarrow> False
                   | Some replies \<Rightarrow> list_ex (\<lambda>(c, t). claim_live env s t) replies))
       (fmdom (group_waiters s))"

fun cancel_batch ::
  "CreateDatabases \<Rightarrow> nat list \<Rightarrow> DatabaseInventory \<Rightarrow> panic + DatabaseInventory" where
  "cancel_batch request [] iv = Inr iv"
| "cancel_batch request (index # rest) iv =
     bind_res (database_id request index) (\<lambda>d.
       cancel_batch request rest (snd (cancel_creation d iv)))"

definition grow :: "'c env \<Rightarrow> 'c WorkerEngine \<Rightarrow> panic + 'c WorkerEngine" where
  "grow env s =
     (let batch_size = unat (grow_batch_size (config s)) in
      if batch_size = 0 then Inr s
      else
        let waiting = fcard (waiting_leases env s);
            required = waiting + unat (starvation_threshold (config s)) + 1;
            deficit = required - supply_len (inventory s)
        in
        if deficit = 0 then Inr s
        else
          let count = div_ceil deficit batch_size * batch_size in
          bind_res (reserve_creations count (inventory s)) (\<lambda>(r, iv).
            case r of
              None \<Rightarrow> Inl GrowthCountZero
            | Some request \<Rightarrow>
                let submitted = creation_open env request;
                    s1 = record_call (RequestCreation request submitted) (s\<lparr>inventory := iv\<rparr>)
                in
                if submitted then Inr s1
                else
                  bind_res (cancel_batch request [0..<amount request] (inventory s1)) (\<lambda>iv'.
                    case u64_try_from count of
                      None \<Rightarrow> Inl DatabaseIdentityExhausted
                    | Some k \<Rightarrow>
                        Inr (s1\<lparr>inventory := iv',
                                counters := (counters s1)
                                  \<lparr>unable_to_start_database_slots :=
                                     unable_to_start_database_slots (counters s1) + k\<rparr>\<rparr>))))"

section \<open>Assigning and restoring databases\<close>

definition reply_attached ::
  "'c env \<Rightarrow> LeaseId \<Rightarrow> ReadString \<Rightarrow> 'c \<Rightarrow> 'c WorkerEngine \<Rightarrow> panic + 'c WorkerEngine" where
  "reply_attached env lease name c s =
     (case fmlookup (leases s) lease of
        None \<Rightarrow> Inl ReplyRequiresAssigned
      | Some entry \<Rightarrow>
          (case checked_add (conns entry) 1 of
             None \<Rightarrow> Inr (snd (send_reply env c FailedToAttach s))
           | Some n \<Rightarrow>
               let s1 = s\<lparr>leases := fmupd lease (entry\<lparr>conns := n\<rparr>) (leases s)\<rparr>;
                   (delivered, s2) =
                     send_reply env c (Attached name (generation entry) (cancellation entry)) s1
               in
               if delivered then Inr s2
               else Inr (s2\<lparr>leases := fmupd lease (entry\<lparr>conns := n - 1\<rparr>) (leases s2)\<rparr>)))"

definition restore_unclaimed_database ::
  "LeaseId \<Rightarrow> 'c WorkerEngine \<Rightarrow> panic + (bool \<times> 'c WorkerEngine)" where
  "restore_unclaimed_database lease s =
     (if \<not> (case fmlookup (leases s) lease of None \<Rightarrow> False | Some entry \<Rightarrow> conns entry = 0)
      then Inr (False, s)
      else case fmlookup (leases s) lease of
             None \<Rightarrow> Inl RemoveRequiresLease
           | Some entry \<Rightarrow>
               let s1 = s\<lparr>leases := fmdrop lease (leases s)\<rparr>;
                   s2 = record_call (CancelToken (cancellation entry)) s1
               in Inr (True, s2\<lparr>inventory := return_ready (database entry) (inventory s2)\<rparr>))"

definition assign_database ::
  "'c env \<Rightarrow> LeaseId \<Rightarrow> Database \<Rightarrow> 'c WorkerEngine \<Rightarrow> panic + (ReadString \<times> 'c WorkerEngine)" where
  "assign_database env lease db s =
     (case checked_add (next_generation s) 1 of
        None \<Rightarrow> Inl LeaseGenerationExhausted
      | Some g \<Rightarrow>
          let token = ChildToken g;
              s1 = s\<lparr>next_generation := g,
                     leases := fmupd lease
                       \<lparr>database = db, conns = 0, generation = g, cancellation = token\<rparr> (leases s)\<rparr>
          in
          Inr (db_name db,
               if lease_claim_timeout_ms (config s1) > 0
               then record_call
                      (SendDelayed lease g (ucast (lease_claim_timeout_ms (config s1))) token
                         (timer_ok env lease g)) s1
               else s1))"

section \<open>Serving the queue\<close>

fun dispatch_replies ::
  "'c env \<Rightarrow> LeaseId \<Rightarrow> ('c \<times> Instant) list \<Rightarrow> 'c WorkerEngine \<Rightarrow> panic + 'c WorkerEngine" where
  "dispatch_replies env lease [] s = Inr s"
| "dispatch_replies env lease ((c, message_time) # rest) s =
     (if lease_claim_timeout_ms (config s) > 0 \<and>
         elapsed_ms env message_time > unat (lease_claim_timeout_ms (config s))
      then dispatch_replies env lease rest
             (s\<lparr>counters := (counters s)\<lparr>waiter_timeouts := waiter_timeouts (counters s) + 1\<rparr>\<rparr>)
      else
        bind_res
          (case fmlookup (leases s) lease of
             Some entry \<Rightarrow> Inr (db_name (database entry), s)
           | None \<Rightarrow>
               (case take_ready (inventory s) of
                  (None, iv) \<Rightarrow> Inl DispatchRequiresReady
                | (Some db, iv) \<Rightarrow> assign_database env lease db (s\<lparr>inventory := iv\<rparr>)))
          (\<lambda>(name, s1).
             bind_res (reply_attached env lease name c s1) (dispatch_replies env lease rest)))"

lemma waiters_record_call [simp]: "waiters (record_call c s) = waiters s"
  by (simp add: record_call_def)

lemma waiters_send_reply [simp]: "waiters (snd (send_reply env c msg s)) = waiters s"
  by (simp add: send_reply_def)

lemma waiters_reject_all [simp]: "waiters (reject_all env err ws s) = waiters s"
  by (induction ws arbitrary: s) (auto simp: reject_all_def)

lemma waiters_reply_attached:
  "reply_attached env lease name c s = Inr s' \<Longrightarrow> waiters s' = waiters s"
  by (auto simp: reply_attached_def send_reply_def Let_def split: option.splits if_splits)

lemma waiters_assign_database:
  "assign_database env lease db s = Inr (name, s') \<Longrightarrow> waiters s' = waiters s"
  by (auto simp: assign_database_def Let_def split: option.splits if_splits)

lemma waiters_restore:
  "restore_unclaimed_database lease s = Inr (b, s') \<Longrightarrow> waiters s' = waiters s"
  by (auto simp: restore_unclaimed_database_def Let_def split: option.splits if_splits)

lemma waiters_dispatch_replies:
  "dispatch_replies env lease replies s = Inr s' \<Longrightarrow> waiters s' = waiters s"
proof (induction env lease replies s rule: dispatch_replies.induct)
  case (1 env lease s)
  then show ?case by simp
next
  case (2 env lease c message_time rest s)
  then show ?case
    by (fastforce simp: res_simps split: if_splits option.splits prod.splits
        dest: waiters_reply_attached waiters_assign_database)
qed

function dispatch_waiters :: "'c env \<Rightarrow> 'c WorkerEngine \<Rightarrow> panic + 'c WorkerEngine" where
  "dispatch_waiters env s =
     (if ready (inventory s) = [] then Inr s
      else case waiters s of
             [] \<Rightarrow> Inr s
           | lease # rest \<Rightarrow>
               let s1 = s\<lparr>waiters := rest\<rparr> in
               (case fmlookup (group_waiters s1) lease of
                  None \<Rightarrow> dispatch_waiters env s1
                | Some replies \<Rightarrow>
                    let s2 = s1\<lparr>group_waiters := fmdrop lease (group_waiters s1)\<rparr> in
                    if fmlookup (lease_records s2) lease = Some Closed
                    then dispatch_waiters env (reject_all env LeaseClosed replies s2)
                    else
                      let already_assigned = lease |\<in>| fmdom (leases s2) in
                      bind_res (dispatch_replies env lease replies s2) (\<lambda>s3.
                        bind_res
                          (if already_assigned then Inr (False, s3)
                           else restore_unclaimed_database lease s3)
                          (\<lambda>(restored, s4). dispatch_waiters env s4))))"
  by pat_completeness auto
termination
  by (relation "measure (\<lambda>(env, s). length (waiters s))")
    (auto dest!: waiters_dispatch_replies waiters_restore split: if_splits)

declare dispatch_waiters.simps [simp del]

section \<open>Admission, attachment and release\<close>

definition admit_lease ::
  "LeaseId \<Rightarrow> 'c WorkerEngine \<Rightarrow> (ReleaseError + LeaseStatus) \<times> 'c WorkerEngine" where
  "admit_lease lease s =
     (case fmlookup (lease_records s) lease of
        Some status \<Rightarrow> (Inr status, s)
      | None \<Rightarrow>
          if fcard (fmdom (lease_records s)) \<ge> max_lease_records (config s)
          then (Inl ReleaseLeaseRecordLimitReached, s)
          else (Inr Open, s\<lparr>lease_records := fmupd lease Open (lease_records s)\<rparr>))"

definition retire_lease :: "'c env \<Rightarrow> LeaseId \<Rightarrow> 'c WorkerEngine \<Rightarrow> panic + 'c WorkerEngine" where
  "retire_lease env lease s =
     (case fmlookup (leases s) lease of
        None \<Rightarrow> Inr s
      | Some entry \<Rightarrow>
          let s1 = s\<lparr>leases := fmdrop lease (leases s)\<rparr>;
              s2 = record_call (CancelToken (cancellation entry)) s1;
              (request, iv) = retire (database entry) (inventory s2);
              s3 = record_call (RequestCleanup request (cleanup_open env request))
                     (s2\<lparr>inventory := iv\<rparr>)
          in grow env s3)"

definition release_lease ::
  "'c env \<Rightarrow> LeaseId \<Rightarrow> 'c WorkerEngine \<Rightarrow> panic + ((ReleaseError + unit) \<times> 'c WorkerEngine)" where
  "release_lease env lease s =
     (case admit_lease lease s of
        (Inl e, s1) \<Rightarrow> Inr (Inl e, s1)
      | (Inr Closed, s1) \<Rightarrow> Inr (Inr (), s1)
      | (Inr Open, s1) \<Rightarrow>
          let s2 = s1\<lparr>lease_records := fmupd lease Closed (lease_records s1)\<rparr>;
              s3 = (case fmlookup (group_waiters s2) lease of
                      None \<Rightarrow> s2
                    | Some ws \<Rightarrow>
                        reject_all env LeaseClosed ws
                          (s2\<lparr>group_waiters := fmdrop lease (group_waiters s2)\<rparr>));
              s4 = s3\<lparr>waiters := filter (\<lambda>w. w \<noteq> lease) (waiters s3)\<rparr>
          in bind_res (retire_lease env lease s4) (\<lambda>s5. Inr (Inr (), s5)))"

definition enqueue_waiter :: "LeaseId \<Rightarrow> 'c \<Rightarrow> Instant \<Rightarrow> 'c WorkerEngine \<Rightarrow> 'c WorkerEngine" where
  "enqueue_waiter lease c t s =
     (let s1 = (if lease |\<notin>| fmdom (group_waiters s)
                then s\<lparr>waiters := waiters s @ [lease]\<rparr> else s);
          group = (case fmlookup (group_waiters s1) lease of None \<Rightarrow> [] | Some ws \<Rightarrow> ws)
      in s1\<lparr>group_waiters := fmupd lease (group @ [(c, t)]) (group_waiters s1)\<rparr>)"

definition attach_error :: "ReleaseError \<Rightarrow> AttachError" where
  "attach_error e =
     (case e of ReleaseInvalidLeaseId \<Rightarrow> AttachInvalidLeaseId | _ \<Rightarrow> AttachLeaseRecordLimitReached)"

definition attach_or_join ::
  "'c env \<Rightarrow> LeaseId \<Rightarrow> 'c \<Rightarrow> Instant \<Rightarrow> 'c WorkerEngine \<Rightarrow> panic + 'c WorkerEngine" where
  "attach_or_join env lease c message_time s =
     (case admit_lease lease s of
        (Inr Closed, s1) \<Rightarrow> Inr (snd (send_reply env c (AttachRejected LeaseClosed) s1))
      | (Inl e, s1) \<Rightarrow> Inr (snd (send_reply env c (AttachRejected (attach_error e)) s1))
      | (Inr Open, s1) \<Rightarrow>
          (case fmlookup (leases s1) lease of
             Some entry \<Rightarrow> reply_attached env lease (db_name (database entry)) c s1
           | None \<Rightarrow>
               (case take_ready (inventory s1) of
                  (None, iv) \<Rightarrow> grow env (enqueue_waiter lease c message_time s1)
                | (Some db, iv) \<Rightarrow>
                    bind_res (assign_database env lease db (s1\<lparr>inventory := iv\<rparr>)) (\<lambda>(name, s2).
                      bind_res (reply_attached env lease name c s2) (\<lambda>s3.
                        bind_res (restore_unclaimed_database lease s3) (\<lambda>(restored, s4).
                          bind_res (if restored then dispatch_waiters env s4 else Inr s4)
                            (grow env)))))))"

section \<open>Messages\<close>

definition handle_detach :: "LeaseId \<Rightarrow> u64 \<Rightarrow> 'c WorkerEngine \<Rightarrow> 'c WorkerEngine" where
  "handle_detach lease g s =
     (case fmlookup (leases s) lease of
        None \<Rightarrow> s
      | Some entry \<Rightarrow>
          if generation entry = g
          then if conns entry = 0
               then s\<lparr>counters := (counters s)\<lparr>detach_on_zero := detach_on_zero (counters s) + 1\<rparr>\<rparr>
               else s\<lparr>leases := fmupd lease (entry\<lparr>conns := conns entry - 1\<rparr>) (leases s)\<rparr>
          else s)"

definition handle_max_time ::
  "'c env \<Rightarrow> LeaseId \<Rightarrow> u64 \<Rightarrow> 'c WorkerEngine \<Rightarrow> panic + 'c WorkerEngine" where
  "handle_max_time env lease g s =
     (case fmlookup (leases s) lease of
        None \<Rightarrow> Inr s
      | Some entry \<Rightarrow>
          if generation entry = g
          then retire_lease env lease
                 (s\<lparr>counters := (counters s)\<lparr>rejected_attach_max_lifetime :=
                       rejected_attach_max_lifetime (counters s) + 1\<rparr>\<rparr>)
          else Inr s)"

definition handle_database_worker_message ::
  "'c env \<Rightarrow> DatabaseWorkerMessages \<Rightarrow> 'c WorkerEngine \<Rightarrow> panic + 'c WorkerEngine" where
  "handle_database_worker_message env message s =
     (case message of
        CreationFinished d result \<Rightarrow>
          (case complete_creation d result (inventory s) of
             (None, iv) \<Rightarrow> Inr (s\<lparr>inventory := iv\<rparr>)
           | (Some settled, iv) \<Rightarrow>
               let s1 = s\<lparr>inventory := iv\<rparr>;
                   s2 = (case settled of
                           Inl e \<Rightarrow> s1\<lparr>counters := (counters s1)\<lparr>template_create_failures :=
                                        template_create_failures (counters s1) + 1\<rparr>\<rparr>
                         | Inr u \<Rightarrow> s1)
               in bind_res (dispatch_waiters env s2) (grow env))
      | CleanupFinished d result \<Rightarrow>
          Inr (s\<lparr>inventory := snd (complete_cleanup d result (inventory s))\<rparr>))"

text \<open>One turn of the loop of \<open>process_messages\<close>; the flag says whether the loop goes on.\<close>

definition handle_message ::
  "'c env \<Rightarrow> 'c EngineMessage \<Rightarrow> 'c WorkerEngine \<Rightarrow> panic + (bool \<times> 'c WorkerEngine)" where
  "handle_message env msg s =
     (case msg of
        AttachOrJoin lease c t \<Rightarrow>
          bind_res (attach_or_join env lease c t s) (\<lambda>s1. Inr (True, s1))
      | ReleaseLease lease c \<Rightarrow>
          bind_res (release_lease env lease s) (\<lambda>(result, s1).
            Inr (True, snd (send_reply env c (ReleaseResult result) s1)))
      | Detach lease g \<Rightarrow> Inr (True, handle_detach lease g s)
      | LeaseMaxTimeReached lease g \<Rightarrow>
          bind_res (handle_max_time env lease g s) (\<lambda>s1. Inr (True, s1))
      | DatabaseWorker m \<Rightarrow>
          bind_res (handle_database_worker_message env m s) (\<lambda>s1. Inr (True, s1))
      | Shutdown \<Rightarrow> Inr (False, record_call CancelRoot s))"

text \<open>
  The inbox is the list of messages in arrival order, each with the answers of the surroundings
  while it is handled; the end of the list is the closed inbox.
\<close>

fun process_messages ::
  "('c env \<times> 'c EngineMessage) list \<Rightarrow> 'c WorkerEngine \<Rightarrow> panic + 'c WorkerEngine" where
  "process_messages [] s = Inr s"
| "process_messages ((env, msg) # rest) s =
     bind_res (handle_message env msg s) (\<lambda>(continue, s1).
       if continue then process_messages rest s1 else Inr s1)"

definition run_engine ::
  "('c env \<times> 'c EngineMessage) list \<Rightarrow> 'c WorkerEngine \<Rightarrow> panic + 'c WorkerEngine" where
  "run_engine inbox s = bind_res (process_messages inbox s) (\<lambda>s1. Inr (record_call CancelRoot s1))"

end
