(* ===== verification/Database_Name.thy ===== *)
theory Database_Name
  imports Prelude
begin

text \<open>
  Names of the databases the program creates
  (crates/pgtest-database-operations/src/manager/database_name.rs): a prefix of the template's
  name cut at a character boundary, followed by random letters, and the quoting of identifiers in
  SQL text. The random generator of the crate rand is a parameter: a draw is a function from the
  position to the index it yields.
\<close>

section \<open>Definitions\<close>

definition CHARSET :: string where
  "CHARSET = ''ABCDEFGHIJKLMNOPQRSTUVWXYZabcdefghijklmnopqrstuvwxyz''"

definition GENERATED_ID_LEN :: nat where
  "GENERATED_ID_LEN = 32"

record PostgresDatabaseName =
  name :: string
  prefix_template :: string

definition generate_parallel_test_id :: "(nat \<Rightarrow> nat) \<Rightarrow> string" where
  "generate_parallel_test_id draw = map (\<lambda>i. CHARSET ! draw i) [0..<4]"

definition generate_id :: "(nat \<Rightarrow> nat) \<Rightarrow> string" where
  "generate_id draw = map (\<lambda>i. CHARSET ! draw i) [0..<GENERATED_ID_LEN]"

text \<open>A byte \<open>10xxxxxx\<close> continues a character; \<open>is_char_boundary\<close> looks at one byte.\<close>

definition continuation :: "char \<Rightarrow> bool" where
  "continuation c \<longleftrightarrow> 128 \<le> (of_char c :: nat) \<and> (of_char c :: nat) < 192"

definition is_char_boundary :: "string \<Rightarrow> nat \<Rightarrow> bool" where
  "is_char_boundary s i \<longleftrightarrow> i = 0 \<or> i = length s \<or> (i < length s \<and> \<not> continuation (s ! i))"

definition MAX_PREFIX_LEN :: nat where
  "MAX_PREFIX_LEN = 63 - GENERATED_ID_LEN - 1 - 4 - 1"

text \<open>The loop that moves the cut back; it stops at zero, which is a boundary.\<close>

function back_to_boundary :: "string \<Rightarrow> nat \<Rightarrow> nat" where
  "back_to_boundary s pos = (if is_char_boundary s pos then pos else back_to_boundary s (pos - 1))"
  by pat_completeness auto
termination
  by (relation "measure snd") (auto simp: is_char_boundary_def)

declare back_to_boundary.simps [simp del]

definition truncate_name :: "(nat \<Rightarrow> nat) \<Rightarrow> string \<Rightarrow> string" where
  "truncate_name draw database_name =
     (if length database_name \<le> MAX_PREFIX_LEN then database_name
      else take (back_to_boundary database_name MAX_PREFIX_LEN) database_name
             @ ''_'' @ generate_parallel_test_id draw)"

definition PostgresDatabaseName_new :: "(nat \<Rightarrow> nat) \<Rightarrow> string \<Rightarrow> PostgresDatabaseName" where
  "PostgresDatabaseName_new draw database_name =
     \<lparr>name = database_name, prefix_template = truncate_name draw database_name\<rparr>"

definition generate_database_name :: "(nat \<Rightarrow> nat) \<Rightarrow> PostgresDatabaseName \<Rightarrow> string" where
  "generate_database_name draw n = prefix_template n @ ''_'' @ generate_id draw"

definition DQUOTE :: char where
  "DQUOTE = CHR 0x22"

definition quote_ident :: "string \<Rightarrow> string" where
  "quote_ident ident =
     [DQUOTE] @ concat (map (\<lambda>c. if c = DQUOTE then [DQUOTE, DQUOTE] else [c]) ident) @ [DQUOTE]"

section \<open>Lengths\<close>

text \<open>What the crate rand promises of \<open>random_range(0..CHARSET.len())\<close>.\<close>

definition draws_in_range :: "(nat \<Rightarrow> nat) \<Rightarrow> bool" where
  "draws_in_range draw \<longleftrightarrow> (\<forall>i. draw i < length CHARSET)"

lemma back_to_boundary_le: "back_to_boundary s pos \<le> pos"
proof (induction s pos rule: back_to_boundary.induct)
  case (1 s pos)
  show ?case
  proof (cases "is_char_boundary s pos")
    case True
    then show ?thesis by (simp add: back_to_boundary.simps [of s pos])
  next
    case False
    with 1 have "back_to_boundary s (pos - 1) \<le> pos" by fastforce
    with False show ?thesis by (simp add: back_to_boundary.simps [of s pos])
  qed
qed

lemma back_to_boundary_boundary: "is_char_boundary s (back_to_boundary s pos)"
proof (induction s pos rule: back_to_boundary.induct)
  case (1 s pos)
  then show ?case by (cases "is_char_boundary s pos") (simp_all add: back_to_boundary.simps [of s pos])
qed

lemma back_to_boundary_skips:
  "back_to_boundary s pos < i \<Longrightarrow> i \<le> pos \<Longrightarrow> \<not> is_char_boundary s i"
proof (induction s pos rule: back_to_boundary.induct)
  case (1 s pos)
  show ?case
  proof (cases "is_char_boundary s pos")
    case True
    with "1.prems" show ?thesis by (simp add: back_to_boundary.simps [of s pos])
  next
    case False
    with "1.prems" "1.IH" show ?thesis
      by (cases "i = pos") (simp_all add: back_to_boundary.simps [of s pos])
  qed
qed

lemma length_truncate_name: "length (truncate_name draw s) \<le> 30"
  using back_to_boundary_le [of s MAX_PREFIX_LEN]
  by (auto simp: truncate_name_def generate_parallel_test_id_def MAX_PREFIX_LEN_def GENERATED_ID_LEN_def)

text \<open>
  C23: every generated database name fits the 63 bytes of a PostgreSQL identifier, whatever the name
  of the template, and a template name of at most 25 bytes is its unchanged prefix.
\<close>

theorem generated_name_fits:
  "length (generate_database_name draw' (PostgresDatabaseName_new draw template)) \<le> 63 \<and>
   (length template > 25 \<or>
    generate_database_name draw' (PostgresDatabaseName_new draw template)
      = template @ ''_'' @ generate_id draw')"
  using length_truncate_name [of draw template]
  by (auto simp: generate_database_name_def PostgresDatabaseName_new_def generate_id_def
      GENERATED_ID_LEN_def truncate_name_def MAX_PREFIX_LEN_def)

lemma generate_id_letters:
  "draws_in_range draw \<Longrightarrow> set (generate_id draw) \<subseteq> set CHARSET \<and> length (generate_id draw) = 32"
  by (auto simp: generate_id_def draws_in_range_def GENERATED_ID_LEN_def intro!: nth_mem)

section \<open>Cutting a UTF-8 string\<close>

text \<open>
  The shape of UTF-8 text: a leading byte says how many continuation bytes follow it. Every string
  of the source language has this shape.
\<close>

fun continuations :: "char \<Rightarrow> nat" where
  "continuations c =
     (let b = (of_char c :: nat) in if b < 192 then 0 else if b < 224 then 1 else if b < 240 then 2 else 3)"

fun utf8_from :: "nat \<Rightarrow> string \<Rightarrow> bool" where
  "utf8_from n [] = (n = 0)"
| "utf8_from 0 (c # s) = (\<not> continuation c \<and> utf8_from (continuations c) s)"
| "utf8_from (Suc n) (c # s) = (continuation c \<and> utf8_from n s)"

abbreviation utf8 :: "string \<Rightarrow> bool" where
  "utf8 s \<equiv> utf8_from 0 s"

lemma utf8_from_take:
  "utf8_from n s \<Longrightarrow> i < length s \<Longrightarrow> \<not> continuation (s ! i) \<Longrightarrow> utf8_from n (take i s)"
proof (induction n s arbitrary: i rule: utf8_from.induct)
  case (2 c s)
  then show ?case by (cases i) auto
next
  case (3 n c s)
  then show ?case by (cases i) auto
qed simp

lemma utf8_take_boundary: "utf8 s \<Longrightarrow> is_char_boundary s i \<Longrightarrow> utf8 (take i s)"
  by (auto simp: is_char_boundary_def utf8_from_take)

lemma utf8_from_append:
  "utf8_from n s \<Longrightarrow> utf8 t \<Longrightarrow> utf8_from n (s @ t)"
  by (induction n s rule: utf8_from.induct) auto

lemma utf8_ascii: "\<forall>c \<in> set s. (of_char c :: nat) < 128 \<Longrightarrow> utf8 s"
  by (induction s) (auto simp: continuation_def)

lemma charset_ascii: "\<forall>c \<in> set CHARSET. (of_char c :: nat) < 128"
  by (simp add: CHARSET_def)

lemma utf8_draws: "draws_in_range draw \<Longrightarrow> utf8 (map (\<lambda>i. CHARSET ! draw i) is)"
  using charset_ascii by (intro utf8_ascii) (auto simp: draws_in_range_def)

text \<open>A run of continuation bytes in UTF-8 text has at most three of them.\<close>

lemma continuations_le: "continuations c \<le> 3"
  by (simp add: Let_def)

lemma utf8_prefix_run:
  "utf8_from n s \<Longrightarrow> k \<le> length s \<Longrightarrow> (\<forall>j < k. continuation (s ! j)) \<Longrightarrow> k \<le> n"
proof (induction n s arbitrary: k rule: utf8_from.induct)
  case (2 c s)
  then show ?case by (cases k) auto
next
  case (3 n c s)
  show ?case
  proof (cases k)
    case (Suc m)
    then have "\<forall>j < m. continuation (s ! j)" using 3(4) by auto
    with 3(1) [of m] 3(2,3) Suc show ?thesis by simp
  qed simp
qed simp

lemma utf8_run:
  "utf8_from n s \<Longrightarrow> n \<le> 3 \<Longrightarrow> i + k \<le> length s \<Longrightarrow> (\<forall>j < k. continuation (s ! (i + j))) \<Longrightarrow> k \<le> 3"
proof (induction n s arbitrary: i rule: utf8_from.induct)
  case (1 n)
  then show ?case by simp
next
  case (2 c s)
  show ?case
  proof (cases i)
    case 0
    with 2 show ?thesis by (cases k) auto
  next
    case (Suc i')
    with 2(1) [of i'] 2(2-5) continuations_le [of c] show ?thesis by simp
  qed
next
  case (3 n c s)
  show ?case
  proof (cases i)
    case 0
    with utf8_prefix_run [OF 3(2), of k] 3(3-5) show ?thesis by simp
  next
    case (Suc i')
    with 3(1) [of i'] 3(2-5) show ?thesis by simp
  qed
qed

text \<open>
  C24: for a UTF-8 template name longer than 25 bytes the loop that looks for the cut gives up at most
  three bytes, the slice ends at a character boundary, so that taking it cannot panic, and the
  generated name is UTF-8 text again.
\<close>

theorem long_name_cut_at_boundary:
  assumes "utf8 template" "25 < length template" "draws_in_range draw" "draws_in_range draw'"
  shows "22 \<le> back_to_boundary template MAX_PREFIX_LEN \<and>
         back_to_boundary template MAX_PREFIX_LEN \<le> 25 \<and>
         is_char_boundary template (back_to_boundary template MAX_PREFIX_LEN) \<and>
         utf8 (generate_database_name draw' (PostgresDatabaseName_new draw template))"
proof -
  let ?cut = "back_to_boundary template MAX_PREFIX_LEN"
  have max: "MAX_PREFIX_LEN = 25" by (simp add: MAX_PREFIX_LEN_def GENERATED_ID_LEN_def)
  have le: "?cut \<le> 25" using back_to_boundary_le [of template MAX_PREFIX_LEN] max by simp
  have bnd: "is_char_boundary template ?cut" by (rule back_to_boundary_boundary)
  have "continuation (template ! (Suc ?cut + j))" if "j < 25 - ?cut" for j
    using back_to_boundary_skips [of template MAX_PREFIX_LEN "Suc ?cut + j"] that assms(2) max
    by (auto simp: is_char_boundary_def)
  then have "25 - ?cut \<le> 3"
    using utf8_run [OF assms(1), of "Suc ?cut" "25 - ?cut"] assms(2) le by simp
  then have ge: "22 \<le> ?cut" by simp
  have "utf8 (take ?cut template)" using utf8_take_boundary [OF assms(1) bnd] .
  then have "utf8 (take ?cut template @ ''_'' @ generate_parallel_test_id draw)"
    using utf8_draws [OF assms(3), of "[0..<4]"]
    by (intro utf8_from_append) (simp_all add: generate_parallel_test_id_def continuation_def)
  moreover have "utf8 (''_'' @ generate_id draw')"
    using utf8_draws [OF assms(4), of "[0..<GENERATED_ID_LEN]"]
    by (simp add: generate_id_def continuation_def)
  ultimately have "utf8 ((take ?cut template @ ''_'' @ generate_parallel_test_id draw) @ ''_'' @ generate_id draw')"
    by (rule utf8_from_append)
  then have "utf8 (generate_database_name draw' (PostgresDatabaseName_new draw template))"
    using assms(2) max
    by (simp add: generate_database_name_def PostgresDatabaseName_new_def truncate_name_def)
  with ge le bnd show ?thesis by blast
qed

theorem long_name_cut_at_boundary_witness:
  "22 \<le> back_to_boundary (replicate 24 CHR ''a'' @ [CHR 0xC3, CHR 0xA9]) MAX_PREFIX_LEN"
  by (rule conjunct1 [OF long_name_cut_at_boundary [of _ "\<lambda>_. 0" "\<lambda>_. 0"]])
    (simp_all add: continuation_def draws_in_range_def CHARSET_def numeral_eq_Suc)

section \<open>Quoting\<close>

text \<open>
  How PostgreSQL reads a quoted identifier (section "Identifiers and Key Words" of its manual): up to
  the next double quote that is not doubled, a doubled one standing for the character itself.
\<close>

fun read_quoted_body :: "string \<Rightarrow> (string \<times> string) option" where
  "read_quoted_body [] = None"
| "read_quoted_body [c] = (if c = DQUOTE then Some ([], []) else None)"
| "read_quoted_body (c # d # s) =
     (if c = DQUOTE
      then if d = DQUOTE then map_option (\<lambda>(i, r). (DQUOTE # i, r)) (read_quoted_body s)
           else Some ([], d # s)
      else map_option (\<lambda>(i, r). (c # i, r)) (read_quoted_body (d # s)))"

definition read_quoted :: "string \<Rightarrow> (string \<times> string) option" where
  "read_quoted s = (case s of [] \<Rightarrow> None | c # t \<Rightarrow> if c = DQUOTE then read_quoted_body t else None)"

abbreviation doubled :: "string \<Rightarrow> string" where
  "doubled s \<equiv> concat (map (\<lambda>c. if c = DQUOTE then [DQUOTE, DQUOTE] else [c]) s)"

lemma read_quoted_body_doubled:
  assumes "rest = [] \<or> hd rest \<noteq> DQUOTE"
  shows "read_quoted_body (doubled ident @ DQUOTE # rest) = Some (ident, rest)"
proof (induction ident)
  case Nil
  with assms show ?case by (cases rest) auto
next
  case (Cons c ident)
  show ?case
  proof (cases "c = DQUOTE")
    case True
    with Cons show ?thesis by simp
  next
    case False
    obtain d s where ds: "doubled ident @ DQUOTE # rest = d # s"
      by (cases "doubled ident @ DQUOTE # rest") auto
    have "read_quoted_body (c # d # s) = map_option (\<lambda>(i, r). (c # i, r)) (read_quoted_body (d # s))"
      using False by simp
    with Cons ds False show ?thesis by simp
  qed
qed

lemma read_quote_ident:
  "rest = [] \<or> hd rest \<noteq> DQUOTE \<Longrightarrow> read_quoted (quote_ident ident @ rest) = Some (ident, rest)"
  using read_quoted_body_doubled [of rest ident] by (simp add: read_quoted_def quote_ident_def)

end
