(* ===== verification/Postgres_Manager.thy ===== *)
theory Postgres_Manager
  imports Lease_Id Database_Name "HOL-Library.Multiset" "HOL-Library.Signed_Division"
begin

text \<open>
  The PostgreSQL client (crates/pgtest-database-operations/src/manager.rs, manager/creation.rs,
  manager/config.rs, manager/errors.rs and crates/pgtest-core/src/postgres_manager.rs): start-up
  checks, the SQL statements, batches of creations and drops with bounded concurrency. The server
  and the crates that talk to it (deadpool, tokio-postgres, futures) are parameters: the answers of
  the server are functions of the request, \<open>'e\<close> is their error type, and the order in which
  concurrent requests complete is chosen by a scheduler.
\<close>

section \<open>Configuration and errors\<close>

record PostgresConfig =
  pgtest_pg_host :: string
  pgtest_pg_port :: u16
  pgtest_pg_user :: string
  pgtest_pg_database :: string
  pgtest_pg_creation_pool_connection :: u32
  pgtest_pg_cleanup_pool_connection :: u32

datatype PostgresClientError =
    InvalidPoolSize string
  | UnableToConnectToPostgres string
  | UnableToFetchPostgresVersion
  | UnableToFetchDatabaseList
  | DatabaseDoesNotExist string
  | UnsupportedVersion u8
  | UnexpectedServerVersionFormatFetched int

datatype 'e PostgresOperationsError =
    UnableToCreateDatabase string 'e
  | UnableToDropDatabase string 'e
  | UnableToListDatabases 'e

record PostgresManager =
  version :: u8
  host :: string
  port :: u16
  template_database_name :: PostgresDatabaseName
  creation_concurrency :: nat

definition MIN_SERVER_VERSION_NUM :: u8 where
  "MIN_SERVER_VERSION_NUM = 13"

definition CLEANUP_PIPELINE_DEPTH :: nat where
  "CLEANUP_PIPELINE_DEPTH = 32"

section \<open>Start-up\<close>

text \<open>
  What the surroundings answer during start-up: whether a pool can be configured and hands out its
  first connection, whether the two checks get a connection, the rows of the query for databases
  whose name is \<open>LIKE\<close> an argument, and the version row (\<^const>\<open>None\<close> for a failed query or a
  value that cannot be read). A 64-bit version number is an \<^typ>\<open>int\<close>: it is only divided by a
  constant.
\<close>

record server =
  pool_configured :: "string \<Rightarrow> bool"
  pool_connects :: "string \<Rightarrow> bool"
  exists_connects :: bool
  version_connects :: bool
  like_rows :: "string \<Rightarrow> string list option"
  version_num :: "int option"

text \<open>The options of a connection, and of a pool: its size and its time limits in seconds.\<close>

record connect_options =
  connect_host :: string
  connect_port :: u16
  connect_user :: string
  connect_password :: string
  connect_dbname :: string

definition CONNECTION_TIMEOUT :: nat where
  "CONNECTION_TIMEOUT = 30"

record pool_options =
  pool_connection :: connect_options
  max_size :: nat
  wait_timeout :: "nat option"
  create_timeout :: "nat option"
  recycle_timeout :: "nat option"

definition Config_from :: "PostgresConfig \<Rightarrow> connect_options" where
  "Config_from config =
     \<lparr>connect_host = pgtest_pg_host config, connect_port = pgtest_pg_port config, connect_user = pgtest_pg_user config,
      connect_password = ''postgres'', connect_dbname = ''postgres''\<rparr>"

definition pool_options_for :: "PostgresConfig \<Rightarrow> u32 \<Rightarrow> pool_options" where
  "pool_options_for config max_connections =
     \<lparr>pool_connection = Config_from config, max_size = unat max_connections,
      wait_timeout = Some CONNECTION_TIMEOUT, create_timeout = Some CONNECTION_TIMEOUT,
      recycle_timeout = Some CONNECTION_TIMEOUT\<rparr>"

datatype pool_event = PoolOpened string pool_options | PoolClosed string

definition connection_url :: "PostgresConfig \<Rightarrow> string" where
  "connection_url config =
     ''postgres://'' @ pgtest_pg_user config @ ''@'' @ pgtest_pg_host config @ '':''
       @ show_nat (unat (pgtest_pg_port config)) @ ''/postgres''"

definition connect_pool ::
  "server \<Rightarrow> PostgresConfig \<Rightarrow> u32 \<Rightarrow> string \<Rightarrow> (PostgresClientError + string) \<times> pool_event list" where
  "connect_pool sv config max_connections purpose =
     (if \<not> pool_configured sv purpose
      then (Inl (UnableToConnectToPostgres (connection_url config)), [])
      else if \<not> pool_connects sv purpose
      then (Inl (UnableToConnectToPostgres (connection_url config)),
            [PoolOpened purpose (pool_options_for config max_connections), PoolClosed purpose])
      else (Inr purpose, [PoolOpened purpose (pool_options_for config max_connections)]))"

definition database_exists :: "server \<Rightarrow> string \<Rightarrow> PostgresClientError + unit" where
  "database_exists sv database_name =
     (if \<not> exists_connects sv then Inl UnableToFetchDatabaseList
      else case like_rows sv database_name of
             None \<Rightarrow> Inl UnableToFetchDatabaseList
           | Some rows \<Rightarrow> if rows = [] then Inl (DatabaseDoesNotExist database_name) else Inr ())"

definition is_valid_version :: "server \<Rightarrow> PostgresClientError + u8" where
  "is_valid_version sv =
     (if \<not> version_connects sv then Inl UnableToFetchPostgresVersion
      else case version_num sv of
             None \<Rightarrow> Inl UnableToFetchPostgresVersion
           | Some number \<Rightarrow>
               let major = number sdiv 10000 in
               if \<not> (0 \<le> major \<and> major \<le> 255)
               then Inl (UnexpectedServerVersionFormatFetched number)
               else let version = (of_int major :: u8) in
                    if version < MIN_SERVER_VERSION_NUM then Inl (UnsupportedVersion version)
                    else Inr version)"

definition start_manager ::
  "server \<Rightarrow> (nat \<Rightarrow> nat) \<Rightarrow> PostgresConfig
     \<Rightarrow> (PostgresClientError + PostgresManager) \<times> pool_event list" where
  "start_manager sv draw config =
     (if pgtest_pg_creation_pool_connection config = 0
      then (Inl (InvalidPoolSize ''PGTEST_CREATION_POOL_CONNECTION''), [])
      else if pgtest_pg_cleanup_pool_connection config = 0
      then (Inl (InvalidPoolSize ''PGTEST_CLEANUP_POOL_CONNECTION''), [])
      else
        case connect_pool sv config (pgtest_pg_creation_pool_connection config) ''creation'' of
          (Inl e, ev) \<Rightarrow> (Inl e, ev)
        | (Inr create_pool, ev) \<Rightarrow>
            (case bind_res (database_exists sv (pgtest_pg_database config))
                    (\<lambda>_. is_valid_version sv) of
               Inl e \<Rightarrow> (Inl e, ev @ [PoolClosed create_pool])
             | Inr v \<Rightarrow>
                 (case connect_pool sv config (pgtest_pg_cleanup_pool_connection config) ''cleanup'' of
                    (Inl e, ev') \<Rightarrow> (Inl e, ev @ ev' @ [PoolClosed create_pool])
                  | (Inr cleanup_pool, ev') \<Rightarrow>
                      (Inr \<lparr>version = v, host = pgtest_pg_host config, port = pgtest_pg_port config,
                            template_database_name =
                              PostgresDatabaseName_new draw (pgtest_pg_database config),
                            creation_concurrency = unat (pgtest_pg_creation_pool_connection config)\<rparr>,
                       ev @ ev'))))"

section \<open>Statements\<close>

definition drop_query :: "string \<Rightarrow> string" where
  "drop_query database_name = ''DROP DATABASE IF EXISTS '' @ quote_ident database_name @ '' WITH (FORCE)''"

definition create_query :: "PostgresManager \<Rightarrow> string \<Rightarrow> string" where
  "create_query m database_name =
     ''CREATE DATABASE '' @ quote_ident database_name @ '' TEMPLATE ''
       @ quote_ident (name (template_database_name m))
       @ (if version m \<ge> 15 then '' STRATEGY=FILE_COPY'' else [])"

text \<open>\<open>execute\<close> is the answer of the server to a statement.\<close>

definition drop_on_connection ::
  "(string \<Rightarrow> 'e + unit) \<Rightarrow> string \<Rightarrow> 'e PostgresOperationsError + unit" where
  "drop_on_connection execute database_name =
     (case execute (drop_query database_name) of
        Inl e \<Rightarrow> Inl (UnableToDropDatabase database_name e)
      | Inr u \<Rightarrow> Inr ())"

definition drop_ddl_database ::
  "('e + unit) \<Rightarrow> (string \<Rightarrow> 'e + unit) \<Rightarrow> string \<Rightarrow> 'e PostgresOperationsError + unit" where
  "drop_ddl_database acquired execute database_name =
     (case acquired of
        Inl e \<Rightarrow> Inl (UnableToDropDatabase database_name e)
      | Inr u \<Rightarrow> drop_on_connection execute database_name)"

definition create_on_connection ::
  "PostgresManager \<Rightarrow> (string \<Rightarrow> 'e + unit) \<Rightarrow> string \<Rightarrow> 'e PostgresOperationsError + ReadString" where
  "create_on_connection m execute database_name =
     (case execute (create_query m database_name) of
        Inl e \<Rightarrow> Inl (UnableToCreateDatabase database_name e)
      | Inr u \<Rightarrow> Inr database_name)"

definition create_ddl_database ::
  "PostgresManager \<Rightarrow> (nat \<Rightarrow> nat) \<Rightarrow> ('e + unit) \<Rightarrow> (string \<Rightarrow> 'e + unit)
     \<Rightarrow> 'e PostgresOperationsError + ReadString" where
  "create_ddl_database m draw acquired execute =
     (let database_name = generate_database_name draw (template_database_name m) in
      case acquired of
        Inl e \<Rightarrow> Inl (UnableToCreateDatabase database_name e)
      | Inr u \<Rightarrow> create_on_connection m execute database_name)"

section \<open>Windows of concurrent requests\<close>

text \<open>
  Requests in flight complete in an order chosen by the scheduler: \<open>pick k xs\<close> is the position in
  \<open>xs\<close> of the request that completes next when \<open>k\<close> requests have completed. A completed request
  makes room for the next one. This is the loop of \<open>drop_ddl_databases\<close>, and what
  \<open>buffer_unordered\<close> of the crate futures does.
\<close>

definition remove_at :: "nat \<Rightarrow> 'a list \<Rightarrow> 'a list" where
  "remove_at i xs = take i xs @ drop (Suc i) xs"

lemma length_remove_at: "i < length xs \<Longrightarrow> Suc (length (remove_at i xs)) = length xs"
  by (simp add: remove_at_def)

lemma mset_remove_at: "i < length xs \<Longrightarrow> add_mset (xs ! i) (mset (remove_at i xs)) = mset xs"
  by (metis remove_at_def add_mset_add_single id_take_nth_drop mset.simps(2) mset_append
      union_mset_add_mset_left union_mset_add_mset_right)

lemma length_remove_scheduled: "xs \<noteq> [] \<Longrightarrow> length (remove_at (n mod length xs) xs) < length xs"
  using length_remove_at [of "n mod length xs" xs] by simp

function window_run :: "(nat \<Rightarrow> 'a list \<Rightarrow> nat) \<Rightarrow> nat \<Rightarrow> 'a list \<Rightarrow> 'a list \<Rightarrow> 'a list" where
  "window_run pick k in_flight waiting =
     (if in_flight = [] then []
      else let i = pick k in_flight mod length in_flight in
           in_flight ! i #
             (case waiting of
                [] \<Rightarrow> window_run pick (Suc k) (remove_at i in_flight) []
              | w # rest \<Rightarrow> window_run pick (Suc k) (remove_at i in_flight @ [w]) rest))"
  by pat_completeness auto
termination
  by (relation "measure (\<lambda>(pick, k, xs, ys). length xs + length ys)")
    (auto simp: length_remove_scheduled)

declare window_run.simps [simp del]

datatype run_panic = CreationConcurrencyZero

definition run_bounded ::
  "(nat \<Rightarrow> nat list \<Rightarrow> nat) \<Rightarrow> nat \<Rightarrow> nat \<Rightarrow> (nat \<Rightarrow> 'r) \<Rightarrow> run_panic + (nat \<times> 'r) list" where
  "run_bounded pick amount limit create =
     (if limit = 0 then Inl CreationConcurrencyZero
      else let window = max (min limit amount) 1 in
           Inr (map (\<lambda>i. (i, create i))
                  (window_run pick 0 (take window [0..<amount]) (drop window [0..<amount]))))"

definition create_ddl_databases ::
  "(nat \<Rightarrow> nat list \<Rightarrow> nat) \<Rightarrow> PostgresManager \<Rightarrow> (nat \<Rightarrow> nat \<Rightarrow> nat) \<Rightarrow> (nat \<Rightarrow> 'e + unit)
     \<Rightarrow> (string \<Rightarrow> 'e + unit) \<Rightarrow> nat
     \<Rightarrow> run_panic + (nat \<times> ('e PostgresOperationsError + ReadString)) list" where
  "create_ddl_databases pick m draw acquired execute amount =
     (if amount = 0 then Inr []
      else run_bounded pick amount (creation_concurrency m)
             (\<lambda>i. create_ddl_database m (draw i) (acquired i) execute))"

definition drop_ddl_databases ::
  "(nat \<Rightarrow> nat list \<Rightarrow> nat) \<Rightarrow> ('e + unit) \<Rightarrow> (string \<Rightarrow> 'e + unit) \<Rightarrow> string list
     \<Rightarrow> ('e PostgresOperationsError + unit) \<times> (nat \<times> ('e PostgresOperationsError + unit)) list" where
  "drop_ddl_databases pick acquired execute names =
     (if names = [] then (Inr (), [])
      else case acquired of
             Inl e \<Rightarrow> (Inl (UnableToDropDatabase ''cleanup batch'' e), [])
           | Inr u \<Rightarrow>
               (Inr (),
                map (\<lambda>i. (i, drop_on_connection execute (names ! i)))
                  (window_run pick 0 (take CLEANUP_PIPELINE_DEPTH [0..<length names])
                     (drop CLEANUP_PIPELINE_DEPTH [0..<length names]))))"

section \<open>Removing what an earlier run left\<close>

function chunks :: "nat \<Rightarrow> 'a list \<Rightarrow> 'a list list" where
  "chunks n xs = (if xs = [] \<or> n = 0 then [] else take n xs # chunks n (drop n xs))"
  by pat_completeness auto
termination
  by (relation "measure (length \<circ> snd)") auto

declare chunks.simps [simp del]

text \<open>All drops of a batch run to their end before the first failure of the batch is returned.\<close>

fun drop_batches ::
  "(string \<Rightarrow> 'e + unit) \<Rightarrow> string list list \<Rightarrow> ('e PostgresOperationsError + unit) \<times> string list" where
  "drop_batches execute [] = (Inr (), [])"
| "drop_batches execute (batch # rest) =
     (case map_res (drop_on_connection execute) batch of
        Inl e \<Rightarrow> (Inl e, batch)
      | Inr u \<Rightarrow> (let (r, dropped) = drop_batches execute rest in (r, batch @ dropped)))"

definition drop_ddl_templates_like ::
  "PostgresManager \<Rightarrow> ('e + unit) \<Rightarrow> (string \<Rightarrow> 'e + ('e + string) list) \<Rightarrow> (string \<Rightarrow> 'e + unit)
     \<Rightarrow> ('e PostgresOperationsError + unit) \<times> string list" where
  "drop_ddl_templates_like m acquired list_databases execute =
     (case acquired of
        Inl e \<Rightarrow> (Inl (UnableToListDatabases e), [])
      | Inr u \<Rightarrow>
          (case list_databases (name (template_database_name m) @ ''_%'') of
             Inl e \<Rightarrow> (Inl (UnableToListDatabases e), [])
           | Inr rows \<Rightarrow>
               (case map_res (\<lambda>r. r) rows of
                  Inl e \<Rightarrow> (Inl (UnableToListDatabases e), [])
                | Inr names \<Rightarrow> drop_batches execute (chunks CLEANUP_PIPELINE_DEPTH names))))"

section \<open>The client of the engine\<close>

text \<open>
  \<open>From<PostgresOperationsError>\<close>: the error becomes its message; \<open>show_error\<close> displays the error
  of the pool.
\<close>

definition operations_error_message :: "('e \<Rightarrow> string) \<Rightarrow> 'e PostgresOperationsError \<Rightarrow> string" where
  "operations_error_message show_error e =
     (case e of
        UnableToCreateDatabase n s \<Rightarrow> ''unable to create database '' @ n @ '': '' @ show_error s
      | UnableToDropDatabase n s \<Rightarrow> ''unable to drop database '' @ n @ '': '' @ show_error s
      | UnableToListDatabases s \<Rightarrow> ''unable to list databases: '' @ show_error s)"

definition ddl_error :: "('e \<Rightarrow> string) \<Rightarrow> 'e PostgresOperationsError \<Rightarrow> PostgresDDLClientError" where
  "ddl_error show_error e = OperationFailed (operations_error_message show_error e)"

definition create_databases ::
  "(nat \<Rightarrow> nat list \<Rightarrow> nat) \<Rightarrow> ('e \<Rightarrow> string) \<Rightarrow> PostgresManager \<Rightarrow> (nat \<Rightarrow> nat \<Rightarrow> nat)
     \<Rightarrow> (nat \<Rightarrow> 'e + unit) \<Rightarrow> (string \<Rightarrow> 'e + unit) \<Rightarrow> nat
     \<Rightarrow> run_panic + (nat \<times> (PostgresDDLClientError + ReadString)) list" where
  "create_databases pick show_error m draw acquired execute amount =
     bind_res (create_ddl_databases pick m draw acquired execute amount)
       (\<lambda>rs. Inr (map (\<lambda>(i, r). (i, map_sum (ddl_error show_error) id r)) rs))"

definition drop_databases ::
  "(nat \<Rightarrow> nat list \<Rightarrow> nat) \<Rightarrow> ('e \<Rightarrow> string) \<Rightarrow> ('e + unit) \<Rightarrow> (string \<Rightarrow> 'e + unit) \<Rightarrow> ReadString list
     \<Rightarrow> (nat \<times> (PostgresDDLClientError + unit)) list" where
  "drop_databases pick show_error acquired execute names =
     (let (result, reports) = drop_ddl_databases pick acquired execute names;
          reported = map (\<lambda>(i, r). (i, map_sum (ddl_error show_error) id r)) reports
      in case result of
           Inr u \<Rightarrow> reported
         | Inl e \<Rightarrow>
             reported @ map (\<lambda>i. (i, Inl (OperationFailed (''unable to drop database '' @ names ! i @ '': ''
                                       @ operations_error_message show_error e)))) [0..<length names])"

definition drop_database ::
  "('e \<Rightarrow> string) \<Rightarrow> ('e + unit) \<Rightarrow> (string \<Rightarrow> 'e + unit) \<Rightarrow> string \<Rightarrow> PostgresDDLClientError + unit" where
  "drop_database show_error acquired execute database_name =
     map_sum (ddl_error show_error) id (drop_ddl_database acquired execute database_name)"

definition create_database ::
  "('e \<Rightarrow> string) \<Rightarrow> PostgresManager \<Rightarrow> (nat \<Rightarrow> nat) \<Rightarrow> ('e + unit) \<Rightarrow> (string \<Rightarrow> 'e + unit)
     \<Rightarrow> PostgresDDLClientError + ReadString" where
  "create_database show_error m draw acquired execute =
     map_sum (ddl_error show_error) id (create_ddl_database m draw acquired execute)"

section \<open>Every request completes once\<close>

lemma mset_window_run:
  "in_flight \<noteq> [] \<or> waiting = [] \<Longrightarrow> mset (window_run pick k in_flight waiting) = mset (in_flight @ waiting)"
proof (induction pick k in_flight waiting rule: window_run.induct)
  case (1 pick k in_flight waiting)
  show ?case
  proof (cases "in_flight = []")
    case True
    with "1.prems" show ?thesis by (simp add: window_run.simps)
  next
    case False
    define i where "i = pick k in_flight mod length in_flight"
    have i: "i < length in_flight" using False by (simp add: i_def)
    show ?thesis
    proof (cases waiting)
      case Nil
      have "mset (window_run pick (Suc k) (remove_at i in_flight) []) = mset (remove_at i in_flight)"
        using "1.IH"(1) [OF False i_def Nil] by simp
      then show ?thesis
        using False mset_remove_at [OF i] Nil
        by (subst window_run.simps) (simp add: i_def [symmetric] Let_def)
    next
      case (Cons w rest)
      have "mset (window_run pick (Suc k) (remove_at i in_flight @ [w]) rest)
          = mset ((remove_at i in_flight @ [w]) @ rest)"
        using "1.IH"(2) [OF False i_def Cons] by simp
      then show ?thesis
        using False mset_remove_at [OF i] Cons
        by (subst window_run.simps) (simp add: i_def [symmetric] Let_def)
    qed
  qed
qed

lemma window_run_upt:
  assumes "0 < w"
  shows "distinct (window_run pick 0 (take w [0..<n]) (drop w [0..<n]))"
    and "set (window_run pick 0 (take w [0..<n]) (drop w [0..<n])) = {..<n}"
proof -
  have "take w [0..<n] \<noteq> [] \<or> drop w [0..<n] = []" using assms by (cases n) auto
  from mset_window_run [OF this, of pick 0]
  have m: "mset (window_run pick 0 (take w [0..<n]) (drop w [0..<n])) = mset [0..<n]"
    by (simp only: append_take_drop_id)
  then show "distinct (window_run pick 0 (take w [0..<n]) (drop w [0..<n]))"
    by (metis distinct_upt mset_eq_imp_distinct_iff)
  from m show "set (window_run pick 0 (take w [0..<n]) (drop w [0..<n])) = {..<n}"
    by (metis atLeast_upt mset_eq_setD)
qed

lemma reports_once_map:
  "distinct xs \<Longrightarrow> set xs = {..<n} \<Longrightarrow> reports_once n (map (\<lambda>i. (i, f i)) xs)"
  by (simp add: reports_once_def comp_def image_image)

lemma reports_once_map_snd:
  "reports_once n rs \<Longrightarrow> reports_once n (map (\<lambda>(i, r). (i, f r)) rs)"
  by (simp add: reports_once_def comp_def case_prod_beta' image_image)

lemma run_bounded_reports:
  assumes "0 < limit"
  shows "\<exists>rs. run_bounded pick amount limit create = Inr rs \<and> reports_once amount rs \<and>
           (\<forall>(i, r) \<in> set rs. r = create i)"
proof -
  let ?w = "max (min limit amount) 1"
  have w: "0 < ?w" by simp
  show ?thesis
    using assms reports_once_map [OF window_run_upt [OF w, of pick amount], of create]
    unfolding run_bounded_def Let_def by auto
qed

lemma create_ddl_databases_reports:
  assumes "0 < creation_concurrency m"
  shows "\<exists>rs. create_ddl_databases pick m draw acquired execute amount = Inr rs \<and> reports_once amount rs \<and>
           (\<forall>(i, r) \<in> set rs. r = create_ddl_database m (draw i) (acquired i) execute)"
  using run_bounded_reports [OF assms, of pick amount]
  by (cases "amount = 0") (auto simp: create_ddl_databases_def reports_once_def)

lemma create_databases_Inr:
  "create_ddl_databases pick m draw acquired execute amount = Inr rs \<Longrightarrow>
     create_databases pick show_error m draw acquired execute amount =
       Inr (map (\<lambda>(i, r). (i, map_sum (ddl_error show_error) id r)) rs)"
  by (simp add: create_databases_def)

lemma create_databases_reports:
  assumes "0 < creation_concurrency m"
  obtains rs where "create_databases pick show_error m draw acquired execute amount = Inr rs"
    and "reports_once amount rs"
  using create_ddl_databases_reports [OF assms, of pick draw acquired execute amount]
    create_databases_Inr reports_once_map_snd by blast

text \<open>
  C25: a batch of creations reports exactly one result for every index, whatever the order in which
  the requests complete, and the result of an index is that of its own creation; the assertion on
  the concurrency limit holds for every manager that started.
\<close>

theorem creations_reported_once:
  assumes "0 < creation_concurrency m"
  shows "\<exists>rs. create_databases pick show_error m draw acquired execute amount = Inr rs \<and>
           reports_once amount rs \<and>
           (\<forall>(i, r) \<in> set rs. r = create_database show_error m (draw i) (acquired i) execute)"
proof -
  obtain rs where rs: "create_ddl_databases pick m draw acquired execute amount = Inr rs"
    "reports_once amount rs" "\<forall>(i, r) \<in> set rs. r = create_ddl_database m (draw i) (acquired i) execute"
    using create_ddl_databases_reports [OF assms, of pick draw acquired execute amount] by blast
  with create_databases_Inr [OF rs(1), of show_error]
    reports_once_map_snd [OF rs(2), of "map_sum (ddl_error show_error) id"]
  show ?thesis by (auto simp: create_database_def)
qed

lemma drop_databases_reports: "reports_once (length names) (drop_databases pick show_error acquired execute names)"
proof (cases "names = []")
  case True
  then show ?thesis by (simp add: drop_databases_def drop_ddl_databases_def reports_once_def)
next
  case False
  have depth: "0 < CLEANUP_PIPELINE_DEPTH" by (simp add: CLEANUP_PIPELINE_DEPTH_def)
  show ?thesis
  proof (cases acquired)
    case (Inl e)
    with False show ?thesis
      by (auto simp: drop_databases_def drop_ddl_databases_def intro!: reports_once_map)
  next
    case (Inr u)
    have "reports_once (length names) (map (\<lambda>i. (i, drop_on_connection execute (names ! i)))
        (window_run pick 0 (take CLEANUP_PIPELINE_DEPTH [0..<length names])
           (drop CLEANUP_PIPELINE_DEPTH [0..<length names])))"
      by (intro reports_once_map window_run_upt depth)
    from reports_once_map_snd [OF this, of "map_sum (ddl_error show_error) id"] False Inr show ?thesis
      by (simp add: drop_databases_def drop_ddl_databases_def)
  qed
qed

interpretation drops: batch_reporter
  "\<lambda>n. drop_databases pick show_error acquired execute (map names [0..<n])"
  for pick show_error acquired execute names
  using drop_databases_reports [of "map names [0..<n]" pick show_error acquired execute for n]
  by unfold_locales simp

interpretation creations: batch_reporter
  "\<lambda>n. case create_databases pick show_error (m\<lparr>creation_concurrency := Suc c\<rparr>) draw acquired execute n of
         Inl p \<Rightarrow> [] | Inr rs \<Rightarrow> rs"
  for pick show_error m c draw acquired execute
proof
  fix n
  let ?m = "m\<lparr>creation_concurrency := Suc c\<rparr>"
  obtain rs where "create_ddl_databases pick ?m draw acquired execute n = Inr rs" "reports_once n rs"
    using create_ddl_databases_reports [of ?m pick draw acquired execute n] by auto
  then show "reports_once n (case create_databases pick show_error ?m draw acquired execute n of
         Inl p \<Rightarrow> [] | Inr rs \<Rightarrow> rs)"
    by (simp add: create_databases_def reports_once_map_snd)
qed

text \<open>
  A batch of drops reports exactly one result for every name, as many as there are names: also
  when no connection can be acquired, where every one of them is a failure.
\<close>

lemma drops_reported_once:
  "length (drop_databases pick show_error acquired execute names) = length names \<and>
   (\<forall>i < length names. \<exists>!r. (i, r) \<in> set (drop_databases pick show_error acquired execute names)) \<and>
   (\<forall>e. acquired = Inl e \<longrightarrow> (\<forall>(i, r) \<in> set (drop_databases pick show_error acquired execute names). isl r))"
proof -
  have names: "map (nth names) [0..<length names] = names" by (rule map_nth)
  show ?thesis
    using drops.report_length [of pick show_error acquired execute "nth names" "length names"]
      drops.report_unique [of _ "length names" pick show_error acquired execute "nth names"]
    by (auto simp: names drop_databases_def drop_ddl_databases_def split: if_splits)
qed

definition calm_manager :: PostgresManager where
  "calm_manager = \<lparr>version = 16, host = ''localhost'', port = 5432,
     template_database_name = PostgresDatabaseName_new (\<lambda>_. 0) ''app'', creation_concurrency = 2\<rparr>"

theorem creations_reported_once_witness:
  "\<exists>rs. create_databases (\<lambda>k xs. k) (\<lambda>e. e) calm_manager (\<lambda>i j. i) (\<lambda>i. Inr ()) (\<lambda>q. Inr ()) 5 = Inr rs \<and>
     reports_once 5 rs"
proof -
  have "0 < creation_concurrency calm_manager" by (simp add: calm_manager_def)
  from creations_reported_once [OF this, of "\<lambda>k xs. k" "\<lambda>e. e" "\<lambda>i j. i" "\<lambda>i. Inr ()" "\<lambda>q. Inr ()" 5]
  show ?thesis by blast
qed

lemma drops_reported_once_witness:
  "length (drop_databases (\<lambda>k xs. k) (\<lambda>e. e) (Inl ''closed'') (\<lambda>q. Inr ()) [''a'', ''b'']) = 2 \<and>
   list_all (isl \<circ> snd) (drop_databases (\<lambda>k xs. k) (\<lambda>e. e) (Inl ''closed'') (\<lambda>q. Inr ()) [''a'', ''b''])"
  using drops_reported_once [of "\<lambda>k xs. k" "\<lambda>e. e" "Inl ''closed''" "\<lambda>q. Inr ()" "[''a'', ''b'']"]
  by (auto simp: list_all_iff)

section \<open>Start-up\<close>

definition opened :: "pool_event list \<Rightarrow> string set" where
  "opened ev = {p. \<exists>n. PoolOpened p n \<in> set ev}"

definition closed :: "pool_event list \<Rightarrow> string set" where
  "closed ev = {p. PoolClosed p \<in> set ev}"

lemma is_valid_version_Inr:
  "is_valid_version sv = Inr v \<Longrightarrow> 13 \<le> unat v"
  by (auto simp: is_valid_version_def MIN_SERVER_VERSION_NUM_def Let_def word_less_nat_alt not_less
      split: if_splits option.splits)

text \<open>
  The options of a pool that never waits without a limit: thirty seconds for a free connection,
  for opening one and for checking one that is reused.
\<close>

definition waits_limited :: "pool_options \<Rightarrow> bool" where
  "waits_limited opts \<longleftrightarrow> wait_timeout opts = Some 30 \<and> create_timeout opts = Some 30 \<and> recycle_timeout opts = Some 30"

text \<open>
  C26: a manager that starts talks to a server of version 13 or newer, allows at least one
  concurrent creation, and the start has opened exactly two pools and closed none: the creation
  pool and the cleanup pool, each with as many connections as configured, which is not zero, to the
  maintenance database of the configured host, port and user, and with a limit of thirty seconds on
  each of its three waits. When the start fails for any reason, every pool it opened has those
  limits and is closed again.
\<close>

theorem start_opens_or_closes_pools:
  "case start_manager sv draw config of
     (Inr m, ev) \<Rightarrow>
       13 \<le> unat (version m) \<and> is_valid_version sv = Inr (version m) \<and>
       name (template_database_name m) = pgtest_pg_database config \<and>
       0 < unat (pgtest_pg_creation_pool_connection config) \<and>
       0 < unat (pgtest_pg_cleanup_pool_connection config) \<and>
       creation_concurrency m = unat (pgtest_pg_creation_pool_connection config) \<and>
       (\<exists>creation cleanup.
          ev = [PoolOpened ''creation'' creation, PoolOpened ''cleanup'' cleanup] \<and>
          max_size creation = unat (pgtest_pg_creation_pool_connection config) \<and>
          max_size cleanup = unat (pgtest_pg_cleanup_pool_connection config) \<and>
          waits_limited creation \<and> waits_limited cleanup \<and>
          pool_connection creation =
            \<lparr>connect_host = pgtest_pg_host config, connect_port = pgtest_pg_port config,
             connect_user = pgtest_pg_user config, connect_password = ''postgres'', connect_dbname = ''postgres''\<rparr> \<and>
          pool_connection cleanup = pool_connection creation)
   | (Inl e, ev) \<Rightarrow>
       opened ev \<subseteq> closed ev \<and> {opts. \<exists>p. PoolOpened p opts \<in> set ev} \<subseteq> {opts. waits_limited opts}"
proof -
  have pos: "0 < unat n" if "n \<noteq> 0" for n :: u32
    using that by (simp add: unat_gt_0)
  have connected: "connect_pool sv config n p = (Inr q, ev) \<Longrightarrow>
      ev = [PoolOpened p (pool_options_for config n)] \<and> q = p"
    and refused: "connect_pool sv config n p = (Inl e, ev) \<Longrightarrow>
      ev = [] \<or> ev = [PoolOpened p (pool_options_for config n), PoolClosed p]" for n p q e ev
    by (auto simp: connect_pool_def split: if_splits)
  have options: "waits_limited (pool_options_for config n)" "max_size (pool_options_for config n) = unat n"
    "pool_connection (pool_options_for config n) =
       \<lparr>connect_host = pgtest_pg_host config, connect_port = pgtest_pg_port config,
        connect_user = pgtest_pg_user config, connect_password = ''postgres'', connect_dbname = ''postgres''\<rparr>" for n
    by (simp_all add: waits_limited_def pool_options_for_def CONNECTION_TIMEOUT_def Config_from_def)
  show ?thesis
    by (auto simp: start_manager_def opened_def closed_def pos bind_res_def options PostgresDatabaseName_new_def
        dest!: connected dest: is_valid_version_Inr refused split: prod.splits sum.splits if_splits)
qed

text \<open>
  A server is accepted exactly when its version number is readable and between 130000 and
  2559999; the version kept is its number divided by 10000. Numbers outside \<open>u8\<close> after the division
  are reported as malformed, smaller ones as unsupported.
\<close>

lemma version_check:
  assumes "version_connects sv" "version_num sv = Some n"
  shows "is_valid_version sv =
           (if 130000 \<le> n \<and> n < 2560000 then Inr (of_int (n div 10000))
            else if -10000 < n \<and> n < 130000 then Inl (UnsupportedVersion (of_int (max n 0 div 10000)))
            else Inl (UnexpectedServerVersionFormatFetched n))"
proof -
  have sd: "n sdiv 10000 = (if 0 \<le> n then n div 10000 else - (- n div 10000))"
    by (simp add: signed_divide_int_def sgn_if)
  have w: "(of_int k :: u8) < 13 \<longleftrightarrow> k < 13" if "0 \<le> k" "k \<le> 255" for k
    using that by (simp add: word_less_def uint_word_of_int)
  consider "130000 \<le> n \<and> n < 2560000" | "0 \<le> n \<and> n < 130000" | "-10000 < n \<and> n < 0"
    | "n \<le> -10000" | "2560000 \<le> n" by linarith
  then show ?thesis
  proof cases
    case 1
    then have "13 \<le> n div 10000" "n div 10000 \<le> 255" by linarith+
    with 1 assms w [of "n div 10000"] show ?thesis
      by (simp add: is_valid_version_def sd MIN_SERVER_VERSION_NUM_def Let_def)
  next
    case 2
    then have "0 \<le> n div 10000" "n div 10000 < 13" by linarith+
    with 2 assms w [of "n div 10000"] show ?thesis
      by (simp add: is_valid_version_def sd MIN_SERVER_VERSION_NUM_def Let_def)
  next
    case 3
    then have "- n div 10000 = 0" by simp
    with 3 assms w [of 0] show ?thesis
      by (simp add: is_valid_version_def sd MIN_SERVER_VERSION_NUM_def Let_def)
  next
    case 4
    then have "1 \<le> - n div 10000" by linarith
    with 4 assms show ?thesis by (simp add: is_valid_version_def sd Let_def)
  next
    case 5
    then have "256 \<le> n div 10000" by linarith
    with 5 assms show ?thesis by (simp add: is_valid_version_def sd Let_def)
  qed
qed

definition server16 :: "string list \<Rightarrow> (string \<Rightarrow> string \<Rightarrow> bool) \<Rightarrow> server" where
  "server16 dbs matches = \<lparr>pool_configured = (\<lambda>p. True), pool_connects = (\<lambda>p. True), exists_connects = True,
     version_connects = True, like_rows = (\<lambda>pat. Some (filter (matches pat) dbs)), version_num = Some 160003\<rparr>"

lemma version_check_witness: "is_valid_version (server16 [] (\<lambda>p s. True)) = Inr 16"
  using version_check [of "server16 [] (\<lambda>p s. True)" 160003] by (simp add: server16_def)

section \<open>Statements\<close>

text \<open>
  C27: whatever characters a database name has, the server reads it back from the generated
  statements: the quoted identifier after \<open>CREATE DATABASE\<close> is the new database, the one after
  \<open>TEMPLATE\<close> the template, the one in \<open>DROP DATABASE\<close> the database to drop. No name can end its
  identifier early.
\<close>

theorem statements_read_back:
  "read_quoted (drop (length ''CREATE DATABASE '') (create_query m database_name)) =
     Some (database_name, '' TEMPLATE '' @ quote_ident (name (template_database_name m))
       @ (if version m \<ge> 15 then '' STRATEGY=FILE_COPY'' else [])) \<and>
   read_quoted (quote_ident (name (template_database_name m))
       @ (if version m \<ge> 15 then '' STRATEGY=FILE_COPY'' else [])) =
     Some (name (template_database_name m), if version m \<ge> 15 then '' STRATEGY=FILE_COPY'' else []) \<and>
   read_quoted (drop (length ''DROP DATABASE IF EXISTS '') (drop_query database_name)) =
     Some (database_name, '' WITH (FORCE)'')"
proof -
  have "CHR '' '' \<noteq> DQUOTE" by (simp add: DQUOTE_def)
  then show ?thesis
    by (simp add: create_query_def drop_query_def read_quote_ident)
qed

section \<open>Which databases a pattern selects\<close>

text \<open>
  The documented behaviour of the operator \<open>LIKE\<close> of the server, for names in ASCII: a percent sign
  stands for any sequence, an underscore for any character, a backslash makes the next character
  literal, and every other character stands for itself.
\<close>

definition ascii :: "string \<Rightarrow> bool" where
  "ascii s \<longleftrightarrow> (\<forall>c \<in> set s. (of_char c :: nat) < 128)"

definition plain :: "char \<Rightarrow> bool" where
  "plain c \<longleftrightarrow> c \<noteq> CHR ''%'' \<and> c \<noteq> CHR ''_'' \<and> c \<noteq> CHR 0x5C"

definition like_spec :: "(string \<Rightarrow> string \<Rightarrow> bool) \<Rightarrow> bool" where
  "like_spec like \<longleftrightarrow>
     (\<forall>s. like [] s \<longleftrightarrow> s = []) \<and>
     (\<forall>p s. ascii s \<longrightarrow> like (CHR ''%'' # p) s = (\<exists>k \<le> length s. like p (drop k s))) \<and>
     (\<forall>p s. ascii s \<longrightarrow> like (CHR ''_'' # p) s = (s \<noteq> [] \<and> like p (tl s))) \<and>
     (\<forall>c p s. like (CHR 0x5C # c # p) s = (s \<noteq> [] \<and> hd s = c \<and> like p (tl s))) \<and>
     (\<forall>c p s. plain c \<longrightarrow> like (c # p) s = (s \<noteq> [] \<and> hd s = c \<and> like p (tl s)))"

fun sql_like :: "string \<Rightarrow> string \<Rightarrow> bool" where
  "sql_like [] s = (s = [])"
| "sql_like (c # p) s =
     (if c = CHR ''%'' then list_ex (\<lambda>k. sql_like p (drop k s)) [0..<Suc (length s)]
      else if c = CHR ''_'' then s \<noteq> [] \<and> sql_like p (tl s)
      else if c = CHR 0x5C then
        (case p of [] \<Rightarrow> False | d # q \<Rightarrow> s \<noteq> [] \<and> hd s = d \<and> sql_like q (tl s))
      else s \<noteq> [] \<and> hd s = c \<and> sql_like p (tl s))"

lemma like_spec_sql_like: "like_spec sql_like"
proof -
  have "list_ex P [0..<Suc n] \<longleftrightarrow> (\<exists>k \<le> n. P k)" for P n
    by (auto simp: list_ex_iff less_Suc_eq_le simp del: upt_Suc)
  then show ?thesis by (auto simp: like_spec_def plain_def simp del: upt_Suc)
qed

lemma like_plain_prefix:
  assumes "like_spec like" "\<forall>c \<in> set p. plain c"
  shows "like (p @ q) s \<longleftrightarrow> (\<exists>t. s = p @ t \<and> like q t)"
  using assms(2)
proof (induction p arbitrary: s)
  case (Cons c p)
  then have "like (c # (p @ q)) s \<longleftrightarrow> s \<noteq> [] \<and> hd s = c \<and> like (p @ q) (tl s)"
    using assms(1) by (simp add: like_spec_def)
  with Cons show ?case by (cases s) auto
qed simp

lemma like_any_tail:
  assumes "like_spec like" "ascii s"
  shows "like ''_%'' s \<longleftrightarrow> s \<noteq> []"
proof (cases s)
  case Nil
  with assms show ?thesis by (simp add: like_spec_def)
next
  case (Cons c t)
  have "ascii t" using assms(2) Cons by (simp add: ascii_def)
  then have "like ''%'' t"
    using assms(1) unfolding like_spec_def by (metis drop_all order_refl)
  with assms Cons show ?thesis by (simp add: like_spec_def)
qed

text \<open>
  A template name without a percent sign and a backslash selects what matches it letter by letter,
  an underscore of the template name standing for any letter.
\<close>

definition looks_like :: "string \<Rightarrow> string \<Rightarrow> bool" where
  "looks_like t d \<longleftrightarrow> list_all2 (\<lambda>x y. x = CHR ''_'' \<or> x = y) t d"

definition extends_template :: "string \<Rightarrow> string \<Rightarrow> bool" where
  "extends_template t d \<longleftrightarrow> (\<exists>front c rest. d = front @ c # rest \<and> looks_like t front)"

lemma looks_like_simps [simp]:
  "looks_like [] d \<longleftrightarrow> d = []"
  "looks_like (x # t) d \<longleftrightarrow> (\<exists>y d'. d = y # d' \<and> (x = CHR ''_'' \<or> x = y) \<and> looks_like t d')"
  by (auto simp: looks_like_def list_all2_Cons1)

lemma looks_like_plain: "\<forall>c \<in> set t. plain c \<Longrightarrow> looks_like t d \<longleftrightarrow> d = t"
  by (induction t arbitrary: d) (auto simp: plain_def)

lemma extends_template_iff: "extends_template t d \<longleftrightarrow> length t < length d \<and> looks_like t (take (length t) d)"
proof
  assume "extends_template t d"
  then show "length t < length d \<and> looks_like t (take (length t) d)"
    unfolding extends_template_def looks_like_def by (auto simp: list_all2_lengthD)
next
  assume r: "length t < length d \<and> looks_like t (take (length t) d)"
  then have "d = take (length t) d @ d ! length t # drop (Suc (length t)) d" by (simp add: id_take_nth_drop)
  with r show "extends_template t d" unfolding extends_template_def by blast
qed

lemma like_looks_like:
  assumes "like_spec like" "CHR ''%'' \<notin> set p" "CHR 0x5C \<notin> set p" "ascii s"
  shows "like (p @ q) s \<longleftrightarrow> (\<exists>front rest. s = front @ rest \<and> looks_like p front \<and> like q rest)"
  using assms(2-4)
proof (induction p arbitrary: s)
  case (Cons c p)
  then have tl: "s \<noteq> [] \<Longrightarrow> ascii (tl s)" by (cases s) (auto simp: ascii_def)
  have "like (c # (p @ q)) s \<longleftrightarrow> s \<noteq> [] \<and> (c = CHR ''_'' \<or> c = hd s) \<and> like (p @ q) (tl s)"
    using assms(1) Cons.prems by (cases "c = CHR ''_''") (auto simp: like_spec_def plain_def)
  also have "\<dots> \<longleftrightarrow> (\<exists>y front rest. s = y # front @ rest \<and> (c = CHR ''_'' \<or> c = y) \<and> looks_like p front \<and> like q rest)"
    using Cons.IH [OF _ _ tl] Cons.prems by (cases s) auto
  finally show ?case by (simp del: append_Cons add: append_Cons [symmetric]) (metis append_Cons)
qed simp

lemma drop_batches_result:
  "set (snd (drop_batches execute bs)) \<subseteq> set (concat bs)"
  "fst (drop_batches execute bs) = Inr () \<longleftrightarrow> (\<forall>n \<in> set (concat bs). execute (drop_query n) = Inr ())"
  "fst (drop_batches execute bs) = Inr () \<Longrightarrow> snd (drop_batches execute bs) = concat bs"
proof (induction bs)
  case (Cons b bs)
  have ok: "map_res (drop_on_connection execute) ns = Inr us \<Longrightarrow> \<forall>n \<in> set ns. execute (drop_query n) = Inr ()" for ns us
    by (induction ns arbitrary: us) (auto simp: drop_on_connection_def bind_res_def split: sum.splits)
  have bad: "map_res (drop_on_connection execute) ns = Inl e \<Longrightarrow> \<exists>n \<in> set ns. execute (drop_query n) \<noteq> Inr ()" for ns e
    by (induction ns arbitrary: e) (auto simp: drop_on_connection_def bind_res_def split: sum.splits)
  { case 1 then show ?case using Cons by (auto split: sum.splits prod.splits) }
  { case 2 then show ?case using Cons ok [of b] bad [of b] by (auto split: sum.splits prod.splits) }
  { case 3 then show ?case using Cons by (auto split: sum.splits prod.splits) }
qed simp_all

lemma concat_chunks: "0 < n \<Longrightarrow> concat (chunks n xs) = xs"
proof (induction n xs rule: chunks.induct)
  case (1 n xs)
  then show ?case by (cases "xs = []") (simp_all add: chunks.simps [of n xs] chunks.simps [of n "[]"])
qed

lemma map_res_Inr: "map_res (\<lambda>r. r) (map Inr xs) = Inr xs"
  by (induction xs) simp_all

lemma cleanup_run:
  assumes "like_spec like" "\<forall>d \<in> set dbs. ascii d"
    and "CHR ''%'' \<notin> set (name (template_database_name m))" "CHR 0x5C \<notin> set (name (template_database_name m))"
  shows "drop_ddl_templates_like m (Inr ()) (\<lambda>pat. Inr (map Inr (filter (like pat) dbs))) execute
      = drop_batches execute (chunks CLEANUP_PIPELINE_DEPTH
          (filter (extends_template (name (template_database_name m))) dbs))"
proof -
  let ?t = "name (template_database_name m)"
  have "like (?t @ ''_%'') d \<longleftrightarrow> extends_template ?t d" if "d \<in> set dbs" for d
  proof -
    have "ascii rest" if "d = front @ rest" for front rest
      using assms(2) \<open>d \<in> set dbs\<close> that by (auto simp: ascii_def)
    then show ?thesis
      using that assms(2) like_any_tail [OF assms(1)] like_looks_like [OF assms(1,3,4), of d "''_%''"]
      unfolding extends_template_def by (metis list.exhaust list.distinct(1))
  qed
  then have "filter (like (?t @ ''_%'')) dbs = filter (extends_template ?t) dbs" by (intro filter_cong) simp_all
  then show ?thesis by (simp add: drop_ddl_templates_like_def map_res_Inr)
qed

lemma cleanup_scope:
  assumes "like_spec like" "\<forall>d \<in> set dbs. ascii d"
    and "\<forall>c \<in> set (name (template_database_name m)). plain c"
    and "\<And>n. execute (drop_query n) = Inr ()"
  shows "\<exists>dropped. drop_ddl_templates_like m (Inr ()) (\<lambda>pat. Inr (map Inr (filter (like pat) dbs))) execute
             = (Inr (), dropped) \<and>
           set dropped = {d \<in> set dbs. \<exists>c rest. d = name (template_database_name m) @ c # rest}"
proof -
  let ?t = "name (template_database_name m)"
  let ?bs = "chunks CLEANUP_PIPELINE_DEPTH (filter (extends_template ?t) dbs)"
  have "fst (drop_batches execute ?bs) = Inr ()" by (simp add: drop_batches_result(2) assms(4))
  moreover from drop_batches_result(3) [OF this]
  have "set (snd (drop_batches execute ?bs)) = {d \<in> set dbs. extends_template ?t d}"
    by (simp add: concat_chunks CLEANUP_PIPELINE_DEPTH_def)
  moreover have "extends_template ?t d \<longleftrightarrow> (\<exists>c rest. d = ?t @ c # rest)" for d
    by (auto simp: extends_template_def looks_like_plain [OF assms(3)])
  moreover have "CHR ''%'' \<notin> set ?t" "CHR 0x5C \<notin> set ?t" using assms(3) by (auto simp: plain_def)
  ultimately show ?thesis
    by (simp add: cleanup_run [OF assms(1,2)] prod_eq_iff)
qed

text \<open>
  C28: on a server whose \<open>LIKE\<close> behaves as documented and whose database names are in ASCII, with a
  template name without a percent sign and a backslash, once the databases are listed, the start-up
  cleanup sends drops only for databases whose name looks like the template's name, letter by
  letter, followed by at least one character of any kind. It succeeds exactly when the drop of each
  of them succeeds, and has then dropped all of them; when one fails the start-up fails. Every
  underscore is a wildcard, that of the pattern and those of the template's own name: with
  \<open>test_template\<close>, both \<open>test_template_1\<close> and \<open>testXtemplate_1\<close> are dropped, although the program
  creates no database of the second name.
\<close>

theorem startup_cleanup_scope:
  assumes "like_spec like" "\<forall>d \<in> set dbs. ascii d"
    and "CHR ''%'' \<notin> set (name (template_database_name m))" "CHR 0x5C \<notin> set (name (template_database_name m))"
  shows "case drop_ddl_templates_like m (Inr ()) (\<lambda>pat. Inr (map Inr (filter (like pat) dbs))) execute of (r, dropped) \<Rightarrow>
           set dropped \<subseteq> {d \<in> set dbs. extends_template (name (template_database_name m)) d} \<and>
           (r = Inr () \<longleftrightarrow>
              (\<forall>d \<in> set dbs. extends_template (name (template_database_name m)) d \<longrightarrow> execute (drop_query d) = Inr ())) \<and>
           (r = Inr () \<longrightarrow>
              set dropped = {d \<in> set dbs. extends_template (name (template_database_name m)) d})"
proof -
  let ?bs = "chunks CLEANUP_PIPELINE_DEPTH (filter (extends_template (name (template_database_name m))) dbs)"
  have all: "concat ?bs = filter (extends_template (name (template_database_name m))) dbs"
    by (simp add: concat_chunks CLEANUP_PIPELINE_DEPTH_def)
  show ?thesis
    using drop_batches_result [of execute ?bs]
    unfolding cleanup_run [OF assms] all by (auto split: prod.splits)
qed

definition test_template_manager :: PostgresManager where
  "test_template_manager = calm_manager\<lparr>template_database_name := PostgresDatabaseName_new (\<lambda>_. 0) ''test_template''\<rparr>"

theorem startup_cleanup_scope_witness:
  "case drop_ddl_templates_like test_template_manager (Inr ()) (\<lambda>pat. Inr (map Inr (filter (sql_like pat)
        [''test_template'', ''test_template_1'', ''testXtemplate_1'', ''shop'']))) (\<lambda>q. Inr () :: string + unit) of
     (r, dropped) \<Rightarrow> r = Inr () \<and> set dropped = {''test_template_1'', ''testXtemplate_1''}"
proof -
  let ?dbs = "[''test_template'', ''test_template_1'', ''testXtemplate_1'', ''shop'']"
  have t: "name (template_database_name test_template_manager) = ''test_template''"
    by (simp add: test_template_manager_def PostgresDatabaseName_new_def)
  have "{d \<in> set ?dbs. extends_template ''test_template'' d} = {''test_template_1'', ''testXtemplate_1''}"
    by (auto simp: extends_template_iff)
  moreover have "\<forall>d \<in> set ?dbs. ascii d" by (simp add: ascii_def)
  ultimately show ?thesis
    using startup_cleanup_scope [OF like_spec_sql_like, of ?dbs test_template_manager "\<lambda>q. Inr () :: string + unit"]
    by (auto simp: t split: prod.splits)
qed

text \<open>
  The check that the template database exists asks for a name that is \<open>LIKE\<close> the configured one:
  a template name with an underscore is accepted when the server only has a database with another
  character in its place.
\<close>

lemma template_check_accepts_lookalike:
  assumes "like_spec like" "\<forall>x \<in> set p. plain x" "\<forall>x \<in> set q. plain x" "c \<noteq> CHR ''_''"
    and "ascii (p @ c # q)" "exists_connects sv"
    and "like_rows sv = (\<lambda>pat. Some (filter (like pat) [p @ c # q]))"
  shows "database_exists sv (p @ ''_'' @ q) = Inr () \<and> p @ ''_'' @ q \<notin> set [p @ c # q]"
proof -
  have "ascii (c # q)" using assms(5) by (simp add: ascii_def)
  moreover have "like q q"
    using like_plain_prefix [OF assms(1,3), of "[]" q] assms(1) by (simp add: like_spec_def)
  ultimately have "like (''_'' @ q) (c # q)" using assms(1) by (simp add: like_spec_def)
  then have "like (p @ ''_'' @ q) (p @ c # q)"
    unfolding like_plain_prefix [OF assms(1,2)] by blast
  with assms(4,6,7) show ?thesis by (simp add: database_exists_def)
qed

lemma template_check_accepts_lookalike_witness:
  "database_exists (server16 [''testXtemplate''] sql_like) ''test_template'' = Inr ()"
  using template_check_accepts_lookalike [OF like_spec_sql_like, of "''test''" "''template''" "CHR ''X''"
      "server16 [''testXtemplate''] sql_like"]
  by (simp add: plain_def ascii_def server16_def)

end
