(* ===== verification/Worker_Io.thy ===== *)
theory Worker_Io
  imports Engine Postgres_Manager
begin

text \<open>
  The tasks and channels around the engine (crates/pgtest-core/src/worker_manager.rs and
  worker_manager/: worker_io.rs, database_creation_worker.rs, database_cleanup_worker.rs). A manager
  holds handles to channels and tasks; the record below holds what the handles point to. Every
  operation is a function on it. A \<open>oneshot\<close> channel is named by a number; senders into the engine's
  inbox all lead to the one inbox, which is closed when the engine task has ended.
\<close>

section \<open>Sessions and replies\<close>

record LeaseSession =
  session_database_name :: ReadString
  session_lease_id :: LeaseId
  session_generation :: u64
  session_cancellation :: CancellationToken
  detach_on_drop :: bool

definition LeaseSession_new :: "ReadString \<Rightarrow> LeaseId \<Rightarrow> u64 \<Rightarrow> CancellationToken \<Rightarrow> LeaseSession" where
  "LeaseSession_new database_name lease_id g token =
     \<lparr>session_database_name = database_name, session_lease_id = lease_id,
      session_generation = g, session_cancellation = token, detach_on_drop = True\<rparr>"

datatype ManagerReply = ManagerAttached LeaseSession | ManagerEngine ConsumerReply

record ConsumerWorker =
  oneshot_channel :: nat
  attachment :: "LeaseId option"

definition ConsumerWorker_new :: "nat \<Rightarrow> ConsumerWorker" where
  "ConsumerWorker_new sender = \<lparr>oneshot_channel = sender, attachment = None\<rparr>"

text \<open>The messages that dropping a session, or a reply that holds one, sends to the engine.\<close>

definition drop_session :: "LeaseSession \<Rightarrow> ConsumerWorker EngineMessage list" where
  "drop_session session =
     (if detach_on_drop session
      then [Detach (session_lease_id session) (session_generation session)] else [])"

definition drop_reply :: "ManagerReply \<Rightarrow> ConsumerWorker EngineMessage list" where
  "drop_reply r = (case r of ManagerAttached session \<Rightarrow> drop_session session | ManagerEngine msg \<Rightarrow> [])"

text \<open>
  A reply with what it leaves in the channel and what dropping an undelivered session sends.
  \<open>receiver_open\<close> says whether the receiving half still exists.
\<close>

definition reply ::
  "bool \<Rightarrow> ConsumerWorker \<Rightarrow> ConsumerReply
     \<Rightarrow> (ConsumerReply + unit) \<times> ManagerReply option \<times> ConsumerWorker EngineMessage list" where
  "reply receiver_open w msg =
     (case (attachment w, msg) of
        (Some lease, Attached database_name g token) \<Rightarrow>
          let session = LeaseSession_new database_name lease g token in
          if receiver_open then (Inr (), Some (ManagerAttached session), [])
          else (Inl msg, None, drop_session (session\<lparr>detach_on_drop := False\<rparr>))
      | _ \<Rightarrow>
          if receiver_open then (Inr (), Some (ManagerEngine msg), [])
          else (Inl msg, None, []))"

section \<open>The manager\<close>

text \<open>A timer task: the message it sends, its delay and start, and the token that cancels it.\<close>

record timer =
  timer_msg :: "ConsumerWorker EngineMessage"
  wait_duration :: u32
  timer_start :: Instant
  cancel_token :: CancellationToken

text \<open>A creation task: its request and the results that the PostgreSQL client has yet to report.\<close>

record creation_job =
  job_request :: CreateDatabases
  job_results :: "(nat \<times> (PostgresDDLClientError + ReadString)) list"

text \<open>
  The inbox of the engine, the engine and whether its task runs, the unread replies and the receivers
  with the time they were created, the sessions owned by client connections, the channels of the
  database workers and whether the workers run, the tracked tasks, the shutdown token and the clock.
  \<open>handled\<close> is the history of the messages the engine has handled.
\<close>

record WorkerEngineManager =
  worker_inbox :: "ConsumerWorker EngineMessage list"
  pg_client :: PostgresManager
  lease_claim_timeout :: u64
  engine_handle :: "ConsumerWorker WorkerEngine"
  engine_running :: bool
  unread :: "(nat \<times> ManagerReply) list"
  receivers :: "(nat, Instant) fmap"
  next_channel :: nat
  sessions :: "LeaseSession list"
  creation_channel :: "CreateDatabases list"
  creation_worker :: bool
  cleanup_channel :: "CleanupDatabase list"
  cleanup_worker :: bool
  timers :: "timer list"
  creation_jobs :: "creation_job list"
  cleanup_jobs :: "CleanupDatabase list"
  shutdown_token :: bool
  clock :: Instant
  handled :: "ConsumerWorker EngineMessage list"

text \<open>Sending into the inbox; the send fails silently when the engine task has ended.\<close>

definition post :: "ConsumerWorker EngineMessage list \<Rightarrow> WorkerEngineManager \<Rightarrow> WorkerEngineManager" where
  "post msgs w = (if engine_running w then w\<lparr>worker_inbox := worker_inbox w @ msgs\<rparr> else w)"

definition send_message ::
  "ConsumerWorker EngineMessage \<Rightarrow> WorkerEngineManager \<Rightarrow> (IOError + unit) \<times> WorkerEngineManager" where
  "send_message msg w =
     (if engine_running w then (Inr (), post [msg] w) else (Inl FailedToSendTheMessage, w))"

definition request_creation ::
  "CreateDatabases \<Rightarrow> WorkerEngineManager \<Rightarrow> (IOError + unit) \<times> WorkerEngineManager" where
  "request_creation request w =
     (if creation_worker w then (Inr (), w\<lparr>creation_channel := creation_channel w @ [request]\<rparr>)
      else (Inl FailedToSendTheMessage, w))"

definition request_cleanup ::
  "CleanupDatabase \<Rightarrow> WorkerEngineManager \<Rightarrow> (IOError + unit) \<times> WorkerEngineManager" where
  "request_cleanup request w =
     (if cleanup_worker w then (Inr (), w\<lparr>cleanup_channel := cleanup_channel w @ [request]\<rparr>)
      else (Inl FailedToSendTheMessage, w))"

definition send_delayed_message ::
  "ConsumerWorker EngineMessage \<Rightarrow> u32 \<Rightarrow> CancellationToken \<Rightarrow> WorkerEngineManager
     \<Rightarrow> (IOError + unit) \<times> WorkerEngineManager" where
  "send_delayed_message msg wait token w =
     (Inr (), w\<lparr>timers := timers w @
        [\<lparr>timer_msg = msg, wait_duration = wait, timer_start = clock w, cancel_token = token\<rparr>]\<rparr>)"

text \<open>A child token is cancelled by its own cancellation or by that of the root token.\<close>

definition is_cancelled :: "CancellationToken \<Rightarrow> WorkerEngineManager \<Rightarrow> bool" where
  "is_cancelled token w \<longleftrightarrow>
     CancelToken token \<in> set (calls (engine_handle w)) \<or> CancelRoot \<in> set (calls (engine_handle w))"

section \<open>The engine task\<close>

text \<open>
  One turn of the engine: what its traits answer is read off the channels, and the calls it made
  are carried out in order. A receiver that is dropped during the turn is dropped before or after
  it as far as the engine can see, since a client receives at most one reply.
\<close>

definition env_of :: "WorkerEngineManager \<Rightarrow> ConsumerWorker env" where
  "env_of w =
     \<lparr>accepts = (\<lambda>c msg. oneshot_channel c |\<in>| fmdom (receivers w)),
      creation_open = (\<lambda>r. \<not> isl (fst (request_creation r w))),
      cleanup_open = (\<lambda>r. \<not> isl (fst (request_cleanup r w))),
      timer_ok = (\<lambda>l g. True),
      elapsed_ms = (\<lambda>t. clock w - t)\<rparr>"

definition perform :: "ConsumerWorker call \<Rightarrow> WorkerEngineManager \<Rightarrow> WorkerEngineManager" where
  "perform k w =
     (case k of
        Reply c msg delivered \<Rightarrow>
          (case reply delivered c msg of
             (r, left, msgs) \<Rightarrow>
               post msgs (case left of
                            None \<Rightarrow> w
                          | Some m \<Rightarrow> w\<lparr>unread := unread w @ [(oneshot_channel c, m)]\<rparr>))
      | RequestCreation request sent \<Rightarrow> snd (request_creation request w)
      | RequestCleanup request sent \<Rightarrow> snd (request_cleanup request w)
      | SendDelayed lease g wait token sent \<Rightarrow>
          snd (send_delayed_message (LeaseMaxTimeReached lease g) wait token w)
      | CancelToken token \<Rightarrow> w
      | CancelRoot \<Rightarrow> w)"

text \<open>
  \<open>wait_for_message\<close> takes the next message of the inbox and the loop handles it. After the last
  message the task cancels the root token and ends, and the inbox is closed.
\<close>

definition engine_turn :: "WorkerEngineManager \<Rightarrow> panic + WorkerEngineManager" where
  "engine_turn w =
     (if \<not> engine_running w then Inr w
      else case worker_inbox w of
             [] \<Rightarrow> Inr w
           | msg # rest \<Rightarrow>
               bind_res (handle_message (env_of w) msg (engine_handle w)) (\<lambda>(continue, e).
                 let w1 = fold perform (drop (length (calls (engine_handle w))) (calls e))
                            (w\<lparr>engine_handle := e, worker_inbox := rest, handled := handled w @ [msg]\<rparr>)
                 in Inr (if continue then w1
                         else w1\<lparr>engine_running := False, worker_inbox := [],
                                 engine_handle := record_call CancelRoot (engine_handle w1)\<rparr>)))"

section \<open>Clients\<close>

text \<open>Dropping a receiver drops the replies left in its channel.\<close>

definition drop_receiver :: "nat \<Rightarrow> WorkerEngineManager \<Rightarrow> WorkerEngineManager" where
  "drop_receiver ch w =
     post (concat (map (drop_reply \<circ> snd) (filter (\<lambda>p. fst p = ch) (unread w))))
       (w\<lparr>unread := filter (\<lambda>p. fst p \<noteq> ch) (unread w), receivers := fmdrop ch (receivers w)\<rparr>)"

text \<open>The first half of \<open>attach\<close>: the checks, the channel and the message.\<close>

definition attach_request ::
  "string \<Rightarrow> LeaseId \<Rightarrow> WorkerEngineManager \<Rightarrow> (AttachError + nat) \<times> WorkerEngineManager" where
  "attach_request database_name lease w =
     (if name (template_database_name (pg_client w)) \<noteq> database_name then (Inl TemplateMismatch, w)
      else
        let ch = next_channel w;
            consumer_worker = \<lparr>oneshot_channel = ch, attachment = Some lease\<rparr>;
            w1 = w\<lparr>next_channel := Suc ch\<rparr>
        in case send_message (AttachOrJoin lease consumer_worker (clock w)) w1 of
             (Inl e, w2) \<Rightarrow> (Inl AttachEngineUnavailable, w2)
           | (Inr u, w2) \<Rightarrow> (Inr ch, w2\<lparr>receivers := fmupd ch (clock w) (receivers w2)\<rparr>))"

text \<open>The senders that still exist: in messages not yet handled and with the waiting clients.\<close>

definition message_channel :: "ConsumerWorker EngineMessage \<Rightarrow> nat option" where
  "message_channel msg =
     (case msg of AttachOrJoin l c t \<Rightarrow> Some (oneshot_channel c)
                | ReleaseLease l c \<Rightarrow> Some (oneshot_channel c) | _ \<Rightarrow> None)"

definition sender_alive :: "nat \<Rightarrow> WorkerEngineManager \<Rightarrow> bool" where
  "sender_alive ch w \<longleftrightarrow> engine_running w \<and>
     (list_ex (\<lambda>m. message_channel m = Some ch) (worker_inbox w) \<or>
      fBex (fmdom (group_waiters (engine_handle w))) (\<lambda>l.
        case fmlookup (group_waiters (engine_handle w)) l of
          None \<Rightarrow> False
        | Some ws \<Rightarrow> list_ex (\<lambda>(c, t). oneshot_channel c = ch) ws))"

text \<open>
  Polling a receiver: the reply, an error when the sender is gone, the end of the time limit, or
  still pending. A limit of \<^const>\<open>None\<close> waits for ever; the reply is polled before the limit.
\<close>

datatype 'a poll = Pending | Ready 'a

definition poll_receiver ::
  "nat \<Rightarrow> nat option \<Rightarrow> 'e \<Rightarrow> 'e \<Rightarrow> WorkerEngineManager \<Rightarrow> ('e + ManagerReply) poll" where
  "poll_receiver ch limit timed_out unavailable w =
     (case filter (\<lambda>p. fst p = ch) (unread w) of
        p # _ \<Rightarrow> Ready (Inr (snd p))
      | [] \<Rightarrow>
          if \<not> sender_alive ch w then Ready (Inl unavailable)
          else case (limit, fmlookup (receivers w) ch) of
                 (Some ms, Some started) \<Rightarrow> if started + ms \<le> clock w then Ready (Inl timed_out) else Pending
               | _ \<Rightarrow> Pending)"

text \<open>Taking the reply out of its channel; the receiver is consumed.\<close>

definition take_reply :: "nat \<Rightarrow> WorkerEngineManager \<Rightarrow> WorkerEngineManager" where
  "take_reply ch w =
     (case filter (\<lambda>p. fst p = ch) (unread w) of
        [] \<Rightarrow> drop_receiver ch w
      | p # _ \<Rightarrow> drop_receiver ch (w\<lparr>unread := remove1 p (unread w)\<rparr>))"

definition attach_limit :: "WorkerEngineManager \<Rightarrow> nat option" where
  "attach_limit w = (if lease_claim_timeout w = 0 then None else Some (unat (lease_claim_timeout w)))"

text \<open>The second half of \<open>attach\<close>: a session goes to the caller, or is dropped when its lease is gone.\<close>

definition attach_await ::
  "nat \<Rightarrow> WorkerEngineManager \<Rightarrow> (AttachError + LeaseSession) poll \<times> WorkerEngineManager" where
  "attach_await ch w =
     (case poll_receiver ch (attach_limit w) TimedOut AttachEngineUnavailable w of
        Pending \<Rightarrow> (Pending, w)
      | Ready (Inl e) \<Rightarrow> (Ready (Inl e), drop_receiver ch w)
      | Ready (Inr r) \<Rightarrow>
          let w1 = take_reply ch w in
          (case r of
             ManagerAttached session \<Rightarrow>
               if is_cancelled (session_cancellation session) w1
               then (Ready (Inl LeaseClosed), post (drop_session session) w1)
               else (Ready (Inr session), w1\<lparr>sessions := sessions w1 @ [session]\<rparr>)
           | ManagerEngine (AttachRejected e) \<Rightarrow> (Ready (Inl e), w1)
           | ManagerEngine _ \<Rightarrow> (Ready (Inl Failed), w1)))"

definition release_request ::
  "LeaseId \<Rightarrow> WorkerEngineManager \<Rightarrow> (ReleaseError + nat) \<times> WorkerEngineManager" where
  "release_request lease w =
     (let ch = next_channel w;
          w1 = w\<lparr>next_channel := Suc ch\<rparr>
      in case send_message (ReleaseLease lease (ConsumerWorker_new ch)) w1 of
           (Inl e, w2) \<Rightarrow> (Inl ReleaseEngineUnavailable, w2)
         | (Inr u, w2) \<Rightarrow> (Inr ch, w2\<lparr>receivers := fmupd ch (clock w) (receivers w2)\<rparr>))"

definition release_await ::
  "nat \<Rightarrow> WorkerEngineManager \<Rightarrow> (ReleaseError + unit) poll \<times> WorkerEngineManager" where
  "release_await ch w =
     (case poll_receiver ch (Some 5000) ReplyTimedOut ReleaseEngineUnavailable w of
        Pending \<Rightarrow> (Pending, w)
      | Ready (Inl e) \<Rightarrow> (Ready (Inl e), drop_receiver ch w)
      | Ready (Inr r) \<Rightarrow>
          (case r of
             ManagerEngine (ReleaseResult result) \<Rightarrow> (Ready result, take_reply ch w)
           | ManagerEngine _ \<Rightarrow> (Ready (Inl UnexpectedReply), take_reply ch w)
           | ManagerAttached session \<Rightarrow>
               (Ready (Inl UnexpectedReply), post (drop_session session) (take_reply ch w))))"

text \<open>A connection that ends drops its session.\<close>

definition end_session :: "nat \<Rightarrow> WorkerEngineManager \<Rightarrow> WorkerEngineManager" where
  "end_session i w =
     (if i < length (sessions w)
      then post (drop_session (sessions w ! i)) (w\<lparr>sessions := remove_at i (sessions w)\<rparr>)
      else w)"

section \<open>Timers\<close>

definition timer_due :: "timer \<Rightarrow> WorkerEngineManager \<Rightarrow> bool" where
  "timer_due t w \<longleftrightarrow> timer_start t + unat (wait_duration t) \<le> clock w"

definition timer_cancelled :: "timer \<Rightarrow> WorkerEngineManager \<Rightarrow> bool" where
  "timer_cancelled t w \<longleftrightarrow> shutdown_token w \<or> is_cancelled (cancel_token t) w"

text \<open>The two ends of a timer task. When both are possible, either may be taken.\<close>

definition timer_fire :: "nat \<Rightarrow> WorkerEngineManager \<Rightarrow> WorkerEngineManager" where
  "timer_fire i w =
     (if i < length (timers w) \<and> timer_due (timers w ! i) w
      then post [timer_msg (timers w ! i)] (w\<lparr>timers := remove_at i (timers w)\<rparr>) else w)"

definition timer_stop :: "nat \<Rightarrow> WorkerEngineManager \<Rightarrow> WorkerEngineManager" where
  "timer_stop i w =
     (if i < length (timers w) \<and> timer_cancelled (timers w ! i) w
      then w\<lparr>timers := remove_at i (timers w)\<rparr> else w)"

section \<open>Database workers\<close>

text \<open>
  The loop of the creation worker: it ends on shutdown, skips empty requests and starts a task for
  every other. \<open>create\<close> gives the results that the PostgreSQL client reports for a request.
\<close>

definition creation_worker_turn ::
  "(CreateDatabases \<Rightarrow> (nat \<times> (PostgresDDLClientError + ReadString)) list)
     \<Rightarrow> WorkerEngineManager \<Rightarrow> WorkerEngineManager" where
  "creation_worker_turn create w =
     (if \<not> creation_worker w then w
      else if shutdown_token w then w\<lparr>creation_worker := False, creation_channel := []\<rparr>
      else case creation_channel w of
             [] \<Rightarrow> w
           | request # rest \<Rightarrow>
               let w1 = w\<lparr>creation_channel := rest\<rparr> in
               if amount request = 0 then w1
               else w1\<lparr>creation_jobs := creation_jobs w1 @
                         [\<lparr>job_request = request, job_results = create request\<rparr>]\<rparr>)"

text \<open>One turn of a creation task: it ends on shutdown or when every result is reported.\<close>

definition creation_job_turn :: "nat \<Rightarrow> WorkerEngineManager \<Rightarrow> panic + WorkerEngineManager" where
  "creation_job_turn i w =
     (if \<not> i < length (creation_jobs w) then Inr w
      else let job = creation_jobs w ! i in
           if shutdown_token w \<or> job_results job = []
           then Inr (w\<lparr>creation_jobs := remove_at i (creation_jobs w)\<rparr>)
           else let (index, result) = hd (job_results job) in
                bind_res (database_id (job_request job) index) (\<lambda>d.
                  Inr (post [DatabaseWorker (CreationFinished d result)]
                    (w\<lparr>creation_jobs := (creation_jobs w)[i := job\<lparr>job_results := tl (job_results job)\<rparr>]\<rparr>))))"

definition cleanup_worker_turn :: "WorkerEngineManager \<Rightarrow> WorkerEngineManager" where
  "cleanup_worker_turn w =
     (if \<not> cleanup_worker w then w
      else if shutdown_token w then w\<lparr>cleanup_worker := False, cleanup_channel := []\<rparr>
      else case cleanup_channel w of
             [] \<Rightarrow> w
           | request # rest \<Rightarrow>
               w\<lparr>cleanup_channel := rest, cleanup_jobs := cleanup_jobs w @ [request]\<rparr>)"

text \<open>\<open>answer\<close> is the result of \<open>drop_database\<close> of the PostgreSQL client.\<close>

definition cleanup_job_turn ::
  "(ReadString \<Rightarrow> PostgresDDLClientError + unit) \<Rightarrow> nat \<Rightarrow> WorkerEngineManager \<Rightarrow> WorkerEngineManager" where
  "cleanup_job_turn answer i w =
     (if \<not> i < length (cleanup_jobs w) then w
      else let request = cleanup_jobs w ! i;
               w1 = w\<lparr>cleanup_jobs := remove_at i (cleanup_jobs w)\<rparr>
           in if shutdown_token w then w1
              else post [DatabaseWorker (CleanupFinished (cleanup_id request)
                           (answer (cleanup_name request)))] w1)"

section \<open>Shutdown\<close>

text \<open>
  \<open>shutdown\<close> cancels the token, waits until every tracked task has ended, and only then asks the
  engine to stop. \<open>tracker_empty\<close> is the condition it waits for.
\<close>

definition begin_shutdown :: "WorkerEngineManager \<Rightarrow> WorkerEngineManager" where
  "begin_shutdown w = w\<lparr>shutdown_token := True\<rparr>"

definition tracker_empty :: "WorkerEngineManager \<Rightarrow> bool" where
  "tracker_empty w \<longleftrightarrow> \<not> creation_worker w \<and> \<not> cleanup_worker w \<and>
     timers w = [] \<and> creation_jobs w = [] \<and> cleanup_jobs w = []"

definition finish_shutdown :: "WorkerEngineManager \<Rightarrow> WorkerEngineManager" where
  "finish_shutdown w = (if shutdown_token w \<and> tracker_empty w then post [Shutdown] w else w)"

end
