(* ===== verification/Engine_Invariant.thy ===== *)
theory Engine_Invariant
  imports Engine
begin

text \<open>
  The invariant of the worker engine and its preservation by every method. It has three parts: the
  lease table against the inventory (every leased database is checked out, and no two leases share
  one), the admission records against the lease table, and the queue of waiting leases against
  both. Preservation is stated as an \<^const>\<open>outcome\<close>: a method keeps the invariant or ends in one
  of the two exhaustion panics, so no other \<open>expect\<close> of the engine can fire.
\<close>

section \<open>The invariant\<close>

definition entry_ok :: "u64 \<Rightarrow> DatabaseInventory \<Rightarrow> LeaseEntry \<Rightarrow> bool" where
  "entry_ok g iv e \<longleftrightarrow>
     place_of iv (db_id (database e)) = None \<and> known iv (db_id (database e)) \<and>
     unat (generation e) \<le> unat g \<and> cancellation e = ChildToken (generation e)"

definition lease_inv :: "(LeaseId, LeaseEntry) fmap \<Rightarrow> u64 \<Rightarrow> DatabaseInventory \<Rightarrow> bool" where
  "lease_inv ls g iv \<longleftrightarrow>
     inventory_inv iv \<and>
     (\<forall>l e. fmlookup ls l = Some e \<longrightarrow> entry_ok g iv e) \<and>
     (\<forall>l l' e e'. fmlookup ls l = Some e \<longrightarrow> fmlookup ls l' = Some e' \<longrightarrow> l \<noteq> l' \<longrightarrow>
        db_id (database e) \<noteq> db_id (database e') \<and> generation e \<noteq> generation e')"

definition record_inv ::
  "(LeaseId, LeaseEntry) fmap \<Rightarrow> (LeaseId, LeaseStatus) fmap \<Rightarrow> WorkerEngineConfig \<Rightarrow> bool" where
  "record_inv ls recs cfg \<longleftrightarrow>
     (\<forall>l. l |\<in>| fmdom ls \<longrightarrow> fmlookup recs l = Some Open) \<and>
     fcard (fmdom recs) \<le> max_lease_records cfg"

definition queue_inv ::
  "LeaseId list \<Rightarrow> (LeaseId, ('c \<times> Instant) list) fmap \<Rightarrow> (LeaseId, LeaseStatus) fmap
     \<Rightarrow> (LeaseId, LeaseEntry) fmap \<Rightarrow> bool" where
  "queue_inv ws gw recs ls \<longleftrightarrow>
     distinct ws \<and> set ws = fset (fmdom gw) \<and>
     (\<forall>l ps. fmlookup gw l = Some ps \<longrightarrow> ps \<noteq> []) \<and>
     (\<forall>l \<in> set ws. fmlookup recs l = Some Open \<and> l |\<notin>| fmdom ls)"

definition engine_inv :: "'c WorkerEngine \<Rightarrow> bool" where
  "engine_inv s \<longleftrightarrow>
     lease_inv (leases s) (next_generation s) (inventory s) \<and>
     record_inv (leases s) (lease_records s) (config s) \<and>
     queue_inv (waiters s) (group_waiters s) (lease_records s) (leases s)"

text \<open>Between two messages no lease waits while a database is ready.\<close>

definition queue_settled :: "'c WorkerEngine \<Rightarrow> bool" where
  "queue_settled s \<longleftrightarrow> ready (inventory s) = [] \<or> waiters s = []"

lemma engine_inv_new: "engine_inv (WorkerEngine_new cfg)"
  by (simp add: engine_inv_def WorkerEngine_new_def lease_inv_def record_inv_def queue_inv_def
      inventory_inv_default)

section \<open>The lease table\<close>

text \<open>
  An inventory extends another when it still holds none of the identities that were checked out
  and has forgotten no name.
\<close>

definition iv_ext :: "DatabaseInventory \<Rightarrow> DatabaseInventory \<Rightarrow> bool" where
  "iv_ext iv iv' \<longleftrightarrow> inventory_inv iv' \<and>
     (\<forall>d. known iv d \<longrightarrow> known iv' d \<and> (place_of iv d = None \<longrightarrow> place_of iv' d = None))"

lemma iv_ext_refl: "inventory_inv iv \<Longrightarrow> iv_ext iv iv"
  by (simp add: iv_ext_def)

lemma lease_inv_inventory: "lease_inv ls g iv \<Longrightarrow> inventory_inv iv"
  by (simp add: lease_inv_def)

lemma lease_inv_ext: "lease_inv ls g iv \<Longrightarrow> iv_ext iv iv' \<Longrightarrow> lease_inv ls g iv'"
  unfolding lease_inv_def iv_ext_def entry_ok_def by blast

lemma lease_inv_conns:
  assumes "lease_inv ls g iv" "fmlookup ls l = Some e"
  shows "lease_inv (fmupd l (e\<lparr>conns := n\<rparr>) ls) g iv"
  using assms unfolding lease_inv_def entry_ok_def by auto

lemma lease_inv_drop:
  assumes "lease_inv ls g iv" "fmlookup ls l = Some e"
    and "inventory_inv iv'" "\<And>d. known iv d \<Longrightarrow> known iv' d"
    and "place_of iv' = (place_of iv)(db_id (database e) := p)"
  shows "lease_inv (fmdrop l ls) g iv'"
  using assms unfolding lease_inv_def entry_ok_def by (auto split: if_splits)

lemma lease_inv_restore:
  assumes "lease_inv ls g iv" "fmlookup ls l = Some e"
  shows "lease_inv (fmdrop l ls) g (return_ready (database e) iv)"
proof (rule lease_inv_drop [OF assms])
  have "inventory_inv iv" "place_of iv (db_id (database e)) = None" "known iv (db_id (database e))"
    using assms by (auto simp: lease_inv_def entry_ok_def)
  then show "inventory_inv (return_ready (database e) iv)"
    and "place_of (return_ready (database e) iv) = (place_of iv)(db_id (database e) := Some Ready)"
    using store.give_back_law by auto
qed (simp add: known_def return_ready_def)

lemma lease_inv_retire:
  assumes "lease_inv ls g iv" "fmlookup ls l = Some e"
  shows "lease_inv (fmdrop l ls) g (snd (retire (database e) iv))"
proof (rule lease_inv_drop [OF assms])
  have "inventory_inv iv" "place_of iv (db_id (database e)) = None" "known iv (db_id (database e))"
    using assms by (auto simp: lease_inv_def entry_ok_def)
  then show "inventory_inv (snd (retire (database e) iv))"
    and "place_of (snd (retire (database e) iv))
           = (place_of iv)(db_id (database e) := Some Retiring)"
    using store.discard_law by auto
qed (simp add: known_def retire_def)

lemma lease_inv_assign:
  assumes "lease_inv ls g iv" "take_ready iv = (Some db, iv')" "l |\<notin>| fmdom ls"
    and "checked_add g 1 = Some g'"
  shows "lease_inv
           (fmupd l \<lparr>database = db, conns = 0, generation = g', cancellation = ChildToken g'\<rparr> ls) g' iv'"
proof -
  note out = store.checkout_law [OF lease_inv_inventory [OF assms(1)] assms(2)]
  have g: "unat g' = unat g + 1"
    using unat_checked_add [OF assms(4)] by simp
  have kn: "known iv' d \<longleftrightarrow> known iv d" for d
    using assms(2) by (auto simp: take_ready_Some known_def)
  have old: "entry_ok g' iv' e \<and> db_id (database e) \<noteq> db_id db \<and> generation e \<noteq> g'"
    if "fmlookup ls l' = Some e" for l' e
  proof -
    have "entry_ok g iv e"
      using assms(1) that by (simp add: lease_inv_def)
    with out g kn show ?thesis by (auto simp: entry_ok_def)
  qed
  have new: "entry_ok g' iv' \<lparr>database = db, conns = 0, generation = g', cancellation = ChildToken g'\<rparr>"
    using out by (simp add: entry_ok_def)
  from assms(1) out new show ?thesis
    unfolding lease_inv_def by (auto dest: old)
qed

section \<open>Growth\<close>

text \<open>Growth touches the inventory, the counters and the calls only.\<close>

definition same_leases :: "'c WorkerEngine \<Rightarrow> 'c WorkerEngine \<Rightarrow> bool" where
  "same_leases s s' \<longleftrightarrow> leases s' = leases s \<and> next_generation s' = next_generation s"

definition same_queue :: "'c WorkerEngine \<Rightarrow> 'c WorkerEngine \<Rightarrow> bool" where
  "same_queue s s' \<longleftrightarrow> waiters s' = waiters s \<and> group_waiters s' = group_waiters s \<and>
     lease_records s' = lease_records s \<and> config s' = config s"

lemma cancel_batch_eq:
  "batch_fits request \<Longrightarrow> set is \<subseteq> {..<amount request} \<Longrightarrow>
     cancel_batch request is iv
       = Inr (fold (\<lambda>d iv. snd (cancel_creation d iv)) (map (batch_id request) is) iv)"
  by (induction "is" arbitrary: iv) (auto simp: database_id_Inr)

lemma cancel_fold_frame:
  "ready (fold (\<lambda>d iv. snd (cancel_creation d iv)) ds iv) = ready iv"
  "retiring (fold (\<lambda>d iv. snd (cancel_creation d iv)) ds iv) = retiring iv"
  "next_database_id (fold (\<lambda>d iv. snd (cancel_creation d iv)) ds iv) = next_database_id iv"
  by (induction ds arbitrary: iv) (auto simp: cancel_creation_def)

lemma iv_ext_reserved:
  assumes "inventory_inv iv" "0 < n" "unat (next_database_id iv) + n < 2 ^ 64"
  shows "iv_ext iv (reserved iv n)"
  using assms inventory_inv_reserved place_of_reserved known_not_reserved known_reserved
  by (simp add: iv_ext_def)

lemma cancel_batch_reserved:
  assumes "inventory_inv iv" "0 < n" "unat (next_database_id iv) + n < 2 ^ 64"
  obtains iv' where "cancel_batch (next_request iv n) [0..<n] (reserved iv n) = Inr iv'"
    and "iv_ext iv iv'" "place_of iv' = place_of iv" "ready iv' = ready iv"
proof -
  let ?req = "next_request iv n"
  let ?iv' = "fold (\<lambda>d iv. snd (cancel_creation d iv)) (map (batch_id ?req) [0..<n]) (reserved iv n)"
  have fits: "batch_fits ?req"
    using assms by (simp add: next_request_fits)
  have eq: "cancel_batch ?req [0..<n] (reserved iv n) = Inr ?iv'"
    by (rule cancel_batch_eq [OF fits]) auto
  have "set (map (batch_id ?req) [0..<n]) = batch_ids ?req"
    by (auto simp: batch_ids_def)
  from store.reserve_give_up [OF assms(1,2) reserve_creations_fits [OF assms(2,3)] this]
  have wf: "inventory_inv ?iv'" and place: "place_of ?iv' = place_of iv" .
  have "known ?iv' d" if "known iv d" for d
    using known_reserved [OF assms(3) that] by (simp add: known_def cancel_fold_frame)
  with wf place have "iv_ext iv ?iv'"
    by (simp add: iv_ext_def)
  from that [OF eq this place] show ?thesis
    by (simp add: cancel_fold_frame)
qed

text \<open>The number of databases that growth finds missing and the number it asks for.\<close>

definition growth_deficit :: "'c env \<Rightarrow> 'c WorkerEngine \<Rightarrow> nat" where
  "growth_deficit env s =
     fcard (waiting_leases env s) + unat (starvation_threshold (config s)) + 1 - supply_len (inventory s)"

definition growth_count :: "'c env \<Rightarrow> 'c WorkerEngine \<Rightarrow> nat" where
  "growth_count env s =
     div_ceil (growth_deficit env s) (unat (grow_batch_size (config s)))
       * unat (grow_batch_size (config s))"

lemma grow_unfold:
  "grow env s =
     (if unat (grow_batch_size (config s)) = 0 \<or> growth_deficit env s = 0 then Inr s
      else bind_res (reserve_creations (growth_count env s) (inventory s)) (\<lambda>(r, iv).
        case r of
          None \<Rightarrow> Inl GrowthCountZero
        | Some request \<Rightarrow>
            let s1 = record_call (RequestCreation request (creation_open env request)) (s\<lparr>inventory := iv\<rparr>)
            in if creation_open env request then Inr s1
               else bind_res (cancel_batch request [0..<amount request] iv) (\<lambda>iv'.
                 case u64_try_from (growth_count env s) of
                   None \<Rightarrow> Inl DatabaseIdentityExhausted
                 | Some k \<Rightarrow> Inr (s1\<lparr>inventory := iv', counters := (counters s)
                     \<lparr>unable_to_start_database_slots := unable_to_start_database_slots (counters s) + k\<rparr>\<rparr>))))"
  unfolding grow_def growth_count_def growth_deficit_def Let_def
  by (simp add: record_call_def cong: if_cong option.case_cong)

lemma growth_count_pos:
  "\<not> (unat (grow_batch_size (config s)) = 0 \<or> growth_deficit env s = 0) \<Longrightarrow> 0 < growth_count env s"
  using div_ceil_pos [of "unat (grow_batch_size (config s))" "growth_deficit env s"]
  by (simp add: growth_count_def)

lemma grow_cases:
  fixes s :: "'c WorkerEngine" and env :: "'c env"
  defines "n \<equiv> growth_count env s"
    and "req \<equiv> next_request (inventory s) (growth_count env s)"
  assumes "inventory_inv (inventory s)"
  obtains (idle) "unat (grow_batch_size (config s)) = 0 \<or> growth_deficit env s = 0" "grow env s = Inr s"
  | (exhausted) "0 < n" "2 ^ 64 \<le> unat (next_database_id (inventory s)) + n"
      "grow env s = Inl DatabaseIdentityExhausted"
  | (requested) "0 < n" "unat (next_database_id (inventory s)) + n < 2 ^ 64" "creation_open env req"
      "grow env s = Inr (s\<lparr>inventory := reserved (inventory s) n,
                            calls := calls s @ [RequestCreation req True]\<rparr>)"
  | (refused) iv' where "0 < n" "unat (next_database_id (inventory s)) + n < 2 ^ 64"
      "\<not> creation_open env req" "iv_ext (inventory s) iv'" "place_of iv' = place_of (inventory s)"
      "ready iv' = ready (inventory s)"
      "grow env s = Inr (s\<lparr>inventory := iv', calls := calls s @ [RequestCreation req False],
         counters := (counters s)\<lparr>unable_to_start_database_slots :=
           unable_to_start_database_slots (counters s) + of_nat n\<rparr>\<rparr>)"
proof (cases "unat (grow_batch_size (config s)) = 0 \<or> growth_deficit env s = 0")
  case True
  with idle show thesis by (simp add: grow_unfold)
next
  case False
  then have pos: "0 < n" unfolding n_def by (rule growth_count_pos)
  show thesis
  proof (cases "unat (next_database_id (inventory s)) + n < 2 ^ 64")
    case over: False
    with False exhausted pos show thesis
      unfolding grow_unfold n_def [symmetric]
      by (simp add: reserve_creations_exhausted [OF pos])
  next
    case fits: True
    obtain iv' where iv': "cancel_batch req [0..<n] (reserved (inventory s) n) = Inr iv'"
      "iv_ext (inventory s) iv'" "place_of iv' = place_of (inventory s)" "ready iv' = ready (inventory s)"
      unfolding req_def n_def [symmetric] using cancel_batch_reserved [OF assms(3) pos fits] by blast
    have eq: "grow env s =
        (if creation_open env req
         then Inr (s\<lparr>inventory := reserved (inventory s) n, calls := calls s @ [RequestCreation req True]\<rparr>)
         else Inr (s\<lparr>inventory := iv', calls := calls s @ [RequestCreation req False],
           counters := (counters s)\<lparr>unable_to_start_database_slots :=
             unable_to_start_database_slots (counters s) + of_nat n\<rparr>\<rparr>))"
      using False fits iv'(1)
      unfolding grow_unfold n_def [symmetric] req_def reserve_creations_fits [OF pos fits]
      by (simp add: record_call_def u64_try_from_def Let_def)
    show thesis
    proof (cases "creation_open env req")
      case True
      with requested pos fits eq show thesis by simp
    next
      case closed: False
      with refused [OF pos fits closed iv'(2-4)] eq show thesis by simp
    qed
  qed
qed

lemma grow_outcome:
  assumes "inventory_inv (inventory s)"
  shows "outcome exhaustion (\<lambda>s'. same_leases s s' \<and> same_queue s s' \<and>
           iv_ext (inventory s) (inventory s') \<and> ready (inventory s') = ready (inventory s)) (grow env s)"
  using assms
  by (cases rule: grow_cases [OF assms, where env = env])
    (simp_all add: same_leases_def same_queue_def iv_ext_refl iv_ext_reserved)

lemma engine_inv_ext:
  assumes "engine_inv s" "same_leases s s'" "same_queue s s'" "iv_ext (inventory s) (inventory s')"
  shows "engine_inv s'"
  using assms lease_inv_ext [of "leases s" "next_generation s" "inventory s" "inventory s'"]
  by (simp add: engine_inv_def same_leases_def same_queue_def)

lemma engine_inv_inventory: "engine_inv s \<Longrightarrow> inventory_inv (inventory s)"
  by (auto simp: engine_inv_def dest: lease_inv_inventory)

lemma engine_inv_grow:
  assumes "engine_inv s"
  shows "outcome exhaustion (\<lambda>s'. engine_inv s' \<and> same_leases s s' \<and> same_queue s s' \<and>
           ready (inventory s') = ready (inventory s)) (grow env s)"
  using grow_outcome [OF engine_inv_inventory [OF assms]]
  by (rule outcome_mono) (use assms engine_inv_ext in blast)

section \<open>Attaching one consumer\<close>

lemma fmupd_same: "fmlookup m k = Some v \<Longrightarrow> fmupd k v m = m"
  by (rule fmap_ext) auto

lemma checked_add_one:
  "checked_add n 1 = (if n = - 1 then None else Some (n + 1))" for n :: u16
proof -
  have "unat (- 1 :: u16) = 65535" by (simp add: unsigned_minus_1_eq_mask mask_eq_exp_minus_1)
  moreover have "unat n < 2 ^ LENGTH(16)" by (rule unsigned_less)
  ultimately have "unat n + 1 < 2 ^ 16 \<longleftrightarrow> unat n \<noteq> unat (- 1 :: u16)" by auto
  then show ?thesis by (simp add: checked_add_def word_unat_eq_iff)
qed

definition attach_msg :: "LeaseEntry \<Rightarrow> ReadString \<Rightarrow> ConsumerReply" where
  "attach_msg e name =
     (if conns e = - 1 then FailedToAttach else Attached name (generation e) (cancellation e))"

definition attach_conns :: "'c env \<Rightarrow> 'c \<Rightarrow> LeaseEntry \<Rightarrow> ReadString \<Rightarrow> u16" where
  "attach_conns env c e name =
     (if conns e \<noteq> - 1 \<and> accepts env c (attach_msg e name) then conns e + 1 else conns e)"

lemma reply_attached_eq:
  assumes "fmlookup (leases s) l = Some e"
  shows "reply_attached env l name c s =
           Inr (s\<lparr>leases := fmupd l (e\<lparr>conns := attach_conns env c e name\<rparr>) (leases s),
                  calls := calls s @ [Reply c (attach_msg e name) (accepts env c (attach_msg e name))]\<rparr>)"
  using assms
  by (auto simp: reply_attached_def checked_add_one attach_conns_def attach_msg_def send_reply_def
      record_call_def fmupd_same)

lemma assign_database_eq:
  assumes "checked_add (next_generation s) 1 = Some g"
  shows "assign_database env l db s =
           Inr (db_name db,
             s\<lparr>next_generation := g,
               leases := fmupd l \<lparr>database = db, conns = 0, generation = g,
                                   cancellation = ChildToken g\<rparr> (leases s),
               calls := calls s @
                 (if 0 < lease_claim_timeout_ms (config s)
                  then [SendDelayed l g (ucast (lease_claim_timeout_ms (config s))) (ChildToken g)
                          (timer_ok env l g)]
                  else [])\<rparr>)"
  using assms by (simp add: assign_database_def record_call_def Let_def)

definition others_same :: "LeaseId \<Rightarrow> 'c WorkerEngine \<Rightarrow> 'c WorkerEngine \<Rightarrow> bool" where
  "others_same l s s' \<longleftrightarrow> (\<forall>l'. l' \<noteq> l \<longrightarrow> fmlookup (leases s') l' = fmlookup (leases s) l')"

text \<open>What a method that serves lease \<open>l\<close> may change.\<close>

definition serves :: "LeaseId \<Rightarrow> 'c WorkerEngine \<Rightarrow> 'c WorkerEngine \<Rightarrow> bool" where
  "serves l s s' \<longleftrightarrow> lease_inv (leases s') (next_generation s') (inventory s') \<and>
     same_queue s s' \<and> others_same l s s'"

lemma serves_refl: "lease_inv (leases s) (next_generation s) (inventory s) \<Longrightarrow> serves l s s"
  by (simp add: serves_def same_queue_def others_same_def)

lemma serves_trans: "serves l s s' \<Longrightarrow> serves l s' s'' \<Longrightarrow> serves l s s''"
  by (simp add: serves_def same_queue_def others_same_def)

lemma serves_inv: "serves l s s' \<Longrightarrow> lease_inv (leases s') (next_generation s') (inventory s')"
  by (simp add: serves_def)

lemma serves_reply:
  assumes "lease_inv (leases s) (next_generation s) (inventory s)" "fmlookup (leases s) l = Some e"
  shows "\<exists>s'. reply_attached env l name c s = Inr s' \<and> serves l s s' \<and> l |\<in>| fmdom (leases s')"
  using assms
  by (auto simp: reply_attached_eq serves_def same_queue_def others_same_def lease_inv_conns)

lemma serves_assign:
  assumes "lease_inv (leases s) (next_generation s) (inventory s)" "l |\<notin>| fmdom (leases s)"
    and "take_ready (inventory s) = (Some db, iv)"
  shows "outcome exhaustion (\<lambda>(name, s'). name = db_name db \<and> serves l s s' \<and> inventory s' = iv \<and>
           fmlookup (leases s') l = Some \<lparr>database = db, conns = 0, generation = next_generation s',
              cancellation = ChildToken (next_generation s')\<rparr>)
           (assign_database env l db (s\<lparr>inventory := iv\<rparr>))"
proof (cases "checked_add (next_generation s) 1")
  case None
  then show ?thesis by (simp add: assign_database_def)
next
  case (Some g)
  with lease_inv_assign [OF assms(1,3,2)] show ?thesis
    by (auto simp: assign_database_eq serves_def same_queue_def others_same_def)
qed

lemma serves_pick:
  assumes "lease_inv (leases s) (next_generation s) (inventory s)"
    and "l |\<notin>| fmdom (leases s) \<Longrightarrow> ready (inventory s) \<noteq> []"
  shows "outcome exhaustion (\<lambda>(name, s'). serves l s s' \<and> l |\<in>| fmdom (leases s'))
          (case fmlookup (leases s) l of
             Some entry \<Rightarrow> Inr (db_name (database entry), s)
           | None \<Rightarrow> (case take_ready (inventory s) of
                  (None, iv) \<Rightarrow> Inl DispatchRequiresReady
                | (Some db, iv) \<Rightarrow> assign_database env l db (s\<lparr>inventory := iv\<rparr>)))"
proof (cases "fmlookup (leases s) l")
  case None
  then have out: "l |\<notin>| fmdom (leases s)" by (simp add: fmlookup_fmdom)
  then obtain db iv where t: "take_ready (inventory s) = (Some db, iv)"
    using assms(2) by (cases "ready (inventory s)") (auto simp: take_ready_def)
  from serves_assign [OF assms(1) out t, of env]
  have "outcome exhaustion (\<lambda>(name, s'). serves l s s' \<and> l |\<in>| fmdom (leases s'))
          (assign_database env l db (s\<lparr>inventory := iv\<rparr>))"
    by (rule outcome_mono) (auto simp: fmlookup_in_fmdom)
  with None t show ?thesis by simp
next
  case (Some e)
  with assms(1) show ?thesis by (simp add: serves_refl fmlookup_in_fmdom)
qed

lemma serves_dispatch_replies:
  assumes "lease_inv (leases s) (next_generation s) (inventory s)"
    and "l |\<notin>| fmdom (leases s) \<Longrightarrow> ready (inventory s) \<noteq> []"
  shows "outcome exhaustion (serves l s) (dispatch_replies env l replies s)"
  using assms
proof (induction replies arbitrary: s)
  case Nil
  then show ?case by (simp add: serves_refl)
next
  case (Cons r rest)
  obtain c t where r: "r = (c, t)" by (cases r)
  show ?case
  proof (cases "lease_claim_timeout_ms (config s) > 0 \<and>
                elapsed_ms env t > unat (lease_claim_timeout_ms (config s))")
    case True
    let ?s = "s\<lparr>counters := (counters s)\<lparr>waiter_timeouts := waiter_timeouts (counters s) + 1\<rparr>\<rparr>"
    from Cons.IH [of ?s] Cons.prems
    have "outcome exhaustion (serves l ?s) (dispatch_replies env l rest ?s)" by simp
    with True show ?thesis
      by (simp add: r serves_def [abs_def] same_queue_def others_same_def)
  next
    case False
    have "outcome exhaustion (serves l s)
            (bind_res (reply_attached env l name c s1) (dispatch_replies env l rest))"
      if s1: "serves l s s1" "l |\<in>| fmdom (leases s1)" for name s1
    proof -
      from s1(2) obtain e where "fmlookup (leases s1) l = Some e" by (auto simp: fmlookup_fmdom)
      from serves_reply [OF serves_inv [OF s1(1)] this, of env name c]
      obtain s2 where s2: "reply_attached env l name c s1 = Inr s2" "serves l s1 s2"
        "l |\<in>| fmdom (leases s2)"
        by blast
      from Cons.IH [OF serves_inv [OF s2(2)]] s2(3)
      have "outcome exhaustion (serves l s2) (dispatch_replies env l rest s2)" by simp
      then have "outcome exhaustion (serves l s) (dispatch_replies env l rest s2)"
        by (rule outcome_mono) (use s1(1) s2(2) serves_trans in blast)
      with s2(1) show ?thesis by simp
    qed
    then show ?thesis
      unfolding r dispatch_replies.simps if_not_P [OF False]
      by (intro outcome_bind [OF serves_pick [OF Cons.prems]]) auto
  qed
qed

section \<open>Serving the queue\<close>

lemma serves_restore:
  assumes "lease_inv (leases s) (next_generation s) (inventory s)"
  shows "\<exists>b s'. restore_unclaimed_database l s = Inr (b, s') \<and> serves l s s' \<and>
           (b \<longrightarrow> l |\<notin>| fmdom (leases s')) \<and> (\<not> b \<longrightarrow> s' = s)"
  using assms
  by (auto simp: restore_unclaimed_database_def serves_def same_queue_def others_same_def
      record_call_def lease_inv_restore Let_def split: option.splits if_splits)

lemma record_call_frame [simp]:
  "leases (record_call c s) = leases s" "lease_records (record_call c s) = lease_records s"
  "next_generation (record_call c s) = next_generation s" "config (record_call c s) = config s"
  "group_waiters (record_call c s) = group_waiters s" "counters (record_call c s) = counters s"
  "inventory (record_call c s) = inventory s" "calls (record_call c s) = calls s @ [c]"
  by (simp_all add: record_call_def)

lemma send_reply_frame [simp]:
  "leases (snd (send_reply env c m s)) = leases s"
  "lease_records (snd (send_reply env c m s)) = lease_records s"
  "next_generation (snd (send_reply env c m s)) = next_generation s"
  "config (snd (send_reply env c m s)) = config s"
  "group_waiters (snd (send_reply env c m s)) = group_waiters s"
  "counters (snd (send_reply env c m s)) = counters s"
  "inventory (snd (send_reply env c m s)) = inventory s"
  "calls (snd (send_reply env c m s)) = calls s @ [Reply c m (accepts env c m)]"
  by (simp_all add: send_reply_def)

lemma reject_all_frame [simp]:
  "leases (reject_all env e ws s) = leases s"
  "lease_records (reject_all env e ws s) = lease_records s"
  "next_generation (reject_all env e ws s) = next_generation s"
  "config (reject_all env e ws s) = config s"
  "group_waiters (reject_all env e ws s) = group_waiters s"
  "counters (reject_all env e ws s) = counters s"
  "inventory (reject_all env e ws s) = inventory s"
  by (induction ws arbitrary: s) (auto simp: reject_all_def)

lemma calls_reject_all:
  "calls (reject_all env e ws s) =
     calls s @ map (\<lambda>(c, t). Reply c (AttachRejected e) (accepts env c (AttachRejected e))) ws"
  by (induction ws arbitrary: s) (auto simp: reject_all_def)

lemma queue_inv_pop:
  assumes "queue_inv (l # rest) gw recs ls"
  shows "queue_inv rest (fmdrop l gw) recs ls" "fmlookup recs l = Some Open" "l |\<notin>| fmdom ls"
    "\<exists>ps. fmlookup gw l = Some ps \<and> ps \<noteq> []"
proof -
  from assms have "l |\<in>| fmdom gw" by (auto simp: queue_inv_def)
  with assms show "\<exists>ps. fmlookup gw l = Some ps \<and> ps \<noteq> []"
    by (auto simp: queue_inv_def fmlookup_fmdom)
qed (use assms in \<open>auto simp: queue_inv_def\<close>)

lemma engine_inv_serves:
  assumes "engine_inv s" "serves l s s'" "l \<notin> set (waiters s)" "fmlookup (lease_records s) l = Some Open"
  shows "engine_inv s'"
proof -
  have dom: "x |\<in>| fmdom (leases s') \<Longrightarrow> x = l \<or> x |\<in>| fmdom (leases s)" for x
    using assms(2) by (auto simp: serves_def others_same_def fmlookup_fmdom)
  from assms show ?thesis
    by (auto simp: engine_inv_def serves_def same_queue_def record_inv_def queue_inv_def dest!: dom)
qed

text \<open>
  The one path of a turn of \<open>dispatch_waiters\<close> that the invariant leaves: the lease at the head
  of the queue has waiting consumers, is open and has no database yet.
\<close>

definition popped :: "'c WorkerEngine \<Rightarrow> LeaseId \<Rightarrow> LeaseId list \<Rightarrow> 'c WorkerEngine" where
  "popped s l rest = s\<lparr>waiters := rest, group_waiters := fmdrop l (group_waiters s)\<rparr>"

definition serve_group ::
  "'c env \<Rightarrow> LeaseId \<Rightarrow> ('c \<times> Instant) list \<Rightarrow> 'c WorkerEngine \<Rightarrow> panic + 'c WorkerEngine" where
  "serve_group env l ps s =
     bind_res (dispatch_replies env l ps s) (\<lambda>s1.
       bind_res (restore_unclaimed_database l s1) (\<lambda>(b, s2). Inr s2))"

lemma dispatch_waiters_turn:
  assumes "engine_inv s" "ready (inventory s) \<noteq> []" "waiters s = l # rest"
  obtains ps where "fmlookup (group_waiters s) l = Some ps" "ps \<noteq> []"
    and "dispatch_waiters env s =
           bind_res (serve_group env l ps (popped s l rest)) (dispatch_waiters env)"
proof -
  have q: "queue_inv (l # rest) (group_waiters s) (lease_records s) (leases s)"
    using assms by (simp add: engine_inv_def)
  obtain ps where ps: "fmlookup (group_waiters s) l = Some ps" "ps \<noteq> []"
    using queue_inv_pop(4) [OF q] by blast
  have "dispatch_waiters env s =
          bind_res (serve_group env l ps (popped s l rest)) (dispatch_waiters env)"
    using assms ps queue_inv_pop(2,3) [OF q]
    by (subst dispatch_waiters.simps)
      (auto simp: serve_group_def popped_def Let_def bind_res_def split: sum.splits prod.splits)
  with ps that show thesis by blast
qed

lemma engine_inv_popped:
  assumes "engine_inv s" "waiters s = l # rest"
  shows "engine_inv (popped s l rest)" "l \<notin> set (waiters (popped s l rest))"
    "fmlookup (lease_records (popped s l rest)) l = Some Open" "l |\<notin>| fmdom (leases (popped s l rest))"
  using assms queue_inv_pop [of l rest "group_waiters s" "lease_records s" "leases s"]
  by (auto simp: engine_inv_def popped_def) (auto simp: queue_inv_def)

lemma serves_group:
  assumes "lease_inv (leases s) (next_generation s) (inventory s)"
    and "l |\<notin>| fmdom (leases s) \<Longrightarrow> ready (inventory s) \<noteq> []"
  shows "outcome exhaustion (serves l s) (serve_group env l ps s)"
  unfolding serve_group_def
proof (rule outcome_bind [OF serves_dispatch_replies [OF assms]])
  fix s1 assume s1: "serves l s s1"
  from serves_restore [OF serves_inv [OF this], of l]
  obtain b s2 where "restore_unclaimed_database l s1 = Inr (b, s2)" "serves l s1 s2" by blast
  with s1 serves_trans show "outcome exhaustion (serves l s)
      (bind_res (restore_unclaimed_database l s1) (\<lambda>(b, s2). Inr s2))"
    by fastforce
qed

lemma engine_inv_turn:
  assumes "engine_inv s" "ready (inventory s) \<noteq> []" "waiters s = l # rest"
  shows "outcome exhaustion (\<lambda>s'. engine_inv s' \<and> waiters s' = rest \<and>
           serves l (popped s l rest) s') (serve_group env l ps (popped s l rest))"
proof -
  note p = engine_inv_popped [OF assms(1,3)]
  have "outcome exhaustion (serves l (popped s l rest)) (serve_group env l ps (popped s l rest))"
    using p(1) assms(2) by (intro serves_group) (simp_all add: engine_inv_def popped_def)
  then show ?thesis
  proof (rule outcome_mono)
    fix s' assume sv: "serves l (popped s l rest) s'"
    then have "waiters s' = rest" by (simp add: serves_def same_queue_def popped_def)
    with sv engine_inv_serves [OF p(1) sv p(2,3)]
    show "engine_inv s' \<and> waiters s' = rest \<and> serves l (popped s l rest) s'" by simp
  qed
qed

text \<open>What serving the queue leaves alone: the records, the configuration, the order of the queue.\<close>

definition queue_served :: "'c WorkerEngine \<Rightarrow> 'c WorkerEngine \<Rightarrow> bool" where
  "queue_served s s' \<longleftrightarrow> lease_records s' = lease_records s \<and> config s' = config s \<and>
     (\<exists>served. waiters s = served @ waiters s' \<and>
        (\<forall>l. l \<notin> set served \<longrightarrow> fmlookup (leases s') l = fmlookup (leases s) l \<and>
               fmlookup (group_waiters s') l = fmlookup (group_waiters s) l))"

lemma queue_served_refl: "queue_served s s"
  by (simp add: queue_served_def)

lemma queue_served_turn:
  assumes "waiters s = l # rest" "serves l (popped s l rest) s1" "queue_served s1 s2"
  shows "queue_served s s2"
proof -
  from assms(2) have s1: "waiters s1 = rest" "lease_records s1 = lease_records s" "config s1 = config s"
    "group_waiters s1 = fmdrop l (group_waiters s)"
    "\<And>l'. l' \<noteq> l \<Longrightarrow> fmlookup (leases s1) l' = fmlookup (leases s) l'"
    by (auto simp: serves_def same_queue_def others_same_def popped_def)
  from assms(3) obtain served where "rest = served @ waiters s2"
    "\<And>l'. l' \<notin> set served \<Longrightarrow> fmlookup (leases s2) l' = fmlookup (leases s1) l' \<and>
       fmlookup (group_waiters s2) l' = fmlookup (group_waiters s1) l'"
    "lease_records s2 = lease_records s1" "config s2 = config s1"
    using s1(1) by (auto simp: queue_served_def)
  with s1 assms(1) show ?thesis
    unfolding queue_served_def by (intro conjI exI [of _ "l # served"]) auto
qed

lemma engine_inv_dispatch_waiters:
  assumes "engine_inv s"
  shows "outcome exhaustion (\<lambda>s'. engine_inv s' \<and> queue_settled s' \<and> queue_served s s')
           (dispatch_waiters env s)"
  using assms
proof (induction "length (waiters s)" arbitrary: s rule: less_induct)
  case less
  show ?case
  proof (cases "ready (inventory s) = [] \<or> waiters s = []")
    case True
    then have "dispatch_waiters env s = Inr s"
      by (subst dispatch_waiters.simps) auto
    with less.prems True show ?thesis by (simp add: queue_settled_def queue_served_refl)
  next
    case False
    then obtain l rest where w: "ready (inventory s) \<noteq> []" "waiters s = l # rest"
      by (cases "waiters s") auto
    obtain ps where eq: "dispatch_waiters env s =
        bind_res (serve_group env l ps (popped s l rest)) (dispatch_waiters env)"
      using dispatch_waiters_turn [OF less.prems w] by blast
    show ?thesis
      unfolding eq
    proof (rule outcome_bind [OF engine_inv_turn [OF less.prems w]])
      fix s1 assume s1: "engine_inv s1 \<and> waiters s1 = rest \<and> serves l (popped s l rest) s1"
      then have "outcome exhaustion (\<lambda>s'. engine_inv s' \<and> queue_settled s' \<and> queue_served s1 s')
                   (dispatch_waiters env s1)"
        using less.hyps w(2) by simp
      then show "outcome exhaustion (\<lambda>s'. engine_inv s' \<and> queue_settled s' \<and> queue_served s s')
                   (dispatch_waiters env s1)"
        by (rule outcome_mono) (use s1 w(2) queue_served_turn in blast)
    qed
  qed
qed

text \<open>Induction over the loop that serves the queue.\<close>

lemma dispatch_waiters_loop [consumes 2, case_names idle turn]:
  assumes "engine_inv s" "dispatch_waiters env s = Inr s'"
    and "\<And>s. dispatch_waiters env s = Inr s \<Longrightarrow> R s s"
    and "\<And>s l rest ps s1. engine_inv s \<Longrightarrow> waiters s = l # rest \<Longrightarrow> fmlookup (group_waiters s) l = Some ps \<Longrightarrow>
      serve_group env l ps (popped s l rest) = Inr s1 \<Longrightarrow> serves l (popped s l rest) s1 \<Longrightarrow> ready (inventory s) \<noteq> [] \<Longrightarrow>
      R s1 s' \<Longrightarrow> R s s'"
  shows "R s s'"
  using assms(1,2)
proof (induction "length (waiters s)" arbitrary: s rule: less_induct)
  case less
  show ?case
  proof (cases "ready (inventory s) = [] \<or> waiters s = []")
    case True
    then have "dispatch_waiters env s = Inr s" by (subst dispatch_waiters.simps) auto
    with less.prems assms(3) show ?thesis by simp
  next
    case False
    then obtain l rest where w: "ready (inventory s) \<noteq> []" "waiters s = l # rest" by (cases "waiters s") auto
    obtain ps where ps: "fmlookup (group_waiters s) l = Some ps"
      and eq: "dispatch_waiters env s = bind_res (serve_group env l ps (popped s l rest)) (dispatch_waiters env)"
      using dispatch_waiters_turn [OF less.prems(1) w] by blast
    obtain s1 where s1: "serve_group env l ps (popped s l rest) = Inr s1" "dispatch_waiters env s1 = Inr s'"
      using less.prems(2) unfolding eq by (rule bind_resE)
    have sv: "engine_inv s1" "length (waiters s1) < length (waiters s)" "serves l (popped s l rest) s1"
      using outcome_InrD [OF engine_inv_turn [OF less.prems(1) w] s1(1)] w(2) by simp_all
    from assms(4) [OF less.prems(1) w(2) ps s1(1) sv(3) w(1) less.hyps [OF sv(2,1) s1(2)]] show ?thesis .
  qed
qed

section \<open>Retiring and releasing a lease\<close>

text \<open>The invariant of a state whose lease \<open>l\<close> is about to leave the lease table.\<close>

definition engine_inv_leaving :: "LeaseId \<Rightarrow> 'c WorkerEngine \<Rightarrow> bool" where
  "engine_inv_leaving l s \<longleftrightarrow>
     lease_inv (leases s) (next_generation s) (inventory s) \<and>
     record_inv (fmdrop l (leases s)) (lease_records s) (config s) \<and>
     queue_inv (waiters s) (group_waiters s) (lease_records s) (fmdrop l (leases s))"

lemma engine_inv_leaving: "engine_inv s \<Longrightarrow> engine_inv_leaving l s"
  by (auto simp: engine_inv_def engine_inv_leaving_def record_inv_def queue_inv_def)

text \<open>The state in which \<open>retire_lease\<close> calls \<open>grow\<close>.\<close>

definition retired_state :: "'c env \<Rightarrow> LeaseId \<Rightarrow> LeaseEntry \<Rightarrow> 'c WorkerEngine \<Rightarrow> 'c WorkerEngine" where
  "retired_state env l e s =
     (let req = \<lparr>cleanup_id = db_id (database e), cleanup_name = db_name (database e)\<rparr> in
      s\<lparr>leases := fmdrop l (leases s), inventory := snd (retire (database e) (inventory s)),
        calls := calls s @ [CancelToken (cancellation e), RequestCleanup req (cleanup_open env req)]\<rparr>)"

lemma retire_lease_eq:
  "fmlookup (leases s) l = Some e \<Longrightarrow> retire_lease env l s = grow env (retired_state env l e s)"
  by (simp add: retire_lease_def retired_state_def retire_def record_call_def Let_def)

lemma engine_inv_retired_state:
  assumes "engine_inv_leaving l s" "fmlookup (leases s) l = Some e"
  shows "engine_inv (retired_state env l e s)"
  using assms lease_inv_retire [of "leases s" "next_generation s" "inventory s" l e]
  by (simp add: engine_inv_leaving_def engine_inv_def retired_state_def Let_def)

lemma fmdrop_absent: "fmlookup m k = None \<Longrightarrow> fmdrop k m = m"
  by (rule fmap_ext) auto

lemma engine_inv_retire_lease:
  assumes "engine_inv_leaving l s"
  shows "outcome exhaustion (\<lambda>s'. engine_inv s' \<and> leases s' = fmdrop l (leases s) \<and>
           next_generation s' = next_generation s \<and> same_queue s s' \<and>
           ready (inventory s') = ready (inventory s)) (retire_lease env l s)"
proof (cases "fmlookup (leases s) l")
  case None
  with assms show ?thesis
    by (simp add: retire_lease_def fmdrop_absent engine_inv_leaving_def engine_inv_def same_queue_def)
next
  case (Some e)
  from engine_inv_grow [OF engine_inv_retired_state [OF assms Some], of env] show ?thesis
    unfolding retire_lease_eq [OF Some]
    by (rule outcome_mono)
      (auto simp: same_leases_def same_queue_def retired_state_def retire_def Let_def)
qed

lemma admit_lease_cases:
  obtains (known_lease) st where "fmlookup (lease_records s) l = Some st" "admit_lease l s = (Inr st, s)"
  | (full) "fmlookup (lease_records s) l = None"
      "max_lease_records (config s) \<le> fcard (fmdom (lease_records s))"
      "admit_lease l s = (Inl ReleaseLeaseRecordLimitReached, s)"
  | (fresh) "fmlookup (lease_records s) l = None"
      "fcard (fmdom (lease_records s)) < max_lease_records (config s)"
      "admit_lease l s = (Inr Open, s\<lparr>lease_records := fmupd l Open (lease_records s)\<rparr>)"
proof (cases "fmlookup (lease_records s) l")
  case None
  with full fresh show thesis
    by (cases "max_lease_records (config s) \<le> fcard (fmdom (lease_records s))")
      (simp_all add: admit_lease_def)
qed (simp add: known_lease admit_lease_def)

lemma queue_inv_admit: "queue_inv ws gw recs ls \<Longrightarrow> queue_inv ws gw (fmupd l Open recs) ls"
  unfolding queue_inv_def by simp

lemma record_inv_admit:
  "record_inv ls recs cfg \<Longrightarrow> fcard (fmdom recs) < max_lease_records cfg \<Longrightarrow>
     record_inv ls (fmupd l Open recs) cfg"
  unfolding record_inv_def by (simp add: fcard_finsert_if)

lemma engine_inv_admit:
  assumes "engine_inv s" "admit_lease l s = (r, s1)"
  shows "engine_inv s1" "r = Inr st \<Longrightarrow> fmlookup (lease_records s1) l = Some st"
    "leases s1 = leases s" "inventory s1 = inventory s" "waiters s1 = waiters s"
    "group_waiters s1 = group_waiters s" "calls s1 = calls s" "config s1 = config s"
    "next_generation s1 = next_generation s" "counters s1 = counters s"
proof -
  show "engine_inv s1"
    using assms
    by (cases l s rule: admit_lease_cases)
      (auto simp: engine_inv_def record_inv_admit queue_inv_admit)
qed (use assms(2) in \<open>cases l s rule: admit_lease_cases; auto\<close>)+

text \<open>The state in which \<open>release_lease\<close> calls \<open>retire_lease\<close>.\<close>

definition closed_state :: "'c env \<Rightarrow> LeaseId \<Rightarrow> 'c WorkerEngine \<Rightarrow> 'c WorkerEngine" where
  "closed_state env l s =
     (let ws = (case fmlookup (group_waiters s) l of None \<Rightarrow> [] | Some ws \<Rightarrow> ws) in
      s\<lparr>lease_records := fmupd l Closed (lease_records s),
        group_waiters := fmdrop l (group_waiters s),
        calls := calls s @ map (\<lambda>(c, t). Reply c (AttachRejected LeaseClosed)
                   (accepts env c (AttachRejected LeaseClosed))) ws,
        waiters := filter (\<lambda>w. w \<noteq> l) (waiters s)\<rparr>)"

lemma reject_all_eq:
  "reject_all env e ws s = s\<lparr>calls := calls s @
     map (\<lambda>(c, t). Reply c (AttachRejected e) (accepts env c (AttachRejected e))) ws\<rparr>"
  by (induction ws arbitrary: s) (auto simp: reject_all_def send_reply_def record_call_def)

lemma release_lease_eq:
  "release_lease env l s =
     (case admit_lease l s of
        (Inl e, s1) \<Rightarrow> Inr (Inl e, s1)
      | (Inr Closed, s1) \<Rightarrow> Inr (Inr (), s1)
      | (Inr Open, s1) \<Rightarrow>
          bind_res (retire_lease env l (closed_state env l s1)) (\<lambda>s5. Inr (Inr (), s5)))"
  by (auto simp: release_lease_def closed_state_def reject_all_eq fmdrop_absent Let_def
      split: prod.splits sum.splits LeaseStatus.splits option.splits)

lemma engine_inv_closed_state:
  assumes "engine_inv s" "fmlookup (lease_records s) l = Some Open"
  shows "engine_inv_leaving l (closed_state env l s)"
proof -
  from assms(2) have "l |\<in>| fmdom (lease_records s)" by (rule fmlookup_in_fmdom)
  with assms(1) show ?thesis
    unfolding engine_inv_def engine_inv_leaving_def closed_state_def Let_def
    by (auto simp: record_inv_def queue_inv_def finsert_absorb)
qed

lemma engine_inv_release_lease:
  assumes "engine_inv s" "queue_settled s"
  shows "outcome exhaustion (\<lambda>(r, s'). engine_inv s' \<and> queue_settled s') (release_lease env l s)"
proof -
  obtain r s1 where a: "admit_lease l s = (r, s1)" by (cases "admit_lease l s")
  note s1 = engine_inv_admit [OF assms(1) a]
  show ?thesis
  proof (cases "r = Inr Open")
    case True
    from engine_inv_retire_lease [OF engine_inv_closed_state [OF s1(1) s1(2) [OF True]], of env env]
    have "outcome exhaustion (\<lambda>s'. engine_inv s' \<and> queue_settled s')
            (retire_lease env l (closed_state env l s1))"
      by (rule outcome_mono)
        (use assms(2) s1 in \<open>auto simp: queue_settled_def same_queue_def closed_state_def Let_def\<close>)
    with a True show ?thesis
      by (cases "retire_lease env l (closed_state env l s1)") (simp_all add: release_lease_eq)
  next
    case False
    with a s1 assms(2) show ?thesis
      by (auto simp: release_lease_eq queue_settled_def split: sum.splits LeaseStatus.splits)
  qed
qed

section \<open>Attaching to a lease\<close>

definition settled_inv :: "'c WorkerEngine \<Rightarrow> bool" where
  "settled_inv s \<longleftrightarrow> engine_inv s \<and> queue_settled s"

lemma settled_inv_new: "settled_inv (WorkerEngine_new cfg)"
  by (simp add: settled_inv_def engine_inv_new) (simp add: queue_settled_def WorkerEngine_new_def)

lemma leased_not_waiting: "engine_inv s \<Longrightarrow> l |\<in>| fmdom (leases s) \<Longrightarrow> l \<notin> set (waiters s)"
  by (auto simp: engine_inv_def queue_inv_def)

lemma leased_open: "engine_inv s \<Longrightarrow> l |\<in>| fmdom (leases s) \<Longrightarrow> fmlookup (lease_records s) l = Some Open"
  by (simp add: engine_inv_def record_inv_def)

lemma settled_inv_send_reply: "settled_inv (snd (send_reply env c m s)) \<longleftrightarrow> settled_inv s"
  by (simp add: settled_inv_def queue_settled_def engine_inv_def)

lemma settled_inv_grow:
  assumes "settled_inv s"
  shows "outcome exhaustion settled_inv (grow env s)"
  using assms engine_inv_grow [of s env]
  by (auto elim!: outcome_mono simp: settled_inv_def queue_settled_def same_queue_def)

lemma enqueue_waiter_frame [simp]:
  "leases (enqueue_waiter l c t s) = leases s" "inventory (enqueue_waiter l c t s) = inventory s"
  "lease_records (enqueue_waiter l c t s) = lease_records s"
  "config (enqueue_waiter l c t s) = config s" "calls (enqueue_waiter l c t s) = calls s"
  "next_generation (enqueue_waiter l c t s) = next_generation s"
  by (simp_all add: enqueue_waiter_def Let_def)

lemma engine_inv_enqueue_waiter:
  assumes "engine_inv s" "l |\<notin>| fmdom (leases s)" "fmlookup (lease_records s) l = Some Open"
  shows "engine_inv (enqueue_waiter l c t s)"
proof -
  have "queue_inv (waiters s) (group_waiters s) (lease_records s) (leases s)"
    using assms(1) by (simp add: engine_inv_def)
  then have "queue_inv (waiters (enqueue_waiter l c t s)) (group_waiters (enqueue_waiter l c t s))
               (lease_records s) (leases s)"
    unfolding queue_inv_def enqueue_waiter_def Let_def using assms(2,3) by auto
  with assms(1) show ?thesis
    by (simp add: engine_inv_def)
qed

text \<open>The two ways of \<open>attach_or_join\<close> that reply at once.\<close>

definition attach_fresh ::
  "'c env \<Rightarrow> LeaseId \<Rightarrow> 'c \<Rightarrow> Database \<Rightarrow> 'c WorkerEngine \<Rightarrow> panic + (bool \<times> 'c WorkerEngine)" where
  "attach_fresh env l c db s =
     bind_res (assign_database env l db s) (\<lambda>(name, s2).
       bind_res (reply_attached env l name c s2) (restore_unclaimed_database l))"

lemma attach_or_join_eq:
  assumes "admit_lease l s = (Inr Open, s1)"
  shows "attach_or_join env l c t s =
           (case fmlookup (leases s1) l of
              Some e \<Rightarrow> reply_attached env l (db_name (database e)) c s1
            | None \<Rightarrow>
                (case take_ready (inventory s1) of
                   (None, iv) \<Rightarrow> grow env (enqueue_waiter l c t s1)
                 | (Some db, iv) \<Rightarrow>
                     bind_res (attach_fresh env l c db (s1\<lparr>inventory := iv\<rparr>)) (\<lambda>(restored, s4).
                       bind_res (if restored then dispatch_waiters env s4 else Inr s4) (grow env))))"
  using assms
  by (auto simp: attach_or_join_def attach_fresh_def bind_res_def
      split: option.splits prod.splits sum.splits)

lemma serves_attach_fresh:
  assumes "lease_inv (leases s) (next_generation s) (inventory s)" "l |\<notin>| fmdom (leases s)"
    and "take_ready (inventory s) = (Some db, iv)"
  shows "outcome exhaustion (\<lambda>(b, s'). serves l s s') (attach_fresh env l c db (s\<lparr>inventory := iv\<rparr>))"
  unfolding attach_fresh_def
proof (rule outcome_bind [OF serves_assign [OF assms]])
  fix x :: "ReadString \<times> 'a WorkerEngine"
  assume "case x of (name, s') \<Rightarrow> name = db_name db \<and> serves l s s' \<and> inventory s' = iv \<and>
           fmlookup (leases s') l = Some \<lparr>database = db, conns = 0, generation = next_generation s',
              cancellation = ChildToken (next_generation s')\<rparr>"
  then obtain name s2 e where x: "x = (name, s2)" "serves l s s2" "fmlookup (leases s2) l = Some e"
    by (cases x) auto
  from serves_reply [OF serves_inv [OF x(2)] x(3), of env name c]
  obtain s3 where s3: "reply_attached env l name c s2 = Inr s3" "serves l s2 s3" by blast
  from serves_restore [OF serves_inv [OF s3(2)], of l]
  obtain b s4 where "restore_unclaimed_database l s3 = Inr (b, s4)" "serves l s3 s4" by blast
  with x s3 show "outcome exhaustion (\<lambda>(b, s'). serves l s s')
      (case x of (name, s2) \<Rightarrow>
         bind_res (reply_attached env l name c s2) (restore_unclaimed_database l))"
    using serves_trans [of l s s2 s3] serves_trans [of l s s3 s4] by simp
qed

lemma settled_inv_serves:
  assumes "settled_inv s" "serves l s s'" "ready (inventory s) \<noteq> []"
    "fmlookup (lease_records s) l = Some Open"
  shows "settled_inv s'"
  using assms engine_inv_serves [of s l s']
  by (auto simp: settled_inv_def queue_settled_def serves_def same_queue_def)

lemma settled_inv_attach_or_join:
  assumes "settled_inv s"
  shows "outcome exhaustion settled_inv (attach_or_join env l c t s)"
proof -
  obtain r s1 where a: "admit_lease l s = (r, s1)" by (cases "admit_lease l s")
  from assms have es: "engine_inv s" "queue_settled s" by (simp_all add: settled_inv_def)
  note adm = engine_inv_admit [OF es(1) a]
  have s1: "settled_inv s1" "engine_inv s1"
    using adm es(2) by (simp_all add: settled_inv_def queue_settled_def)
  show ?thesis
  proof (cases "r = Inr Open")
    case False
    with a s1 show ?thesis
      by (auto simp: attach_or_join_def settled_inv_send_reply split: sum.splits LeaseStatus.splits)
  next
    case True
    note op = adm(2) [OF True] and eq = attach_or_join_eq [OF a [unfolded True], of env c t]
    have li: "lease_inv (leases s1) (next_generation s1) (inventory s1)"
      using s1(2) by (simp add: engine_inv_def)
    show ?thesis
    proof (cases "fmlookup (leases s1) l")
      case (Some e)
      from serves_reply [OF li Some, of env "db_name (database e)" c] obtain s2 where s2:
        "reply_attached env l (db_name (database e)) c s1 = Inr s2" "serves l s1 s2" by blast
      have "inventory s2 = inventory s1"
        using s2(1) Some by (auto simp: reply_attached_eq)
      moreover have "engine_inv s2"
        using engine_inv_serves [OF s1(2) s2(2)] leased_not_waiting [OF s1(2)] op Some
        by (simp add: fmlookup_in_fmdom)
      ultimately have "settled_inv s2"
        using s1 s2(2) by (auto simp: settled_inv_def queue_settled_def serves_def same_queue_def)
      with Some s2(1) eq show ?thesis by simp
    next
      case None
      then have out: "l |\<notin>| fmdom (leases s1)" by (simp add: fmlookup_fmdom)
      show ?thesis
      proof (cases "fst (take_ready (inventory s1))")
        case no_ready: None
        then have "ready (inventory s1) = []" by (auto simp: take_ready_def split: list.splits)
        then have "settled_inv (enqueue_waiter l c t s1)"
          using engine_inv_enqueue_waiter [OF s1(2) out op]
          by (simp add: settled_inv_def queue_settled_def)
        with None no_ready eq settled_inv_grow show ?thesis
          by (auto split: prod.splits)
      next
        case (Some db)
        then obtain iv where t: "take_ready (inventory s1) = (Some db, iv)"
          by (cases "take_ready (inventory s1)") auto
        then have rdy: "ready (inventory s1) \<noteq> []" by (auto simp: take_ready_Some)
        have "outcome exhaustion settled_inv
          (bind_res (attach_fresh env l c db (s1\<lparr>inventory := iv\<rparr>)) (\<lambda>(restored, s4).
            bind_res (if restored then dispatch_waiters env s4 else Inr s4) (grow env)))"
        proof (rule outcome_bind [OF serves_attach_fresh [OF li out t]], clarify)
          fix b s4 assume "serves l s1 s4"
          then have s4: "settled_inv s4" using settled_inv_serves s1(1) rdy op by blast
          then have "outcome exhaustion settled_inv (dispatch_waiters env s4)"
            using engine_inv_dispatch_waiters [of s4 env]
            by (auto elim!: outcome_mono simp: settled_inv_def)
          with s4 show "outcome exhaustion settled_inv
              (bind_res (if b then dispatch_waiters env s4 else Inr s4) (grow env))"
            by (intro outcome_bind [where P = settled_inv] settled_inv_grow) simp_all
        qed
        with None t eq show ?thesis by simp
      qed
    qed
  qed
qed

section \<open>Messages\<close>

lemma settled_inv_handle_detach:
  assumes "settled_inv s"
  shows "settled_inv (handle_detach l g s)"
proof (cases "fmlookup (leases s) l")
  case None
  with assms show ?thesis by (simp add: handle_detach_def)
next
  case (Some e)
  have "lease_inv (fmupd l (e\<lparr>conns := conns e - 1\<rparr>) (leases s)) (next_generation s) (inventory s)"
    using assms Some by (simp add: settled_inv_def engine_inv_def lease_inv_conns)
  moreover have "finsert l (fmdom (leases s)) = fmdom (leases s)"
    using Some by (simp add: fmlookup_in_fmdom finsert_absorb)
  ultimately show ?thesis
    using assms Some
    by (simp add: handle_detach_def settled_inv_def queue_settled_def engine_inv_def record_inv_def
        queue_inv_def)
qed

lemma settled_inv_handle_max_time:
  assumes "settled_inv s"
  shows "outcome exhaustion settled_inv (handle_max_time env l g s)"
proof -
  have "outcome exhaustion settled_inv (retire_lease env l s')"
    if "settled_inv s'" for s' :: "'a WorkerEngine"
    using engine_inv_retire_lease [OF engine_inv_leaving, of s' l env] that
    by (auto elim!: outcome_mono simp: settled_inv_def queue_settled_def same_queue_def)
  moreover have "settled_inv (s\<lparr>counters := k\<rparr>)" for k
    using assms by (simp add: settled_inv_def queue_settled_def engine_inv_def)
  ultimately show ?thesis
    using assms by (auto simp: handle_max_time_def split: option.splits)
qed

lemma engine_inv_complete:
  assumes "engine_inv s"
  shows "engine_inv (s\<lparr>inventory := snd (complete_creation d r (inventory s)), counters := k\<rparr>)"
    and "engine_inv (s\<lparr>inventory := snd (complete_cleanup d u (inventory s))\<rparr>)"
proof -
  have iv: "inventory_inv (inventory s)" using assms by (rule engine_inv_inventory)
  have "iv_ext (inventory s) (snd (complete_creation d r (inventory s)))"
    using complete_creation_correct(1,2) [OF iv]
    by (auto simp: iv_ext_def known_def complete_creation_def Let_def split: sum.splits)
  then show "engine_inv (s\<lparr>inventory := snd (complete_creation d r (inventory s)), counters := k\<rparr>)"
    by (intro engine_inv_ext [OF assms]) (simp_all add: same_leases_def same_queue_def)
  have "iv_ext (inventory s) (snd (complete_cleanup d u (inventory s)))"
    using complete_cleanup_correct(1,2) [OF iv]
    by (auto simp: iv_ext_def known_def complete_cleanup_def split: sum.splits)
  then show "engine_inv (s\<lparr>inventory := snd (complete_cleanup d u (inventory s))\<rparr>)"
    by (intro engine_inv_ext [OF assms]) (simp_all add: same_leases_def same_queue_def)
qed

lemma settled_inv_dispatch_waiters:
  "engine_inv s \<Longrightarrow> outcome exhaustion settled_inv (dispatch_waiters env s)"
  using engine_inv_dispatch_waiters [of s env] by (auto elim!: outcome_mono simp: settled_inv_def)

lemma settled_inv_handle_database_worker_message:
  assumes "settled_inv s"
  shows "outcome exhaustion settled_inv (handle_database_worker_message env m s)"
proof (cases m)
  case (CreationFinished d r)
  show ?thesis
  proof (cases "fst (complete_creation d r (inventory s))")
    case None
    then have "complete_creation d r (inventory s) = (None, inventory s)"
      by (auto simp: complete_creation_def Let_def split: sum.splits if_splits)
    with assms CreationFinished show ?thesis
      by (simp add: handle_database_worker_message_def)
  next
    case (Some settled)
    then have eq: "complete_creation d r (inventory s) =
        (Some settled, snd (complete_creation d r (inventory s)))"
      by (cases "complete_creation d r (inventory s)") auto
    define k where "k = (case settled of
        Inl e \<Rightarrow> (counters s)\<lparr>template_create_failures := template_create_failures (counters s) + 1\<rparr>
      | Inr u \<Rightarrow> counters s)"
    have "engine_inv (s\<lparr>inventory := snd (complete_creation d r (inventory s)), counters := k\<rparr>)"
      using assms by (simp add: engine_inv_complete settled_inv_def)
    then have "outcome exhaustion settled_inv (bind_res (dispatch_waiters env
        (s\<lparr>inventory := snd (complete_creation d r (inventory s)), counters := k\<rparr>)) (grow env))"
      by (intro outcome_bind [OF settled_inv_dispatch_waiters] settled_inv_grow)
    then show ?thesis
      unfolding CreationFinished handle_database_worker_message_def DatabaseWorkerMessages.case
      by (subst eq) (auto simp: k_def split: sum.splits)
  qed
next
  case (CleanupFinished d r)
  with assms show ?thesis
    by (simp add: handle_database_worker_message_def settled_inv_def engine_inv_complete
        queue_settled_def) (simp add: complete_cleanup_def split: sum.splits)
qed

lemma settled_inv_handle_message:
  assumes "settled_inv s"
  shows "outcome exhaustion (\<lambda>(go, s'). settled_inv s') (handle_message env msg s)"
proof (cases msg)
  case (AttachOrJoin l c t)
  then show ?thesis
    unfolding handle_message_def
    by (simp, intro outcome_bind [OF settled_inv_attach_or_join [OF assms]]) simp
next
  case (ReleaseLease l c)
  have "outcome exhaustion (\<lambda>(r, s'). settled_inv s') (release_lease env l s)"
    using engine_inv_release_lease [of s env l] assms by (simp add: settled_inv_def)
  then show ?thesis
    unfolding handle_message_def ReleaseLease
    by (simp, elim outcome_bind) (auto simp: settled_inv_send_reply)
next
  case (Detach l g)
  then show ?thesis
    using assms by (simp add: handle_message_def settled_inv_handle_detach)
next
  case (LeaseMaxTimeReached l g)
  then show ?thesis
    unfolding handle_message_def
    by (simp, intro outcome_bind [OF settled_inv_handle_max_time [OF assms]]) simp
next
  case (DatabaseWorker m)
  then show ?thesis
    unfolding handle_message_def
    by (simp, intro outcome_bind [OF settled_inv_handle_database_worker_message [OF assms]]) simp
next
  case Shutdown
  then show ?thesis
    using assms
    by (simp add: handle_message_def settled_inv_def queue_settled_def engine_inv_def)
qed

section \<open>Runs of the engine\<close>

text \<open>
  The loop of \<open>process_messages\<close> as a machine: once the flag is down, the remaining messages are
  not handled.
\<close>

fun engine_step ::
  "'c env \<times> 'c EngineMessage \<Rightarrow> bool \<times> 'c WorkerEngine \<Rightarrow> panic + (bool \<times> 'c WorkerEngine)" where
  "engine_step (env, msg) (go, s) = (if go then handle_message env msg s else Inr (go, s))"

lemma run_stopped: "run_machine engine_step inbox (False, s) = Inr (False, s)"
  by (induction inbox) auto

lemma process_messages_machine:
  "process_messages inbox s =
     bind_res (run_machine engine_step inbox (True, s)) (\<lambda>(go, s'). Inr s')"
proof (induction inbox arbitrary: s)
  case Nil
  then show ?case by simp
next
  case (Cons m rest)
  obtain env msg where m: "m = (env, msg)" by (cases m)
  show ?case
    unfolding m
    by (cases "handle_message env msg s") (auto simp: Cons.IH run_stopped bind_res_def)
qed

interpretation engine: machine_invariant engine_step "\<lambda>i s. True" exhaustion
    "\<lambda>(go, s). settled_inv s"
proof
  fix i :: "'a env \<times> 'a EngineMessage" and x :: "bool \<times> 'a WorkerEngine"
  assume "case x of (go, s) \<Rightarrow> settled_inv s"
  then show "outcome exhaustion (\<lambda>(go, s). settled_inv s) (engine_step i x)"
    by (cases i; cases x) (auto intro: settled_inv_handle_message)
qed

lemma engine_run_ok: "engine.run_ok inbox s"
  by (induction inbox arbitrary: s) (auto split: sum.splits)

lemma settled_inv_process_messages:
  "settled_inv s \<Longrightarrow> outcome exhaustion settled_inv (process_messages inbox s)"
  unfolding process_messages_machine
  by (rule outcome_bind [OF engine.run_outcome]) (auto simp: engine_run_ok)

section \<open>Initialisation\<close>

text \<open>The databases a list of completions delivers, in order, and its first failure.\<close>

definition created :: "CreateDatabases \<Rightarrow> (nat \<times> ('e + ReadString)) list \<Rightarrow> Database list" where
  "created request cs = [\<lparr>db_id = batch_id request i, db_name = name\<rparr>. (i, Inr name) \<leftarrow> cs]"

definition failures :: "(nat \<times> ('e + 'b)) list \<Rightarrow> 'e list" where
  "failures cs = [e. (i, Inl e) \<leftarrow> cs]"

lemma created_simps [simp]:
  "created request [] = []"
  "created request ((i, Inl e) # cs) = created request cs"
  "created request ((i, Inr name) # cs) =
     \<lparr>db_id = batch_id request i, db_name = name\<rparr> # created request cs"
  by (simp_all add: created_def)

lemma failures_simps [simp]:
  "failures [] = []"
  "failures ((i, Inl e) # cs) = e # failures cs"
  "failures ((i, Inr x) # cs) = failures cs"
  by (simp_all add: failures_def)

lemma init_completions_eq:
  assumes "batch_fits request" "distinct (map fst cs)" "fst ` set cs \<subseteq> {..<amount request}"
    and "\<forall>i \<in> fst ` set cs. batch_id request i |\<in>| creating iv"
  shows "init_completions request cs fe iv =
           Inr (case fe of Some e \<Rightarrow> Some e
                 | None \<Rightarrow> (case failures cs of [] \<Rightarrow> None | e # _ \<Rightarrow> Some e),
                iv\<lparr>creating := creating iv |-| fset_of_list (map (batch_id request \<circ> fst) cs),
                   ready := ready iv @ created request cs\<rparr>)"
  using assms(2-4)
proof (induction cs arbitrary: fe iv)
  case Nil
  then show ?case by (simp split: option.splits)
next
  case (Cons x cs)
  obtain i r where x: "x = (i, r)" by (cases x)
  let ?d = "batch_id request i"
  have d: "database_id request i = Inr ?d"
    using Cons.prems by (intro database_id_Inr [OF assms(1)]) (auto simp: x)
  have inj: "batch_id request j \<noteq> ?d" if "j \<in> fst ` set cs" for j
    using that Cons.prems inj_onD [OF inj_on_batch_id [OF assms(1)], of j i] by (auto simp: x)
  have c: "complete_creation ?d r iv =
      (Some (map_sum id (\<lambda>_. ()) r),
       iv\<lparr>creating := creating iv |-| {|?d|},
          ready := ready iv @ (case r of Inl e \<Rightarrow> [] | Inr name \<Rightarrow> [\<lparr>db_id = ?d, db_name = name\<rparr>])\<rparr>)"
    using Cons.prems by (auto simp: x complete_creation_def split: sum.splits)
  have pending: "\<forall>j \<in> fst ` set cs. batch_id request j |\<in>| creating iv |-| {|?d|}"
    using Cons.prems inj by (auto simp: x)
  have minus: "creating iv |-| {|?d|} |-| B = creating iv |-| finsert ?d B" for B
    by auto
  have "distinct (map fst cs)" "fst ` set cs \<subseteq> {..<amount request}"
    using Cons.prems by auto
  then have IH: "init_completions request cs fe' iv' =
           Inr (case fe' of Some e \<Rightarrow> Some e
                 | None \<Rightarrow> (case failures cs of [] \<Rightarrow> None | e # _ \<Rightarrow> Some e),
                iv'\<lparr>creating := creating iv |-| finsert ?d (fset_of_list (map (batch_id request \<circ> fst) cs)),
                    ready := ready iv' @ created request cs\<rparr>)"
    if "creating iv' = creating iv |-| {|?d|}" for fe' iv'
    using Cons.IH [of iv'] pending unfolding that minus by blast
  show ?case
    unfolding x init_completions.simps d bind_res_Inr c prod.case option.case
    by (cases r) (auto simp: IH comp_def split: option.splits)
qed

lemma try_init_outcome:
  assumes "reports_once n (create n)" "n = unat (initial_slots (config s))"
    and "s = WorkerEngine_new cfg"
  shows "try_init create s =
           Inr (case failures (create n) of [] \<Rightarrow> Inr () | e # _ \<Rightarrow> Inl e,
                s\<lparr>inventory := (inventory s)
                     \<lparr>next_database_id := of_nat n, ready := created (next_request (inventory s) n) (create n)\<rparr>\<rparr>)"
proof -
  have iv: "inventory s = DatabaseInventory_default" using assms(3) by (simp add: WorkerEngine_new_def)
  have lt: "unat (next_database_id (inventory s)) + n < 2 ^ 64"
  proof -
    have "n < 2 ^ LENGTH(16)" unfolding assms(2) by (rule unsigned_less)
    then show ?thesis by (simp add: iv DatabaseInventory_default_def)
  qed
  show ?thesis
  proof (cases "n = 0")
    case True
    with assms(1) have "create n = []" by (simp add: reports_once_def)
    with True assms(2) show ?thesis
      by (simp add: try_init_def iv DatabaseInventory_default_def assms(3) WorkerEngine_new_def)
  next
    case False
    then have pos: "0 < n" by simp
    let ?req = "next_request (inventory s) n"
    note fits = next_request_fits [OF pos lt]
    have pending: "\<forall>i \<in> fst ` set (create n). batch_id ?req i |\<in>| creating (reserved (inventory s) n)"
      using assms(1) by (auto simp: reports_once_def batch_ids_def)
    from assms(1) have ids: "fset_of_list (map (batch_id ?req \<circ> fst) (create n)) = fset_of_list (map (batch_id ?req) [0..<n])"
      by (auto simp: reports_once_def fset_of_list.rep_eq image_image [symmetric] simp flip: fset_inject)
    have none: "creating (reserved (inventory s) n) |-| fset_of_list (map (batch_id ?req \<circ> fst) (create n)) = {||}"
      unfolding ids by (simp add: reserved_def iv DatabaseInventory_default_def)
    have "init_completions ?req (create n) None (reserved (inventory s) n) =
        Inr (case failures (create n) of [] \<Rightarrow> None | e # _ \<Rightarrow> Some e,
          (reserved (inventory s) n)\<lparr>creating := {||}, ready := created ?req (create n)\<rparr>)"
      using init_completions_eq [OF fits _ _ pending, of None] assms(1) none
      by (simp add: reports_once_def iv DatabaseInventory_default_def)
    then show ?thesis
      unfolding try_init_def assms(2) [symmetric] reserve_creations_fits [OF pos lt]
      by (auto simp: reserved_def iv DatabaseInventory_default_def split: list.splits)
  qed
qed

lemma init_completions_inv:
  "inventory_inv iv \<Longrightarrow> init_completions request cs fe iv = Inr (fe', iv') \<Longrightarrow> inventory_inv iv'"
proof (induction cs arbitrary: fe iv)
  case Nil
  then show ?case by simp
next
  case (Cons x cs)
  obtain i r where x: "x = (i, r)" by (cases x)
  from Cons.prems(2) obtain d where d: "database_id request i = Inr d"
    by (auto simp: x res_simps)
  obtain a iv1 where c: "complete_creation d r iv = (a, iv1)" by (cases "complete_creation d r iv")
  with Cons.prems(2) d obtain fe1 where i: "init_completions request cs fe1 iv1 = Inr (fe', iv')"
    by (auto simp: x split: option.splits sum.splits)
  from complete_creation_correct(1) [OF Cons.prems(1), of d r] c have "inventory_inv iv1" by simp
  with i Cons.IH show ?case by blast
qed

lemma settled_inv_inventory:
  "settled_inv s \<Longrightarrow> leases s = fmempty \<Longrightarrow> waiters s = [] \<Longrightarrow> inventory_inv iv \<Longrightarrow>
     settled_inv (s\<lparr>inventory := iv\<rparr>)"
  by (simp add: settled_inv_def engine_inv_def queue_settled_def lease_inv_def)

lemma settled_inv_try_init:
  assumes "reports_once (unat (initial_slots cfg)) (create (unat (initial_slots cfg)))"
  obtains r s where "try_init create (WorkerEngine_new cfg :: 'c WorkerEngine) = Inr (r, s)"
    and "settled_inv (s :: 'c WorkerEngine)"
proof -
  let ?s = "WorkerEngine_new cfg :: 'c WorkerEngine" and ?n = "unat (initial_slots cfg)"
  have cfg: "config ?s = cfg" by (simp add: WorkerEngine_new_def)
  from try_init_outcome [where create = create and s = ?s, OF assms _ refl] cfg obtain r s where
    init: "try_init create ?s = Inr (r, s)" by fastforce
  have "settled_inv s"
  proof (cases "?n = 0")
    case True
    with init show ?thesis by (auto simp: try_init_def cfg settled_inv_new)
  next
    case False
    then have pos: "0 < ?n" by simp
    have iv: "inventory_inv (inventory ?s)" by (simp add: WorkerEngine_new_def inventory_inv_default)
    from init False reserve_creations_outcome [OF iv pos] obtain fe fe' iv' where
      i: "init_completions (next_request (inventory ?s) ?n) (create ?n) fe (reserved (inventory ?s) ?n)
            = Inr (fe', iv')"
      and lt: "unat (next_database_id (inventory ?s)) + ?n < 2 ^ 64" and s: "s = ?s\<lparr>inventory := iv'\<rparr>"
      by (auto simp: try_init_def cfg res_simps split: prod.splits option.splits)
    from init_completions_inv [OF inventory_inv_reserved [OF pos lt iv] i] s show ?thesis
      using settled_inv_inventory [OF settled_inv_new [of cfg]] by (simp add: WorkerEngine_new_def)
  qed
  with init that show thesis by blast
qed

end
