(* ===== verification/Engine_Accounting.thy ===== *)
theory Engine_Accounting
  imports Engine_Invariant "HOL-Library.Sublist"
begin

text \<open>
  The engine counts the connections of a lease. This theory relates the count to the successful
  replies in the log of calls: for every lease that holds a database, the connections it counts and
  the detachments it has counted down add up to the clients it has attached to that generation.
\<close>

section \<open>Attachments in the log\<close>

text \<open>\<open>owner c\<close> is the lease for which the client \<open>c\<close> asked.\<close>

definition attaches :: "('c \<Rightarrow> LeaseId option) \<Rightarrow> LeaseId \<Rightarrow> u64 \<Rightarrow> 'c call \<Rightarrow> bool" where
  "attaches owner l g k \<longleftrightarrow>
     (case k of Reply c (Attached n g' tk) delivered \<Rightarrow> delivered \<and> g' = g \<and> owner c = Some l | _ \<Rightarrow> False)"

definition attached_to :: "('c \<Rightarrow> LeaseId option) \<Rightarrow> 'c call list \<Rightarrow> LeaseId \<Rightarrow> u64 \<Rightarrow> nat" where
  "attached_to owner log l g = length (filter (attaches owner l g) log)"

lemma attaches_simps [simp]:
  "attaches owner l g (Reply c (Attached n g' tk) ok) \<longleftrightarrow> ok \<and> g' = g \<and> owner c = Some l"
  "\<not> attaches owner l g (Reply c FailedToAttach ok)"
  "\<not> attaches owner l g (Reply c (AttachRejected e) ok)"
  "\<not> attaches owner l g (Reply c (ReleaseResult r) ok)"
  "\<not> attaches owner l g (RequestCreation cr ok)"
  "\<not> attaches owner l g (RequestCleanup cl ok)"
  "\<not> attaches owner l g (SendDelayed l' g' d tk ok)"
  "\<not> attaches owner l g (CancelToken tk)"
  "\<not> attaches owner l g CancelRoot"
  by (simp_all add: attaches_def)

lemma attached_to_simps [simp]:
  "attached_to owner [] l g = 0"
  "attached_to owner (log @ log') l g = attached_to owner log l g + attached_to owner log' l g"
  "attached_to owner [k] l g = (if attaches owner l g k then 1 else 0)"
  "attached_to owner (map (\<lambda>(c, t). Reply c (AttachRejected e) (f c)) ws) l g = 0"
  by (auto simp: attached_to_def filter_empty_conv)

lemma attached_to_in:
  assumes "Reply c (Attached n g tk) True \<in> set log" "owner c = Some l"
  shows "attached_to owner log l g \<noteq> 0"
proof -
  have "attaches owner l g (Reply c (Attached n g tk) True)" using assms(2) by simp
  with assms(1) show ?thesis unfolding attached_to_def length_0_conv filter_empty_conv by blast
qed

text \<open>A successful reply carries the token of its generation.\<close>

definition token_ok :: "'c call \<Rightarrow> bool" where
  "token_ok k \<longleftrightarrow> (case k of Reply c (Attached n g tk) delivered \<Rightarrow> tk = ChildToken g | _ \<Rightarrow> True)"

lemma token_ok_simps [simp]:
  "token_ok (Reply c (Attached n g tk) ok) \<longleftrightarrow> tk = ChildToken g"
  "token_ok (Reply c FailedToAttach ok)" "token_ok (Reply c (AttachRejected e) ok)"
  "token_ok (Reply c (ReleaseResult r) ok)" "token_ok (RequestCreation cr ok)"
  "token_ok (RequestCleanup cl ok)" "token_ok (SendDelayed l g d tk ok)"
  "token_ok (CancelToken tk)" "token_ok CancelRoot"
  by (simp_all add: token_ok_def)

lemma token_ok_rejections [simp]:
  "list_all token_ok (map (\<lambda>(c, t). Reply c (AttachRejected e) (f c)) ws)"
  by (auto simp: list_all_iff)

section \<open>The account\<close>

text \<open>A lease claims a generation that it holds or that clients of it were attached to.\<close>

definition lease_claims ::
  "('c \<Rightarrow> LeaseId option) \<Rightarrow> 'c call list \<Rightarrow> (LeaseId, LeaseEntry) fmap \<Rightarrow> LeaseId \<Rightarrow> u64 \<Rightarrow> bool" where
  "lease_claims owner log ls l g \<longleftrightarrow>
     attached_to owner log l g \<noteq> 0 \<or> (\<exists>e. fmlookup ls l = Some e \<and> generation e = g)"

definition unique_claims ::
  "('c \<Rightarrow> LeaseId option) \<Rightarrow> 'c call list \<Rightarrow> (LeaseId, LeaseEntry) fmap \<Rightarrow> bool" where
  "unique_claims owner log ls \<longleftrightarrow>
     (\<forall>l l' g. lease_claims owner log ls l g \<longrightarrow> lease_claims owner log ls l' g \<longrightarrow> l = l')"

lemma unique_claims_mono:
  "unique_claims owner log ls \<Longrightarrow>
     (\<And>l g. lease_claims owner log' ls' l g \<Longrightarrow> lease_claims owner log ls l g) \<Longrightarrow> unique_claims owner log' ls'"
  unfolding unique_claims_def by metis

text \<open>As long as the lease holds a generation, the replies of that generation name its database.\<close>

definition names_kept ::
  "('c \<Rightarrow> LeaseId option) \<Rightarrow> 'c call list \<Rightarrow> (LeaseId, LeaseEntry) fmap \<Rightarrow> bool" where
  "names_kept owner log ls \<longleftrightarrow>
     (\<forall>c n tk l e. Reply c (Attached n (generation e) tk) True \<in> set log \<longrightarrow> owner c = Some l \<longrightarrow>
        fmlookup ls l = Some e \<longrightarrow> db_name (database e) = n)"

lemma names_kept_mono:
  assumes "names_kept owner log ls"
    and "\<And>c n g tk. Reply c (Attached n g tk) True \<in> set log' \<Longrightarrow> Reply c (Attached n g tk) True \<in> set log"
    and "\<And>l e'. fmlookup ls' l = Some e' \<Longrightarrow>
      \<exists>e. fmlookup ls l = Some e \<and> generation e = generation e' \<and> database e = database e'"
  shows "names_kept owner log' ls'"
  using assms unfolding names_kept_def by metis

text \<open>
  \<open>D l g\<close> is the number of detachments handled for generation \<open>g\<close> of lease \<open>l\<close>; the log of
  calls starts with \<open>base\<close>, and no detachment has met a count of zero. A generation that clients were
  attached to is held by its lease until its token is cancelled, and no two leases claim the same one.
\<close>

definition accounted ::
  "('c \<Rightarrow> LeaseId option) \<Rightarrow> (LeaseId \<Rightarrow> u64 \<Rightarrow> nat) \<Rightarrow> 'c call list \<Rightarrow> 'c WorkerEngine \<Rightarrow> bool" where
  "accounted owner D base s \<longleftrightarrow>
     (\<forall>l e. fmlookup (leases s) l = Some e \<longrightarrow>
        generation e \<le> next_generation s \<and>
        unat (conns e) + D l (generation e) = attached_to owner (calls s) l (generation e)) \<and>
     (\<forall>l g. next_generation s < g \<longrightarrow> attached_to owner (calls s) l g = 0 \<and> D l g = 0) \<and>
     (\<forall>l ws. fmlookup (group_waiters s) l = Some ws \<longrightarrow> (\<forall>p \<in> set ws. owner (fst p) = Some l)) \<and>
     detach_on_zero (counters s) = 0 \<and> prefix base (calls s) \<and>
     list_all token_ok (calls s) \<and>
     (\<forall>l e. fmlookup (leases s) l = Some e \<longrightarrow> cancellation e = ChildToken (generation e)) \<and>
     (\<forall>l g. attached_to owner (calls s) l g \<noteq> 0 \<longrightarrow>
        (\<exists>e. fmlookup (leases s) l = Some e \<and> generation e = g) \<or>
        CancelToken (ChildToken g) \<in> set (calls s)) \<and>
     unique_claims owner (calls s) (leases s) \<and>
     names_kept owner (calls s) (leases s)"

text \<open>A quiet step drops leases and waiting clients at most and attaches nobody.\<close>

definition quiet :: "'c WorkerEngine \<Rightarrow> 'c WorkerEngine \<Rightarrow> bool" where
  "quiet s s' \<longleftrightarrow>
     (\<forall>l e. fmlookup (leases s') l = Some e \<longrightarrow> fmlookup (leases s) l = Some e) \<and>
     (\<forall>l ws. fmlookup (group_waiters s') l = Some ws \<longrightarrow> fmlookup (group_waiters s) l = Some ws) \<and>
     next_generation s' = next_generation s \<and>
     detach_on_zero (counters s') = detach_on_zero (counters s) \<and>
     (\<forall>owner. attached_to owner (calls s') = attached_to owner (calls s)) \<and>
     prefix (calls s) (calls s') \<and>
     (list_all token_ok (calls s) \<longrightarrow> list_all token_ok (calls s')) \<and>
     (\<forall>l e. fmlookup (leases s) l = Some e \<longrightarrow>
        fmlookup (leases s') l = Some e \<or> CancelToken (cancellation e) \<in> set (calls s'))"

lemma quiet_refl [simp]: "quiet s s"
  by (simp add: quiet_def)

lemma quiet_trans:
  assumes "quiet s s1" "quiet s1 s2"
  shows "quiet s s2"
proof -
  have "set (calls s1) \<subseteq> set (calls s2)" using assms(2) by (simp add: quiet_def set_mono_prefix)
  moreover have "prefix (calls s) (calls s2)"
    using assms unfolding quiet_def by (meson prefix_order.trans)
  moreover have "fmlookup (leases s2) l = Some e \<or> CancelToken (cancellation e) \<in> set (calls s2)"
    if "fmlookup (leases s) l = Some e" for l e
    using that assms \<open>set (calls s1) \<subseteq> set (calls s2)\<close> unfolding quiet_def by blast
  ultimately show ?thesis using assms unfolding quiet_def by simp
qed

lemma quiet_attached:
  assumes "quiet s s'" "Reply c (Attached n g tk) True \<in> set (calls s')"
  shows "Reply c (Attached n g tk) True \<in> set (calls s)"
proof -
  let ?l = "LeaseId []"
  obtain ks where ks: "calls s' = calls s @ ks" using assms(1) by (auto simp: quiet_def prefix_def)
  moreover have "attached_to (\<lambda>c. Some ?l) (calls s') ?l g = attached_to (\<lambda>c. Some ?l) (calls s) ?l g"
    using assms(1) by (simp add: quiet_def)
  ultimately have "attached_to (\<lambda>c. Some ?l) ks ?l g = 0" by simp
  with attached_to_in [of c n g tk ks "\<lambda>c. Some ?l" ?l] show ?thesis using assms(2) ks by auto
qed

lemma accounted_held:
  "accounted owner D base s \<Longrightarrow> attached_to owner (calls s) l g \<noteq> 0 \<Longrightarrow>
     (\<exists>e. fmlookup (leases s) l = Some e \<and> generation e = g) \<or> CancelToken (ChildToken g) \<in> set (calls s)"
  by (simp add: accounted_def)

lemma accounted_quiet:
  assumes "accounted owner D base s" "quiet s s'"
  shows "accounted owner D base s'"
proof -
  have sub: "set (calls s) \<subseteq> set (calls s')" using assms(2) by (simp add: quiet_def set_mono_prefix)
  have "prefix base (calls s')"
    using assms unfolding quiet_def accounted_def by (meson prefix_order.trans)
  moreover have "(\<exists>e. fmlookup (leases s') l = Some e \<and> generation e = g) \<or> CancelToken (ChildToken g) \<in> set (calls s')"
    if "attached_to owner (calls s') l g \<noteq> 0" for l g
  proof -
    have "attached_to owner (calls s) l g \<noteq> 0" using that assms(2) by (simp add: quiet_def)
    then consider e where "fmlookup (leases s) l = Some e" "generation e = g"
      | "CancelToken (ChildToken g) \<in> set (calls s)"
      using accounted_held [OF assms(1)] by blast
    then show ?thesis
    proof cases
      case 1
      with assms show ?thesis unfolding quiet_def accounted_def by metis
    qed (use sub in auto)
  qed
  moreover have "unique_claims owner (calls s') (leases s')"
  proof (rule unique_claims_mono)
    show "unique_claims owner (calls s) (leases s)" using assms(1) by (simp add: accounted_def)
    show "lease_claims owner (calls s') (leases s') l g \<Longrightarrow> lease_claims owner (calls s) (leases s) l g" for l g
      using assms(2) by (auto simp: lease_claims_def quiet_def)
  qed
  moreover have "names_kept owner (calls s') (leases s')"
  proof (rule names_kept_mono)
    show "names_kept owner (calls s) (leases s)" using assms(1) by (simp add: accounted_def)
    show "fmlookup (leases s') l = Some e' \<Longrightarrow>
        \<exists>e. fmlookup (leases s) l = Some e \<and> generation e = generation e' \<and> database e = database e'" for l e'
      using assms(2) by (auto simp: quiet_def)
  qed (rule quiet_attached [OF assms(2)])
  ultimately show ?thesis
    using assms unfolding accounted_def quiet_def by (simp, blast)
qed

lemma quiet_send_reply:
  "(\<And>n g tk. msg \<noteq> Attached n g tk) \<Longrightarrow> quiet s (snd (send_reply env c msg s))"
  by (cases msg) (auto simp: quiet_def fun_eq_iff)

lemma quiet_grow:
  assumes "grow env s = Inr s'"
  shows "quiet s s'"
proof (cases "unat (grow_batch_size (config s)) = 0 \<or> growth_deficit env s = 0")
  case True
  with assms show ?thesis by (simp add: grow_unfold)
next
  case False
  with assms show ?thesis
    by (auto simp: grow_unfold Let_def quiet_def fun_eq_iff elim!: bind_resE split: option.splits if_splits)
qed

lemma quiet_restore: "restore_unclaimed_database l s = Inr (b, s') \<Longrightarrow> quiet s s'"
  by (auto simp: restore_unclaimed_database_def quiet_def Let_def fun_eq_iff split: if_splits option.splits)

lemma quiet_retire_lease: "retire_lease env l s = Inr s' \<Longrightarrow> quiet s s'"
proof (cases "fmlookup (leases s) l")
  case (Some e)
  assume "retire_lease env l s = Inr s'"
  then have "quiet (retired_state env l e s) s'"
    using quiet_grow by (simp add: retire_lease_eq [OF Some])
  moreover have "quiet s (retired_state env l e s)"
    by (auto simp: quiet_def retired_state_def Let_def fun_eq_iff attached_to_def Some split: if_splits)
  ultimately show ?thesis by (metis quiet_trans)
qed (simp add: retire_lease_def)

lemma quiet_admit: "admit_lease l s = (r, s') \<Longrightarrow> quiet s s'"
  by (auto simp: admit_lease_def quiet_def split: option.splits if_splits)

lemma quiet_release_lease:
  assumes "release_lease env l s = Inr (r, s')"
  shows "quiet s s'"
proof -
  obtain a s1 where a: "admit_lease l s = (a, s1)" by (cases "admit_lease l s")
  have "quiet s1 (closed_state env l s1)"
    by (auto simp: quiet_def closed_state_def Let_def fun_eq_iff split: if_splits option.splits)
  moreover have "s' = s1 \<or> retire_lease env l (closed_state env l s1) = Inr s'"
    using assms a by (auto simp: release_lease_eq bind_res_eq_Inr split: sum.splits LeaseStatus.splits)
  ultimately show ?thesis
    using quiet_admit [OF a] quiet_retire_lease quiet_trans by metis
qed

section \<open>Attaching\<close>

lemma accounted_reply_attached:
  assumes "accounted owner D base s" "owner c = Some l" "reply_attached env l name c s = Inr s'"
    and "\<And>e. fmlookup (leases s) l = Some e \<Longrightarrow> name = db_name (database e)"
  shows "accounted owner D base s'"
proof -
  obtain e where e: "fmlookup (leases s) l = Some e"
    using assms(3) by (auto simp: reply_attached_def split: option.splits)
  have conns: "unat (attach_conns env c e name) = unat (conns e) +
      attached_to owner [Reply c (attach_msg e name) (accepts env c (attach_msg e name))] l (generation e)"
  proof (cases "conns e = - 1")
    case False
    then have "unat (conns e + 1) = Suc (unat (conns e))"
      by (metis add.commute unatSuc add_eq_0_iff add_0_right Suc_eq_plus1)
    with assms(2) False show ?thesis by (simp add: attach_conns_def attach_msg_def)
  qed (simp add: attach_conns_def attach_msg_def)
  have other: "attached_to owner [Reply c (attach_msg e name) ok] l' g = 0"
    if "l' \<noteq> l \<or> g \<noteq> generation e" for l' g ok
    using that assms(2) by (auto simp: attach_msg_def)
  have s': "s' = s\<lparr>leases := fmupd l (e\<lparr>conns := attach_conns env c e name\<rparr>) (leases s),
       calls := calls s @ [Reply c (attach_msg e name) (accepts env c (attach_msg e name))]\<rparr>"
    using assms(3) by (simp add: reply_attached_eq [OF e])
  have gen: "generation e \<le> next_generation s" using assms(1) e by (simp add: accounted_def)
  show ?thesis
    unfolding accounted_def
  proof (intro conjI allI impI)
    fix l' e' assume "fmlookup (leases s') l' = Some e'"
    then consider "l' = l" "e' = e\<lparr>conns := attach_conns env c e name\<rparr>"
      | "l' \<noteq> l" "fmlookup (leases s) l' = Some e'"
      by (auto simp: s' split: if_splits)
    then show "unat (conns e') + D l' (generation e') = attached_to owner (calls s') l' (generation e')"
      using assms(1) e conns other [of l' "generation e'"] by cases (auto simp: s' accounted_def)
    show "generation e' \<le> next_generation s'"
      using \<open>fmlookup (leases s') l' = Some e'\<close> assms(1) gen by (auto simp: s' accounted_def split: if_splits)
  next
    fix l' g assume "next_generation s' < g"
    then have "next_generation s < g" "g \<noteq> generation e" using gen by (auto simp: s')
    with assms(1) other [of l' g] show "attached_to owner (calls s') l' g = 0" "D l' g = 0"
      by (simp_all add: s' accounted_def)
  next
    fix l' g assume "attached_to owner (calls s') l' g \<noteq> 0"
    then have "l' = l \<and> g = generation e \<or> attached_to owner (calls s) l' g \<noteq> 0"
      using other [of l' g] by (cases "l' = l \<and> g = generation e") (auto simp: s')
    moreover have "(\<exists>e. fmlookup (leases s) l' = Some e \<and> generation e = g) \<or> CancelToken (ChildToken g) \<in> set (calls s)"
      if "attached_to owner (calls s) l' g \<noteq> 0"
      by (rule accounted_held [OF assms(1) that])
    ultimately show "(\<exists>e. fmlookup (leases s') l' = Some e \<and> generation e = g) \<or> CancelToken (ChildToken g) \<in> set (calls s')"
      using e by (auto simp: s')
  next
    show "unique_claims owner (calls s') (leases s')"
    proof (rule unique_claims_mono)
      show "unique_claims owner (calls s) (leases s)" using assms(1) by (simp add: accounted_def)
      show "lease_claims owner (calls s') (leases s') l' g \<Longrightarrow> lease_claims owner (calls s) (leases s) l' g" for l' g
        using other [of l' g] e
        by (cases "l' = l \<and> g = generation e") (auto simp: lease_claims_def s' split: if_splits)
    qed
  next
    have "names_kept owner (calls s) (leases s)" using assms(1) by (simp add: accounted_def)
    then have old: "Reply c' (Attached n (generation e') tk) True \<in> set (calls s) \<Longrightarrow> owner c' = Some l' \<Longrightarrow>
        fmlookup (leases s) l' = Some e' \<Longrightarrow> db_name (database e') = n" for c' n tk l' e'
      unfolding names_kept_def by blast
    show "names_kept owner (calls s') (leases s')"
      using old [OF _ _ e] old assms(2) assms(4) [OF e]
      by (auto simp: names_kept_def s' attach_msg_def split: if_splits)
  next
    show "list_all token_ok (calls s')"
      using assms(1) e by (auto simp: s' accounted_def attach_msg_def)
  qed (use assms(1) e in \<open>auto simp: s' accounted_def split: if_splits\<close>)
qed

lemma accounted_assign_database:
  assumes "accounted owner D base s" "fmlookup (leases s) l = None"
    and "assign_database env l db s = Inr (name, s')"
  shows "accounted owner D base s'"
proof -
  obtain g where g: "checked_add (next_generation s) 1 = Some g"
    using assms(3) by (auto simp: assign_database_def split: option.splits)
  then have lt: "next_generation s < g"
    using unat_checked_add [OF g] by (simp add: word_less_nat_alt)
  have s': "leases s' = fmupd l \<lparr>database = db, conns = 0, generation = g, cancellation = ChildToken g\<rparr> (leases s)"
    "next_generation s' = g" "group_waiters s' = group_waiters s" "counters s' = counters s"
    "attached_to owner (calls s') = attached_to owner (calls s)"
    and pre: "prefix (calls s) (calls s')" "list_all token_ok (calls s) \<Longrightarrow> list_all token_ok (calls s')"
    using assms(3) by (auto simp: assign_database_eq [OF g] fun_eq_iff split: if_splits)
  note sub = set_mono_prefix [OF pre(1)]
  have "(\<exists>e. fmlookup (leases s') l' = Some e \<and> generation e = g') \<or> CancelToken (ChildToken g') \<in> set (calls s')"
    if "attached_to owner (calls s') l' g' \<noteq> 0" for l' g'
  proof -
    have "(\<exists>e. fmlookup (leases s) l' = Some e \<and> generation e = g') \<or> CancelToken (ChildToken g') \<in> set (calls s)"
      using accounted_held [OF assms(1)] that by (simp add: s'(5))
    with assms(2) sub show ?thesis by (auto simp: s'(1))
  qed
  moreover have "prefix base (calls s')" using assms(1) pre(1) unfolding accounted_def by (meson prefix_order.trans)
  moreover have "generation e \<le> g" if "fmlookup (leases s) l' = Some e" for l' e
    using that assms(1) lt by (fastforce simp: accounted_def)
  moreover have "unique_claims owner (calls s') (leases s')"
  proof -
    have old: "\<not> lease_claims owner (calls s) (leases s) l' g" for l'
      using assms(1) lt unfolding accounted_def lease_claims_def by (metis leD)
    have "lease_claims owner (calls s') (leases s') l' g' \<Longrightarrow>
        l' = l \<and> g' = g \<or> lease_claims owner (calls s) (leases s) l' g'" for l' g'
      by (auto simp: lease_claims_def s'(1,5) split: if_splits)
    moreover have "unique_claims owner (calls s) (leases s)" using assms(1) by (simp add: accounted_def)
    ultimately show ?thesis unfolding unique_claims_def using old by metis
  qed
  moreover have "names_kept owner (calls s') (leases s')"
  proof -
    have "\<not> (Reply c (Attached n g tk) True \<in> set (calls s) \<and> owner c = Some l)" for c n tk
      using attached_to_in [of c n g tk "calls s" owner l] assms(1) lt by (auto simp: accounted_def)
    moreover have "Reply c m b \<in> set (calls s') \<longleftrightarrow> Reply c m b \<in> set (calls s)" for c m b
      using assms(3) by (auto simp: assign_database_eq [OF g])
    moreover have "names_kept owner (calls s) (leases s)" using assms(1) by (simp add: accounted_def)
    ultimately show ?thesis unfolding names_kept_def s'(1) by (auto split: if_splits)
  qed
  ultimately show ?thesis
    using assms(1) lt pre(2) unfolding accounted_def s'(2-5) by (auto simp: s'(1) split: if_splits)
qed

lemma assign_database_name:
  "assign_database env l db s = Inr (name, s') \<Longrightarrow> fmlookup (leases s') l = Some e \<Longrightarrow> name = db_name (database e)"
  by (auto simp: assign_database_def Let_def split: option.splits if_splits)

lemma accounted_inventory: "accounted owner D base (s\<lparr>inventory := iv\<rparr>) = accounted owner D base s"
  by (simp add: accounted_def)

lemma accounted_dispatch_replies:
  assumes "accounted owner D base s" "\<forall>p \<in> set replies. owner (fst p) = Some l"
    and "dispatch_replies env l replies s = Inr s'"
  shows "accounted owner D base s'"
  using assms
proof (induction env l replies s rule: dispatch_replies.induct)
  case (1 env lease s)
  then show ?case by simp
next
  case (2 env lease c t rest s)
  let ?late = "lease_claim_timeout_ms (config s) > 0 \<and> elapsed_ms env t > unat (lease_claim_timeout_ms (config s))"
  show ?case
  proof (cases ?late)
    case True
    let ?s = "s\<lparr>counters := (counters s)\<lparr>waiter_timeouts := waiter_timeouts (counters s) + 1\<rparr>\<rparr>"
    have "accounted owner D base ?s" using "2.prems"(1) by (simp add: accounted_def)
    with "2.IH"(1) [OF True] "2.prems" True show ?thesis by simp
  next
    case False
    obtain p where p: "(case fmlookup (leases s) lease of
             Some entry \<Rightarrow> Inr (db_name (database entry), s)
           | None \<Rightarrow>
               (case take_ready (inventory s) of
                  (None, iv) \<Rightarrow> Inl DispatchRequiresReady
                | (Some db, iv) \<Rightarrow> assign_database env lease db (s\<lparr>inventory := iv\<rparr>))) = Inr p"
      and b: "(case p of (name, s1) \<Rightarrow> bind_res (reply_attached env lease name c s1) (dispatch_replies env lease rest)) = Inr s'"
      using "2.prems"(3) unfolding dispatch_replies.simps if_not_P [OF False] by (rule bind_resE)
    obtain name s1 where ps: "p = (name, s1)" by (cases p)
    have s1: "accounted owner D base s1"
      using p "2.prems"(1) accounted_assign_database [of owner D base "s\<lparr>inventory := iv\<rparr>" lease for iv]
      by (auto simp: ps accounted_inventory split: option.splits prod.splits)
    from b obtain s2 where s2: "reply_attached env lease name c s1 = Inr s2"
      and r: "dispatch_replies env lease rest s2 = Inr s'"
      unfolding ps prod.case by (rule bind_resE)
    have "name = db_name (database e)" if "fmlookup (leases s1) lease = Some e" for e
      using p that by (auto simp: ps split: option.splits prod.splits dest: assign_database_name)
    then have "accounted owner D base s2"
      using accounted_reply_attached [OF s1 _ s2] "2.prems"(2) by simp
    with "2.IH"(2) [OF False p ps [symmetric] s2] r "2.prems"(2) show ?thesis by simp
  qed
qed

lemma accounted_dispatch_waiters:
  assumes "accounted owner D base s" "dispatch_waiters env s = Inr s'"
  shows "accounted owner D base s'"
  using assms
proof (induction "length (waiters s)" arbitrary: s rule: less_induct)
  case less
  note step = less.prems(2) [unfolded dispatch_waiters.simps [of env s]]
  show ?case
  proof (cases "ready (inventory s) = [] \<or> waiters s = []")
    case True
    with step less.prems(1) show ?thesis by (auto split: if_splits)
  next
    case False
    then obtain l rest where w: "ready (inventory s) \<noteq> []" "waiters s = l # rest"
      by (cases "waiters s") auto
    let ?s1 = "s\<lparr>waiters := rest\<rparr>"
    show ?thesis
    proof (cases "fmlookup (group_waiters s) l")
      case None
      have "accounted owner D base ?s1" using less.prems(1) by (simp add: accounted_def)
      with less.hyps [of ?s1] step w None show ?thesis by simp
    next
      case (Some ps)
      let ?s2 = "?s1\<lparr>group_waiters := fmdrop l (group_waiters s)\<rparr>"
      have q: "quiet s ?s2" by (auto simp: quiet_def split: if_splits)
      show ?thesis
      proof (cases "fmlookup (lease_records s) l = Some Closed")
        case True
        let ?s3 = "reject_all env LeaseClosed ps ?s2"
        have "quiet ?s2 ?s3" by (auto simp: quiet_def reject_all_eq fun_eq_iff)
        then have "accounted owner D base ?s3" using accounted_quiet [OF less.prems(1)] quiet_trans [OF q] by blast
        with less.hyps [of ?s3] step w Some True show ?thesis by simp
      next
        case open_lease: False
        have "bind_res (dispatch_replies env l ps ?s2) (\<lambda>s3.
                bind_res (if l |\<in>| fmdom (leases ?s2) then Inr (False, s3) else restore_unclaimed_database l s3)
                  (\<lambda>(restored, s4). dispatch_waiters env s4)) = Inr s'"
          using step w Some open_lease by (simp add: Let_def)
        then obtain s3 b s4 where s3: "dispatch_replies env l ps ?s2 = Inr s3"
          and s4: "(if l |\<in>| fmdom (leases ?s2) then Inr (False, s3) else restore_unclaimed_database l s3) = Inr (b, s4)"
          and d: "dispatch_waiters env s4 = Inr s'"
          by (elim bind_resE bind_res_pairE)
        have "\<forall>p \<in> set ps. owner (fst p) = Some l" using less.prems(1) Some by (auto simp: accounted_def)
        from accounted_dispatch_replies [OF accounted_quiet [OF less.prems(1) q] this s3]
        have "accounted owner D base s3" .
        moreover have "quiet s3 s4" using s4 quiet_restore by (auto split: if_splits)
        moreover have "waiters s4 = rest"
          using s4 waiters_dispatch_replies [OF s3] by (auto dest: waiters_restore split: if_splits)
        ultimately show ?thesis using less.hyps [OF _ accounted_quiet d] w by simp
      qed
    qed
  qed
qed

lemma accounted_enqueue_waiter:
  assumes "accounted owner D base s" "owner c = Some l"
  shows "accounted owner D base (enqueue_waiter l c t s)"
proof -
  have "counters (enqueue_waiter l c t s) = counters s" by (simp add: enqueue_waiter_def Let_def)
  moreover have "\<forall>p \<in> set ws. owner (fst p) = Some l'"
    if "fmlookup (group_waiters (enqueue_waiter l c t s)) l' = Some ws" for l' ws
  proof -
    have "\<forall>l ws. fmlookup (group_waiters s) l = Some ws \<longrightarrow> (\<forall>p \<in> set ws. owner (fst p) = Some l)"
      using assms(1) by (simp add: accounted_def)
    with that assms(2) show ?thesis
      by (fastforce simp: enqueue_waiter_def Let_def split: if_splits option.splits)
  qed
  ultimately show ?thesis using assms(1) by (simp add: accounted_def)
qed

lemma accounted_attach_or_join:
  assumes "accounted owner D base s" "owner c = Some l" "attach_or_join env l c t s = Inr s'"
  shows "accounted owner D base s'"
proof -
  obtain r s1 where a: "admit_lease l s = (r, s1)" by (cases "admit_lease l s")
  have s1: "accounted owner D base s1" by (rule accounted_quiet [OF assms(1) quiet_admit [OF a]])
  show ?thesis
  proof (cases "r = Inr Open")
    case False
    with a assms(3) obtain e where "s' = snd (send_reply env c (AttachRejected e) s1)"
      by (auto simp: attach_or_join_def split: sum.splits LeaseStatus.splits)
    with accounted_quiet [OF s1 quiet_send_reply] show ?thesis by simp
  next
    case True
    note eq = assms(3) [unfolded attach_or_join_eq [OF a [unfolded True], of env c t]]
    show ?thesis
    proof (cases "fmlookup (leases s1) l")
      case (Some e)
      then have "reply_attached env l (db_name (database e)) c s1 = Inr s'" using eq by simp
      from accounted_reply_attached [OF s1 assms(2) this] Some show ?thesis by simp
    next
      case None
      show ?thesis
      proof (cases "take_ready (inventory s1)")
        case (Pair db iv)
        show ?thesis
        proof (cases db)
          case dbN: None
          with eq None Pair have "grow env (enqueue_waiter l c t s1) = Inr s'" by simp
          from accounted_quiet [OF accounted_enqueue_waiter [OF s1 assms(2)] quiet_grow [OF this]]
          show ?thesis .
        next
          case (Some d)
          obtain name s2 s3 b s4 s5 where
            a2: "assign_database env l d (s1\<lparr>inventory := iv\<rparr>) = Inr (name, s2)"
            and a3: "reply_attached env l name c s2 = Inr s3"
            and a4: "restore_unclaimed_database l s3 = Inr (b, s4)"
            and a5: "(if b then dispatch_waiters env s4 else Inr s4) = Inr s5" and a6: "grow env s5 = Inr s'"
            using eq None Pair Some by (auto simp: attach_fresh_def bind_res_eq_Inr)
          have "accounted owner D base s2"
            using accounted_assign_database [OF _ _ a2] s1 None by (simp add: accounted_inventory)
          from accounted_quiet [OF accounted_reply_attached [OF this assms(2) a3 assign_database_name [OF a2]] quiet_restore [OF a4]]
          have "accounted owner D base s4" .
          with a5 have "accounted owner D base s5"
            using accounted_dispatch_waiters by (auto split: if_splits)
          from accounted_quiet [OF this quiet_grow [OF a6]] show ?thesis .
        qed
      qed
    qed
  qed
qed

lemma accounted_worker_message:
  assumes "accounted owner D base s" "handle_database_worker_message env m s = Inr s'"
  shows "accounted owner D base s'"
proof (cases m)
  case (CleanupFinished d r)
  with assms show ?thesis by (auto simp: handle_database_worker_message_def accounted_inventory)
next
  case (CreationFinished d r)
  obtain o' iv where c: "complete_creation d r (inventory s) = (o', iv)" by (cases "complete_creation d r (inventory s)")
  show ?thesis
  proof (cases o')
    case None
    with assms c CreationFinished show ?thesis
      by (auto simp: handle_database_worker_message_def accounted_inventory)
  next
    case (Some settled)
    let ?s = "case settled of
        Inl e \<Rightarrow> s\<lparr>inventory := iv, counters := (counters s)\<lparr>template_create_failures := template_create_failures (counters s) + 1\<rparr>\<rparr>
      | Inr u \<Rightarrow> s\<lparr>inventory := iv\<rparr>"
    have "bind_res (dispatch_waiters env ?s) (grow env) = Inr s'"
      using assms(2) c Some CreationFinished
      by (cases settled) (simp_all add: handle_database_worker_message_def Let_def)
    then obtain s1 where "dispatch_waiters env ?s = Inr s1" "grow env s1 = Inr s'" by (rule bind_resE)
    moreover have "accounted owner D base ?s" using assms(1) by (cases settled) (simp_all add: accounted_def)
    ultimately show ?thesis using accounted_dispatch_waiters accounted_quiet [OF _ quiet_grow] by metis
  qed
qed

section \<open>Detaching\<close>

text \<open>The account after a detachment of generation \<open>g\<close> of lease \<open>l\<close> has been handled.\<close>

definition count_detach :: "LeaseId \<Rightarrow> u64 \<Rightarrow> (LeaseId \<Rightarrow> u64 \<Rightarrow> nat) \<Rightarrow> LeaseId \<Rightarrow> u64 \<Rightarrow> nat" where
  "count_detach l g D = (\<lambda>l' g'. D l' g' + (if l' = l \<and> g' = g then 1 else 0))"

lemma accounted_detach:
  assumes "accounted owner D base s" "D l g < attached_to owner (calls s) l g"
  shows "accounted owner (count_detach l g D) base (handle_detach l g s)"
proof -
  have up: "\<not> next_generation s < g" using assms by (auto simp: accounted_def)
  have e: "conns e \<noteq> 0" if "fmlookup (leases s) l = Some e" "generation e = g" for e
    using assms that by (fastforce simp: accounted_def)
  have w: "Suc (unat (w - 1) + n) = unat w + n" if "w \<noteq> 0" for w :: u16 and n
    using that unat_minus_one [OF that] unat_gt_0 [of w] by simp
  have held: "(\<exists>e. fmlookup (leases (handle_detach l g s)) l' = Some e \<and> generation e = g') \<longleftrightarrow>
      (\<exists>e. fmlookup (leases s) l' = Some e \<and> generation e = g')" for l' g'
    by (auto simp: handle_detach_def split: option.splits)
  have calls: "calls (handle_detach l g s) = calls s"
    by (auto simp: handle_detach_def split: option.splits)
  show ?thesis
    unfolding accounted_def
  proof (intro conjI)
    show "\<forall>l' g'. attached_to owner (calls (handle_detach l g s)) l' g' \<noteq> 0 \<longrightarrow>
        (\<exists>e. fmlookup (leases (handle_detach l g s)) l' = Some e \<and> generation e = g') \<or>
        CancelToken (ChildToken g') \<in> set (calls (handle_detach l g s))"
      unfolding held calls using accounted_held [OF assms(1)] by blast
    have "unique_claims owner (calls s) (leases s)" using assms(1) by (simp add: accounted_def)
    then show "unique_claims owner (calls (handle_detach l g s)) (leases (handle_detach l g s))"
      unfolding unique_claims_def lease_claims_def held calls .
    have "names_kept owner (calls s) (leases s)" using assms(1) by (simp add: accounted_def)
    then show "names_kept owner (calls (handle_detach l g s)) (leases (handle_detach l g s))"
      by (rule names_kept_mono) (auto simp: calls, auto simp: handle_detach_def split: option.splits if_splits)
  qed (use assms(1) up e in
      \<open>auto simp: w accounted_def handle_detach_def count_detach_def split: option.splits if_splits\<close>)
qed

lemma accounted_handle_message:
  assumes "accounted owner D base s" "handle_message env msg s = Inr (go, s')"
    and "\<And>l c t. msg = AttachOrJoin l c t \<Longrightarrow> owner c = Some l"
    and "\<And>l g. msg = Detach l g \<Longrightarrow> D l g < attached_to owner (calls s) l g"
  shows "accounted owner (case msg of Detach l g \<Rightarrow> count_detach l g D | _ \<Rightarrow> D) base s'"
proof (cases msg)
  case (AttachOrJoin l c t)
  with assms(2) have "attach_or_join env l c t s = Inr s'" by (auto simp: handle_message_def bind_res_eq_Inr)
  from accounted_attach_or_join [OF assms(1,3) this] AttachOrJoin show ?thesis by simp
next
  case (ReleaseLease l c)
  with assms(2) obtain r s1 where "release_lease env l s = Inr (r, s1)"
    "s' = snd (send_reply env c (ReleaseResult r) s1)"
    by (auto simp: handle_message_def bind_res_eq_Inr)
  with accounted_quiet [OF assms(1) quiet_trans [OF quiet_release_lease quiet_send_reply]] ReleaseLease
  show ?thesis by simp
next
  case (Detach l g)
  with assms(2) accounted_detach [OF assms(1,4)] show ?thesis by (simp add: handle_message_def)
next
  case (LeaseMaxTimeReached l g)
  let ?s = "s\<lparr>counters := (counters s)\<lparr>rejected_attach_max_lifetime := rejected_attach_max_lifetime (counters s) + 1\<rparr>\<rparr>"
  have "quiet s ?s" by (simp add: quiet_def)
  moreover have "s' = s \<or> retire_lease env l ?s = Inr s'"
    using assms(2) LeaseMaxTimeReached
    by (auto simp: handle_message_def handle_max_time_def bind_res_eq_Inr split: option.splits if_splits)
  ultimately have "quiet s s'" using quiet_retire_lease quiet_trans quiet_refl by metis
  with accounted_quiet [OF assms(1)] LeaseMaxTimeReached show ?thesis by simp
next
  case (DatabaseWorker m)
  with assms(2) have "handle_database_worker_message env m s = Inr s'"
    by (auto simp: handle_message_def bind_res_eq_Inr)
  from accounted_worker_message [OF assms(1) this] DatabaseWorker show ?thesis by simp
next
  case Shutdown
  with assms(2) have "quiet s s'" by (auto simp: handle_message_def quiet_def fun_eq_iff)
  with accounted_quiet [OF assms(1)] Shutdown show ?thesis by simp
qed

end
