(* ===== verification/Pool_Spec.thy ===== *)
theory Pool_Spec
  imports Prelude
begin

text \<open>
  The abstract specification of the pool that the engine refines: databases are names that are
  created once, wait in the pool, are assigned to one generation of a lease, handed to clients,
  and either given back untouched or retired for good. Its invariant is the isolation promise of
  the program: a database that a client has received is never received under another generation.
\<close>

section \<open>The pool\<close>

record pool =
  free :: "ReadString set"
  holder :: "u64 \<rightharpoonup> ReadString"
  handed :: "(ReadString \<times> u64) set"
  issued :: u64
  seen :: "ReadString set"

definition pool_empty :: pool where
  "pool_empty = \<lparr>free = {}, holder = Map.empty, handed = {}, issued = 0, seen = {}\<rparr>"

inductive pool_step :: "pool \<Rightarrow> pool \<Rightarrow> bool" where
  create: "n \<notin> seen p \<Longrightarrow>
     pool_step p (p\<lparr>free := insert n (free p), seen := insert n (seen p)\<rparr>)"
| assign: "n \<in> free p \<Longrightarrow> issued p < g \<Longrightarrow>
     pool_step p (p\<lparr>free := free p - {n}, holder := (holder p)(g \<mapsto> n), issued := g\<rparr>)"
| hand: "holder p g = Some n \<Longrightarrow>
     pool_step p (p\<lparr>handed := insert (n, g) (handed p)\<rparr>)"
| give_back: "holder p g = Some n \<Longrightarrow> (n, g) \<notin> handed p \<Longrightarrow>
     pool_step p (p\<lparr>free := insert n (free p), holder := (holder p)(g := None)\<rparr>)"
| discard: "holder p g = Some n \<Longrightarrow>
     pool_step p (p\<lparr>holder := (holder p)(g := None)\<rparr>)"

section \<open>Invariant\<close>

definition pool_inv :: "pool \<Rightarrow> bool" where
  "pool_inv p \<longleftrightarrow>
     free p \<subseteq> seen p \<and>
     (\<forall>g n. holder p g = Some n \<longrightarrow> n \<in> seen p \<and> n \<notin> free p \<and> g \<le> issued p) \<and>
     (\<forall>g g' n. holder p g = Some n \<longrightarrow> holder p g' = Some n \<longrightarrow> g = g') \<and>
     (\<forall>n g. (n, g) \<in> handed p \<longrightarrow> n \<in> seen p \<and> n \<notin> free p \<and> g \<le> issued p \<and>
        (\<forall>g'. holder p g' = Some n \<longrightarrow> g' = g) \<and> (\<forall>n'. holder p g = Some n' \<longrightarrow> n' = n)) \<and>
     (\<forall>n g g'. (n, g) \<in> handed p \<longrightarrow> (n, g') \<in> handed p \<longrightarrow> g = g') \<and>
     (\<forall>n n' g. (n, g) \<in> handed p \<longrightarrow> (n', g) \<in> handed p \<longrightarrow> n = n')"

lemma pool_inv_empty: "pool_inv pool_empty"
  by (simp add: pool_inv_def pool_empty_def)

lemma pool_inv_seen: "pool_inv p \<Longrightarrow> n \<in> free p \<Longrightarrow> n \<in> seen p"
  by (auto simp: pool_inv_def)

lemma pool_inv_holder:
  "pool_inv p \<Longrightarrow> holder p g = Some n \<Longrightarrow> n \<in> seen p \<and> n \<notin> free p \<and> g \<le> issued p"
  by (simp add: pool_inv_def)

lemma pool_inv_holder_inj:
  "pool_inv p \<Longrightarrow> holder p g = Some n \<Longrightarrow> holder p g' = Some n \<Longrightarrow> g = g'"
  unfolding pool_inv_def by blast

lemma pool_inv_handed:
  "pool_inv p \<Longrightarrow> (n, g) \<in> handed p \<Longrightarrow> n \<in> seen p \<and> n \<notin> free p \<and> g \<le> issued p"
  by (simp add: pool_inv_def)

lemma pool_inv_handed_holder:
  "pool_inv p \<Longrightarrow> (n, g) \<in> handed p \<Longrightarrow> holder p g' = Some n \<Longrightarrow> g' = g"
  unfolding pool_inv_def by blast

lemma pool_inv_handed_name:
  "pool_inv p \<Longrightarrow> (n, g) \<in> handed p \<Longrightarrow> holder p g = Some n' \<Longrightarrow> n' = n"
  unfolding pool_inv_def by blast

lemma pool_inv_isolated:
  "pool_inv p \<Longrightarrow> (n, g) \<in> handed p \<Longrightarrow> (n, g') \<in> handed p \<Longrightarrow> g = g'"
  unfolding pool_inv_def by blast

lemma pool_inv_one_name:
  "pool_inv p \<Longrightarrow> (n, g) \<in> handed p \<Longrightarrow> (n', g) \<in> handed p \<Longrightarrow> n = n'"
  unfolding pool_inv_def by blast

lemmas pool_invD = pool_inv_seen pool_inv_holder pool_inv_holder_inj pool_inv_handed
  pool_inv_handed_holder pool_inv_handed_name pool_inv_isolated pool_inv_one_name

lemma pool_inv_create:
  assumes "pool_inv p" "n \<notin> seen p"
  shows "pool_inv (p\<lparr>free := insert n (free p), seen := insert n (seen p)\<rparr>)"
  using assms unfolding pool_inv_def by auto

lemma pool_inv_assign:
  assumes "pool_inv p" "n \<in> free p" "issued p < g"
  shows "pool_inv (p\<lparr>free := free p - {n}, holder := (holder p)(g \<mapsto> n), issued := g\<rparr>)"
proof -
  have fresh: "g' \<noteq> g" "g' \<le> g" if "g' \<le> issued p" for g'
    using that assms(3) by auto
  have held: "n' \<noteq> n \<and> g' \<noteq> g \<and> g' \<le> g \<and> n' \<in> seen p \<and> n' \<notin> free p" if "holder p g' = Some n'" for g' n'
    using pool_inv_holder [OF assms(1) that] assms(2) fresh by auto
  have del: "n' \<noteq> n \<and> g' \<noteq> g \<and> g' \<le> g \<and> n' \<in> seen p \<and> n' \<notin> free p" if "(n', g') \<in> handed p" for g' n'
    using pool_inv_handed [OF assms(1) that] assms(2) fresh by auto
  show ?thesis
    unfolding pool_inv_def
    using held del pool_invD [OF assms(1)] pool_inv_seen [OF assms(1) assms(2)]
    by (auto split: if_splits)
qed

lemma pool_inv_hand:
  assumes "pool_inv p" "holder p g = Some n"
  shows "pool_inv (p\<lparr>handed := insert (n, g) (handed p)\<rparr>)"
proof -
  have hand: "m \<in> seen p \<and> m \<notin> free p \<and> h \<le> issued p \<and>
      (\<forall>h'. holder p h' = Some m \<longrightarrow> h' = h) \<and> (\<forall>m'. holder p h = Some m' \<longrightarrow> m' = m)"
    if "(m, h) \<in> insert (n, g) (handed p)" for m h
  proof (cases "(m, h) = (n, g)")
    case True
    have "\<forall>h'. holder p h' = Some n \<longrightarrow> h' = g"
      using pool_inv_holder_inj [OF assms(1) _ assms(2)] by blast
    moreover have "\<forall>m'. holder p g = Some m' \<longrightarrow> m' = n" using assms(2) by auto
    moreover have "m = n" "h = g" using True by auto
    ultimately show ?thesis using pool_inv_holder [OF assms] by blast
  next
    case False
    with that have "(m, h) \<in> handed p" by auto
    then show ?thesis
      using pool_inv_handed pool_inv_handed_holder pool_inv_handed_name assms(1) by blast
  qed
  have same: "h = h'" if "(m, h) \<in> insert (n, g) (handed p)" "(m, h') \<in> insert (n, g) (handed p)" for m h h'
    using that pool_inv_isolated [OF assms(1)] pool_inv_handed_holder [OF assms(1) _ assms(2)]
    by (metis insertE prod.inject)
  have one: "m = m'" if "(m, h) \<in> insert (n, g) (handed p)" "(m', h) \<in> insert (n, g) (handed p)" for m m' h
    using that pool_inv_one_name [OF assms(1)] pool_inv_handed_name [OF assms(1) _ assms(2)]
    by (metis insertE prod.inject)
  define q where "q = p\<lparr>handed := insert (n, g) (handed p)\<rparr>"
  have q: "free q = free p" "holder q = holder p" "handed q = insert (n, g) (handed p)"
    "issued q = issued p" "seen q = seen p"
    by (simp_all add: q_def)
  show ?thesis
    unfolding q_def [symmetric] pool_inv_def q
  proof (intro conjI, goal_cases)
    case 4
    show ?case by (intro allI impI) (rule hand)
  next
    case 5
    show ?case by (intro allI impI) (rule same)
  next
    case 6
    show ?case by (intro allI impI) (rule one)
  qed (use assms(1) in \<open>simp_all add: pool_inv_def\<close>)
qed

lemma pool_inv_give_back:
  assumes "pool_inv p" "holder p g = Some n" "(n, g) \<notin> handed p"
  shows "pool_inv (p\<lparr>free := insert n (free p), holder := (holder p)(g := None)\<rparr>)"
proof -
  have "(n, g') \<notin> handed p" for g'
    using assms pool_inv_handed_holder [OF assms(1)] by blast
  then have del: "n' \<noteq> n" if "(n', g') \<in> handed p" for n' g'
    using that by auto
  have held: "n' \<noteq> n" if "holder p g' = Some n'" "g' \<noteq> g" for n' g'
    using that pool_inv_holder_inj [OF assms(1,2)] by auto
  show ?thesis
    unfolding pool_inv_def
    using del held pool_invD [OF assms(1)] pool_inv_holder [OF assms(1,2)]
    by (auto split: if_splits)
qed

lemma pool_inv_discard:
  assumes "pool_inv p"
  shows "pool_inv (p\<lparr>holder := (holder p)(g := None)\<rparr>)"
  using assms unfolding pool_inv_def by auto

lemma pool_inv_step: "pool_step p p' \<Longrightarrow> pool_inv p \<Longrightarrow> pool_inv p'"
  by (induction rule: pool_step.induct)
    (simp_all add: pool_inv_create pool_inv_assign pool_inv_hand pool_inv_give_back pool_inv_discard)

interpretation pool: step_invariant pool_step pool_inv
  by unfold_locales (rule pool_inv_step)

lemmas pool_inv_steps = pool.inv_run

end
