(* ===== verification/Engine_Refinement.thy ===== *)
theory Engine_Refinement
  imports Engine_Invariant Pool_Spec
begin

text \<open>
  The engine refines the abstract pool: every message the engine handles is a sequence of steps of
  the pool, where the databases of a pool are the names that clients receive. The log of replies
  gives the names and generations that reached a client.
\<close>

section \<open>The abstraction relation\<close>

definition delivered :: "'c call list \<Rightarrow> (ReadString \<times> u64) set" where
  "delivered log = {(n, g). \<exists>c tk. Reply c (Attached n g tk) True \<in> set log}"

lemma delivered_simps [simp]:
  "delivered [] = {}"
  "delivered (log @ log') = delivered log \<union> delivered log'"
  "delivered (c # c' # log) = delivered [c] \<union> delivered (c' # log)"
  by (auto simp: delivered_def)

lemma delivered_call [simp]:
  "delivered [Reply c (Attached n g tk) b] = (if b then {(n, g)} else {})"
  "delivered [Reply c (AttachRejected e) b] = {}"
  "delivered [Reply c FailedToAttach b] = {}"
  "delivered [Reply c (ReleaseResult r) b] = {}"
  "delivered [RequestCreation req b] = {}"
  "delivered [RequestCleanup creq b] = {}"
  "delivered [SendDelayed l gen t tk b] = {}"
  "delivered [CancelToken tk] = {}"
  "delivered [CancelRoot] = {}"
  by (auto simp: delivered_def)

lemma delivered_rejections [simp]:
  "delivered (map (\<lambda>(c, t). Reply c (AttachRejected e) (f c)) ws) = {}"
  by (auto simp: delivered_def)

definition holds :: "(LeaseId, LeaseEntry) fmap \<Rightarrow> u64 \<Rightarrow> ReadString \<Rightarrow> bool" where
  "holds ls g n \<longleftrightarrow>
     (\<exists>l e. fmlookup ls l = Some e \<and> generation e = g \<and> db_name (database e) = n)"

definition pool_of :: "'c WorkerEngine \<Rightarrow> pool \<Rightarrow> bool" where
  "pool_of s p \<longleftrightarrow>
     pool_inv p \<and>
     free p = db_name ` set (ready (inventory s)) \<and> distinct (map db_name (ready (inventory s))) \<and>
     (\<forall>g n. holder p g = Some n \<longleftrightarrow> holds (leases s) g n) \<and>
     handed p = delivered (calls s) \<and> issued p = next_generation s"

text \<open>
  \<open>simulates N s s'\<close>: what leads from \<open>s\<close> to \<open>s'\<close> is a sequence of pool steps that creates no
  name outside \<open>N\<close>.
\<close>

definition simulates :: "ReadString set \<Rightarrow> 'c WorkerEngine \<Rightarrow> 'c WorkerEngine \<Rightarrow> bool" where
  "simulates N s s' \<longleftrightarrow>
     (\<forall>p. pool_of s p \<longrightarrow> N \<inter> seen p = {} \<longrightarrow>
        (\<exists>p'. pool_step\<^sup>*\<^sup>* p p' \<and> pool_of s' p' \<and> seen p' \<subseteq> seen p \<union> N))"

lemma simulatesE:
  assumes "simulates N s s'" "pool_of s p" "N \<inter> seen p = {}"
  obtains p' where "pool_step\<^sup>*\<^sup>* p p'" "pool_of s' p'" "seen p' \<subseteq> seen p \<union> N"
  using assms unfolding simulates_def by blast

lemma simulates_trans:
  assumes "simulates M s s1" "simulates N s1 s2" "M \<inter> N = {}"
  shows "simulates (M \<union> N) s s2"
  unfolding simulates_def
proof (intro allI impI)
  fix p assume p: "pool_of s p" "(M \<union> N) \<inter> seen p = {}"
  with assms(1) obtain p1 where p1: "pool_step\<^sup>*\<^sup>* p p1" "pool_of s1 p1" "seen p1 \<subseteq> seen p \<union> M"
    unfolding simulates_def by blast
  have "N \<inter> seen p1 = {}" using p(2) p1(3) assms(3) by blast
  with assms(2) p1(2) obtain p2 where "pool_step\<^sup>*\<^sup>* p1 p2" "pool_of s2 p2" "seen p2 \<subseteq> seen p1 \<union> N"
    unfolding simulates_def by blast
  with p1 show "\<exists>p'. pool_step\<^sup>*\<^sup>* p p' \<and> pool_of s2 p' \<and> seen p' \<subseteq> seen p \<union> (M \<union> N)"
    by (intro exI [of _ p2]) auto
qed

lemmas simulates_then = simulates_trans [where M = "{}", simplified]
  simulates_trans [where N = "{}", simplified]

text \<open>Two states with the same pool view.\<close>

definition same_pool :: "'c WorkerEngine \<Rightarrow> 'c WorkerEngine \<Rightarrow> bool" where
  "same_pool s s' \<longleftrightarrow> ready (inventory s') = ready (inventory s) \<and> leases s' = leases s \<and>
     delivered (calls s') = delivered (calls s) \<and> next_generation s' = next_generation s"

lemma simulates_same: "same_pool s s' \<Longrightarrow> simulates {} s s'"
  unfolding simulates_def pool_of_def same_pool_def by (metis Un_empty_right rtranclp.rtrancl_refl subset_refl)

lemma simulates_step:
  assumes "\<And>p. pool_of s p \<Longrightarrow> \<exists>p'. pool_step p p' \<and> seen p' = seen p \<and>
     free p' = db_name ` set (ready (inventory s')) \<and> distinct (map db_name (ready (inventory s'))) \<and>
     (\<forall>g n. holder p' g = Some n \<longleftrightarrow> holds (leases s') g n) \<and>
     handed p' = delivered (calls s') \<and> issued p' = next_generation s'"
  shows "simulates {} s s'"
  unfolding simulates_def
proof (intro allI impI)
  fix p assume p: "pool_of s p"
  with assms obtain p' where p': "pool_step p p'" "seen p' = seen p"
     "free p' = db_name ` set (ready (inventory s'))" "distinct (map db_name (ready (inventory s')))"
     "\<forall>g n. holder p' g = Some n \<longleftrightarrow> holds (leases s') g n"
     "handed p' = delivered (calls s')" "issued p' = next_generation s'"
    by metis
  have "pool_inv p'"
    using pool_inv_step [OF p'(1)] p by (simp add: pool_of_def)
  with p' have "pool_of s' p'" by (simp add: pool_of_def)
  with p'(1,2) show "\<exists>p'. pool_step\<^sup>*\<^sup>* p p' \<and> pool_of s' p' \<and> seen p' \<subseteq> seen p \<union> {}"
    by (intro exI [of _ p']) simp
qed

section \<open>The single steps\<close>

lemma holds_drop:
  assumes "lease_inv ls g0 iv" "fmlookup ls l = Some e"
  shows "holds (fmdrop l ls) g n \<longleftrightarrow> g \<noteq> generation e \<and> holds ls g n"
proof -
  have "generation e' \<noteq> generation e" if "fmlookup ls l' = Some e'" "l' \<noteq> l" for l' e'
    using assms that unfolding lease_inv_def by blast
  with assms(2) show ?thesis unfolding holds_def by (auto split: if_splits)
qed

lemma holds_upd_conns:
  "fmlookup ls l = Some e \<Longrightarrow> holds (fmupd l (e\<lparr>conns := k\<rparr>) ls) g n \<longleftrightarrow> holds ls g n"
  unfolding holds_def by (auto split: if_splits) (metis option.inject)

lemma holds_generation:
  assumes "lease_inv ls g0 iv" "fmlookup ls l = Some e"
  shows "holds ls (generation e) n \<longleftrightarrow> n = db_name (database e)"
proof -
  have "e' = e" if "fmlookup ls l' = Some e'" "generation e' = generation e" for l' e'
  proof (cases "l' = l")
    case False
    with assms that show ?thesis unfolding lease_inv_def by blast
  qed (use assms(2) that in simp)
  with assms(2) show ?thesis unfolding holds_def by blast
qed

lemma holds_fmupd:
  assumes "fmlookup ls l = None"
  shows "holds (fmupd l e ls) g n \<longleftrightarrow>
           (generation e = g \<and> db_name (database e) = n) \<or> holds ls g n"
proof
  assume "(generation e = g \<and> db_name (database e) = n) \<or> holds ls g n"
  then show "holds (fmupd l e ls) g n"
  proof
    assume "holds ls g n"
    then obtain l' e' where "fmlookup ls l' = Some e'" "generation e' = g" "db_name (database e') = n"
      by (auto simp: holds_def)
    with assms show ?thesis unfolding holds_def by (intro exI [of _ l'] exI [of _ e']) auto
  qed (auto simp: holds_def)
qed (auto simp: holds_def split: if_splits)

lemma simulates_reply:
  assumes "lease_inv (leases s) (next_generation s) (inventory s)" "fmlookup (leases s) l = Some e"
    and "reply_attached env l (db_name (database e)) c s = Inr s'"
  shows "simulates {} s s'"
proof (cases "conns e \<noteq> - 1 \<and> accepts env c (attach_msg e (db_name (database e)))")
  case True
  let ?n = "db_name (database e)" and ?g = "generation e"
  have s': "ready (inventory s') = ready (inventory s)" "next_generation s' = next_generation s"
    "delivered (calls s') = insert (?n, ?g) (delivered (calls s))"
    "leases s' = fmupd l (e\<lparr>conns := conns e + 1\<rparr>) (leases s)"
    using assms(3) True by (auto simp: reply_attached_eq [OF assms(2)] attach_msg_def attach_conns_def)
  show ?thesis
  proof (rule simulates_step)
    fix p assume p: "pool_of s p"
    then have "holder p ?g = Some ?n"
      using assms(2) by (auto simp: pool_of_def holds_def)
    from p pool_step.hand [OF this] show "\<exists>p'. pool_step p p' \<and> seen p' = seen p \<and>
       free p' = db_name ` set (ready (inventory s')) \<and> distinct (map db_name (ready (inventory s'))) \<and>
       (\<forall>g n. holder p' g = Some n \<longleftrightarrow> holds (leases s') g n) \<and>
       handed p' = delivered (calls s') \<and> issued p' = next_generation s'"
      by (intro exI [of _ "p\<lparr>handed := insert (?n, ?g) (handed p)\<rparr>"])
        (simp add: pool_of_def s' holds_upd_conns [OF assms(2)])
  qed
next
  case False
  then have "attach_conns env c e (db_name (database e)) = conns e"
    by (auto simp: attach_conns_def)
  then have "same_pool s s'"
    using assms(3) fmupd_same [OF assms(2)] False
    by (auto simp: reply_attached_eq [OF assms(2)] attach_msg_def same_pool_def split: if_splits)
  then show ?thesis by (rule simulates_same)
qed

lemma simulates_assign:
  assumes "lease_inv (leases s) (next_generation s) (inventory s)" "l |\<notin>| fmdom (leases s)"
    and "take_ready (inventory s) = (Some db, iv)"
    and "assign_database env l db (s\<lparr>inventory := iv\<rparr>) = Inr (name, s')"
  shows "simulates {} s s'"
proof (rule simulates_step)
  from assms(4) obtain g where g: "checked_add (next_generation s) 1 = Some g"
    by (auto simp: assign_database_def split: option.splits)
  from g have lt: "next_generation s < g"
    using unat_checked_add [OF g] by (simp add: word_less_nat_alt)
  from assms(3) obtain rest where r: "ready (inventory s) = db # rest" "iv = (inventory s)\<lparr>ready := rest\<rparr>"
    by (auto simp: take_ready_Some)
  have s': "ready (inventory s') = rest" "next_generation s' = g"
    "delivered (calls s') = delivered (calls s)"
    "leases s' = fmupd l \<lparr>database = db, conns = 0, generation = g, cancellation = ChildToken g\<rparr> (leases s)"
    using assms(4) r(2) assign_database_eq [of "s\<lparr>inventory := iv\<rparr>", simplified, OF g, of env l db]
    by (auto split: if_splits)
  have out: "fmlookup (leases s) l = None" using assms(2) by (simp add: fmlookup_fmdom)
  have fresh: "\<not> holds (leases s) g n" for n
  proof
    assume "holds (leases s) g n"
    then obtain l' e where "fmlookup (leases s) l' = Some e" "generation e = g"
      by (auto simp: holds_def)
    then have "unat g \<le> unat (next_generation s)"
      using assms(1) by (auto simp: lease_inv_def entry_ok_def)
    with lt show False by (simp add: word_less_nat_alt)
  qed
  have holds': "holds (leases s') g' n \<longleftrightarrow> (if g' = g then n = db_name db else holds (leases s) g' n)" for g' n
  proof -
    have "holds (leases s') g' n \<longleftrightarrow> g' = g \<and> n = db_name db \<or> holds (leases s) g' n"
      unfolding s' by (auto simp: holds_fmupd [OF out])
    with fresh show ?thesis by auto
  qed
  fix p assume p: "pool_of s p"
  then have "pool_step p (p\<lparr>free := free p - {db_name db}, holder := (holder p)(g \<mapsto> db_name db), issued := g\<rparr>)"
    using lt r by (intro pool_step.assign) (simp_all add: pool_of_def)
  with p r show "\<exists>p'. pool_step p p' \<and> seen p' = seen p \<and>
     free p' = db_name ` set (ready (inventory s')) \<and> distinct (map db_name (ready (inventory s'))) \<and>
     (\<forall>g n. holder p' g = Some n \<longleftrightarrow> holds (leases s') g n) \<and>
     handed p' = delivered (calls s') \<and> issued p' = next_generation s'"
    by (intro exI [of _ "p\<lparr>free := free p - {db_name db}, holder := (holder p)(g \<mapsto> db_name db), issued := g\<rparr>"])
      (auto simp: pool_of_def s'(1-3) holds')
qed

text \<open>
  A lease whose connection count is zero can go back to the pool only when nobody has received its
  database: right after the assignment the count is the number of deliveries.
\<close>

definition unclaimed_ok :: "LeaseId \<Rightarrow> 'c WorkerEngine \<Rightarrow> bool" where
  "unclaimed_ok l s \<longleftrightarrow>
     (\<forall>e. fmlookup (leases s) l = Some e \<longrightarrow> conns e = 0 \<longrightarrow>
        (db_name (database e), generation e) \<notin> delivered (calls s))"

lemma simulates_restore:
  assumes "lease_inv (leases s) (next_generation s) (inventory s)" "unclaimed_ok l s"
    and "restore_unclaimed_database l s = Inr (b, s')"
  shows "simulates {} s s'"
proof (cases "\<exists>e. fmlookup (leases s) l = Some e \<and> conns e = 0")
  case False
  with assms(3) have "same_pool s s'"
    by (auto simp: restore_unclaimed_database_def same_pool_def split: option.splits)
  then show ?thesis by (rule simulates_same)
next
  case True
  then obtain e where e: "fmlookup (leases s) l = Some e" "conns e = 0" by blast
  have s': "ready (inventory s') = database e # ready (inventory s)" "leases s' = fmdrop l (leases s)"
    "delivered (calls s') = delivered (calls s)" "next_generation s' = next_generation s"
    using assms(3) e
    by (auto simp: restore_unclaimed_database_def return_ready_def record_call_def Let_def)
  show ?thesis
  proof (rule simulates_step)
    fix p assume p: "pool_of s p"
    let ?n = "db_name (database e)" and ?g = "generation e"
    from p e(1) have hold: "holder p ?g = Some ?n" by (auto simp: pool_of_def holds_def)
    moreover have "pool_inv p" using p by (simp add: pool_of_def)
    ultimately have out: "?n \<notin> free p" using pool_inv_holder by blast
    have "(?n, ?g) \<notin> handed p"
      using assms(2) e p by (simp add: unclaimed_ok_def pool_of_def)
    with hold have step: "pool_step p (p\<lparr>free := insert ?n (free p), holder := (holder p)(?g := None)\<rparr>)"
      by (rule pool_step.give_back)
    show "\<exists>p'. pool_step p p' \<and> seen p' = seen p \<and>
       free p' = db_name ` set (ready (inventory s')) \<and> distinct (map db_name (ready (inventory s'))) \<and>
       (\<forall>g n. holder p' g = Some n \<longleftrightarrow> holds (leases s') g n) \<and>
       handed p' = delivered (calls s') \<and> issued p' = next_generation s'"
      by (rule exI, rule conjI, rule step)
        (use p out in \<open>auto simp: s' pool_of_def holds_drop [OF assms(1) e(1)]\<close>)
  qed
qed

lemma simulates_retired_state:
  assumes "lease_inv (leases s) (next_generation s) (inventory s)" "fmlookup (leases s) l = Some e"
  shows "simulates {} s (retired_state env l e s)"
proof (rule simulates_step)
  let ?s' = "retired_state env l e s"
  fix p assume p: "pool_of s p"
  with assms(2) have "holder p (generation e) = Some (db_name (database e))"
    by (auto simp: pool_of_def holds_def)
  note step = pool_step.discard [OF this]
  show "\<exists>p'. pool_step p p' \<and> seen p' = seen p \<and>
     free p' = db_name ` set (ready (inventory ?s')) \<and> distinct (map db_name (ready (inventory ?s'))) \<and>
     (\<forall>g n. holder p' g = Some n \<longleftrightarrow> holds (leases ?s') g n) \<and>
     handed p' = delivered (calls ?s') \<and> issued p' = next_generation ?s'"
    by (rule exI, rule conjI, rule step)
      (use p in \<open>auto simp: retired_state_def retire_def Let_def pool_of_def holds_drop [OF assms]\<close>)
qed

lemma simulates_create:
  assumes "ready (inventory s') = ready (inventory s) @ [\<lparr>db_id = d, db_name = n\<rparr>]"
    and "leases s' = leases s" "calls s' = calls s" "next_generation s' = next_generation s"
  shows "simulates {n} s s'"
  unfolding simulates_def
proof (intro allI impI)
  fix p assume p: "pool_of s p" "{n} \<inter> seen p = {}"
  let ?p = "p\<lparr>free := insert n (free p), seen := insert n (seen p)\<rparr>"
  from p have "n \<notin> free p"
    using pool_inv_seen by (auto simp: pool_of_def)
  moreover from p have "pool_step p ?p" by (intro pool_step.create) simp
  moreover from this p have "pool_inv ?p" using pool_inv_step by (auto simp: pool_of_def)
  ultimately show "\<exists>p'. pool_step\<^sup>*\<^sup>* p p' \<and> pool_of s' p' \<and> seen p' \<subseteq> seen p \<union> {n}"
    using p by (intro exI [of _ ?p]) (auto simp: pool_of_def assms)
qed

section \<open>Serving waiting clients\<close>

text \<open>A view of the engine from which the pool can be read off.\<close>

definition has_pool :: "'c WorkerEngine \<Rightarrow> bool" where
  "has_pool s \<longleftrightarrow> (\<exists>p. pool_of s p)"

lemma has_pool_delivered:
  "has_pool s \<Longrightarrow> (n, g) \<in> delivered (calls s) \<Longrightarrow> g \<le> next_generation s"
  using pool_inv_handed by (fastforce simp: has_pool_def pool_of_def)

lemma has_pool_simulates: "has_pool s \<Longrightarrow> simulates {} s s' \<Longrightarrow> has_pool s'"
  unfolding has_pool_def simulates_def by blast

lemma unclaimed_ok_assign:
  assumes "has_pool s" "assign_database env l db (s\<lparr>inventory := iv\<rparr>) = Inr (name, s')"
  shows "unclaimed_ok l s'"
proof -
  from assms(2) obtain g where g: "checked_add (next_generation s) 1 = Some g"
    by (auto simp: assign_database_def split: option.splits)
  then have lt: "next_generation s < g"
    using unat_checked_add [OF g] by (simp add: word_less_nat_alt)
  have "delivered (calls s') = delivered (calls s)"
    and "fmlookup (leases s') l =
           Some \<lparr>database = db, conns = 0, generation = g, cancellation = ChildToken g\<rparr>"
    using assms(2) assign_database_eq [of "s\<lparr>inventory := iv\<rparr>", simplified, OF g, of env l db]
    by (auto split: if_splits)
  then show ?thesis
    using has_pool_delivered [OF assms(1)] lt by (fastforce simp: unclaimed_ok_def)
qed

lemma unclaimed_ok_reply:
  assumes "unclaimed_ok l s" "fmlookup (leases s) l = Some e"
    and "reply_attached env l (db_name (database e)) c s = Inr s'"
  shows "unclaimed_ok l s'"
proof -
  let ?n = "db_name (database e)" and ?k = "attach_conns env c e (db_name (database e))"
  have s': "fmlookup (leases s') l = Some (e\<lparr>conns := ?k\<rparr>)"
    "calls s' = calls s @ [Reply c (attach_msg e ?n) (accepts env c (attach_msg e ?n))]"
    using assms(3) by (auto simp: reply_attached_eq [OF assms(2)])
  have "conns e \<noteq> - 1 \<Longrightarrow> conns e + 1 \<noteq> 0" by (metis add_eq_0_iff2)
  then have "?k = 0 \<longleftrightarrow> conns e = 0 \<and> \<not> accepts env c (attach_msg e ?n)"
    by (auto simp: attach_conns_def)
  moreover have "delivered [Reply c (attach_msg e ?n) False] = {}"
    by (auto simp: attach_msg_def)
  ultimately show ?thesis
    using assms(1,2) by (auto simp: unclaimed_ok_def s')
qed

lemma simulates_dispatch_replies:
  assumes "lease_inv (leases s) (next_generation s) (inventory s)" "has_pool s" "unclaimed_ok l s"
    and "dispatch_replies env l replies s = Inr s'"
  shows "simulates {} s s' \<and> unclaimed_ok l s'"
  using assms
proof (induction replies arbitrary: s)
  case Nil
  then show ?case by (auto intro: simulates_same simp: same_pool_def)
next
  case (Cons r rest)
  obtain c t where r: "r = (c, t)" by (cases r)
  note li = Cons.prems(1) and hp = Cons.prems(2) and uc = Cons.prems(3)
  show ?case
  proof (cases "lease_claim_timeout_ms (config s) > 0 \<and>
                elapsed_ms env t > unat (lease_claim_timeout_ms (config s))")
    case True
    let ?s = "s\<lparr>counters := (counters s)\<lparr>waiter_timeouts := waiter_timeouts (counters s) + 1\<rparr>\<rparr>"
    have same: "simulates {} s ?s" by (rule simulates_same) (simp add: same_pool_def)
    have "dispatch_replies env l rest ?s = Inr s'" using Cons.prems(4) True by (simp add: r)
    with Cons.IH [of ?s] li uc has_pool_simulates [OF hp same]
    have "simulates {} ?s s' \<and> unclaimed_ok l s'" by (simp add: unclaimed_ok_def)
    with same show ?thesis using simulates_then(1) by blast
  next
    case False
    have "\<exists>s1 e. simulates {} s s1 \<and> unclaimed_ok l s1 \<and> fmlookup (leases s1) l = Some e \<and>
        lease_inv (leases s1) (next_generation s1) (inventory s1) \<and>
        bind_res (reply_attached env l (db_name (database e)) c s1) (dispatch_replies env l rest) = Inr s'"
    proof (cases "fmlookup (leases s) l")
      case (Some e)
      with Cons.prems(4) False li uc show ?thesis
        by (intro exI [of _ s] exI [of _ e]) (auto simp: r intro: simulates_same simp: same_pool_def)
    next
      case None
      then have out: "l |\<notin>| fmdom (leases s)" by (simp add: fmlookup_fmdom)
      from Cons.prems(4) None obtain db iv where t: "take_ready (inventory s) = (Some db, iv)"
        unfolding r dispatch_replies.simps if_not_P [OF False]
        by (cases "take_ready (inventory s)") (auto split: option.splits)
      from Cons.prems(4) None t obtain name s1 where
        a: "assign_database env l db (s\<lparr>inventory := iv\<rparr>) = Inr (name, s1)"
        and rest: "bind_res (reply_attached env l name c s1) (dispatch_replies env l rest) = Inr s'"
        unfolding r dispatch_replies.simps if_not_P [OF False] by (auto simp: bind_res_eq_Inr)
      from outcome_InrD [OF serves_assign [OF li out t, of env] a]
      obtain e where e: "name = db_name db" "serves l s s1" "fmlookup (leases s1) l = Some e"
        "database e = db" by auto
      with simulates_assign [OF li out t a] unclaimed_ok_assign [OF hp a] serves_inv [OF e(2)] rest
      show ?thesis by blast
    qed
    then obtain s1 e where s1: "simulates {} s s1" "unclaimed_ok l s1" "fmlookup (leases s1) l = Some e"
        "lease_inv (leases s1) (next_generation s1) (inventory s1)"
      and b: "bind_res (reply_attached env l (db_name (database e)) c s1) (dispatch_replies env l rest) = Inr s'"
      by blast
    from serves_reply [OF s1(4,3), of env "db_name (database e)" c] obtain s2 where
      s2: "reply_attached env l (db_name (database e)) c s1 = Inr s2" "serves l s1 s2" by blast
    note sim2 = simulates_then(1) [OF s1(1) simulates_reply [OF s1(4,3) s2(1)]]
    from Cons.IH [OF serves_inv [OF s2(2)] has_pool_simulates [OF hp sim2]
        unclaimed_ok_reply [OF s1(2,3) s2(1)]] b s2(1)
    show ?thesis using simulates_then(1) [OF sim2] by auto
  qed
qed

lemma unclaimed_ok_absent: "l |\<notin>| fmdom (leases s) \<Longrightarrow> unclaimed_ok l s"
  by (simp add: unclaimed_ok_def fmlookup_fmdom)

lemma simulates_serve_group:
  assumes "lease_inv (leases s) (next_generation s) (inventory s)" "has_pool s"
    and "l |\<notin>| fmdom (leases s)" "ready (inventory s) \<noteq> []"
    and "serve_group env l ps s = Inr s'"
  shows "simulates {} s s'"
proof -
  from assms(5) obtain s1 b where s1: "dispatch_replies env l ps s = Inr s1"
    and r: "restore_unclaimed_database l s1 = Inr (b, s')"
    by (auto simp: serve_group_def bind_res_eq_Inr)
  note d = simulates_dispatch_replies [OF assms(1,2) unclaimed_ok_absent [OF assms(3)] s1]
  have "serves l s s1"
    using outcome_InrD [OF serves_dispatch_replies [OF assms(1) assms(4)] s1] by simp
  from simulates_restore [OF serves_inv [OF this] _ r] d show ?thesis
    using simulates_then(1) by blast
qed

lemma simulates_dispatch_waiters:
  assumes "engine_inv s" "has_pool s" "dispatch_waiters env s = Inr s'"
  shows "simulates {} s s'"
  using assms
proof (induction "length (waiters s)" arbitrary: s rule: less_induct)
  case less
  show ?case
  proof (cases "ready (inventory s) = [] \<or> waiters s = []")
    case True
    then have "dispatch_waiters env s = Inr s"
      by (subst dispatch_waiters.simps) auto
    with less.prems show ?thesis by (auto intro: simulates_same simp: same_pool_def)
  next
    case False
    then obtain l rest where w: "ready (inventory s) \<noteq> []" "waiters s = l # rest"
      by (cases "waiters s") auto
    let ?p = "popped s l rest"
    obtain ps where "dispatch_waiters env s = bind_res (serve_group env l ps ?p) (dispatch_waiters env)"
      using dispatch_waiters_turn [OF less.prems(1) w] by blast
    with less.prems(3) obtain s1 where s1: "serve_group env l ps ?p = Inr s1"
      and d: "dispatch_waiters env s1 = Inr s'"
      by (auto simp: bind_res_eq_Inr)
    have pop: "simulates {} s ?p" by (rule simulates_same) (simp add: same_pool_def popped_def)
    have inv1: "engine_inv s1" "waiters s1 = rest"
      using outcome_InrD [OF engine_inv_turn [OF less.prems(1) w] s1] by simp_all
    have "lease_inv (leases ?p) (next_generation ?p) (inventory ?p)"
      using less.prems(1) by (simp add: popped_def engine_inv_def)
    from simulates_serve_group [OF this has_pool_simulates [OF less.prems(2) pop] _ _ s1]
    have g: "simulates {} s s1"
      using engine_inv_popped(4) [OF less.prems(1) w(2)] w(1) simulates_then(1) [OF pop]
      by (simp add: popped_def)
    from less.hyps [OF _ inv1(1) has_pool_simulates [OF less.prems(2) g] d] inv1(2) w(2)
    show ?thesis using simulates_then(1) [OF g] by simp
  qed
qed

section \<open>Messages\<close>

lemma simulates_grow:
  assumes "engine_inv s" "grow env s = Inr s'"
  shows "simulates {} s s'"
proof (rule simulates_same)
  have "calls s' = calls s \<or> (\<exists>req b. calls s' = calls s @ [RequestCreation req b])"
    using assms(2)
    by (cases rule: grow_cases [OF engine_inv_inventory [OF assms(1)], where env = env]) auto
  then have "delivered (calls s') = delivered (calls s)" by auto
  then show "same_pool s s'"
    using outcome_InrD [OF engine_inv_grow [OF assms(1)] assms(2)]
    by (simp add: same_pool_def same_leases_def)
qed

lemma simulates_send_reply:
  assumes "\<And>n g tk. msg \<noteq> Attached n g tk"
  shows "simulates {} s (snd (send_reply env c msg s))"
proof -
  have "delivered [Reply c msg b] = {}" for b using assms by (cases msg) auto
  then show ?thesis by (intro simulates_same) (simp add: same_pool_def)
qed

lemma simulates_retire_lease:
  assumes "engine_inv_leaving l s" "retire_lease env l s = Inr s'"
  shows "simulates {} s s'"
proof (cases "fmlookup (leases s) l")
  case None
  with assms(2) show ?thesis
    by (auto simp: retire_lease_def same_pool_def intro: simulates_same)
next
  case (Some e)
  have "lease_inv (leases s) (next_generation s) (inventory s)"
    using assms(1) by (simp add: engine_inv_leaving_def)
  from simulates_then(1) [OF simulates_retired_state [OF this Some]
      simulates_grow [OF engine_inv_retired_state [OF assms(1) Some]]] assms(2) show ?thesis
    by (simp add: retire_lease_eq [OF Some])
qed

lemma simulates_release_lease:
  assumes "engine_inv s" "release_lease env l s = Inr (r, s')"
  shows "simulates {} s s'"
proof -
  obtain a s1 where a: "admit_lease l s = (a, s1)" by (cases "admit_lease l s")
  note adm = engine_inv_admit [OF assms(1) a]
  have s1: "simulates {} s s1" by (rule simulates_same) (simp add: same_pool_def adm)
  show ?thesis
  proof (cases "a = Inr Open")
    case False
    with assms(2) a have "s' = s1"
      by (auto simp: release_lease_eq split: sum.splits LeaseStatus.splits)
    with s1 show ?thesis by simp
  next
    case True
    with assms(2) a have "retire_lease env l (closed_state env l s1) = Inr s'"
      by (auto simp: release_lease_eq bind_res_eq_Inr)
    from simulates_retire_lease [OF engine_inv_closed_state [OF adm(1) adm(2) [OF True]] this]
    have c: "simulates {} (closed_state env l s1) s'" .
    have "simulates {} s1 (closed_state env l s1)"
      by (rule simulates_same) (simp add: same_pool_def closed_state_def Let_def)
    with s1 c simulates_then(1) show ?thesis by blast
  qed
qed

lemma simulates_attach_fresh:
  assumes "lease_inv (leases s) (next_generation s) (inventory s)" "has_pool s"
    and "l |\<notin>| fmdom (leases s)" "take_ready (inventory s) = (Some db, iv)"
    and "attach_fresh env l c db (s\<lparr>inventory := iv\<rparr>) = Inr (b, s')"
  shows "simulates {} s s'"
proof -
  from assms(5) obtain name s2 s3 where a: "assign_database env l db (s\<lparr>inventory := iv\<rparr>) = Inr (name, s2)"
    and r: "reply_attached env l name c s2 = Inr s3" and t: "restore_unclaimed_database l s3 = Inr (b, s')"
    by (auto simp: attach_fresh_def bind_res_eq_Inr)
  from outcome_InrD [OF serves_assign [OF assms(1,3,4), of env] a] obtain e where
    s2: "name = db_name db" "serves l s s2" "fmlookup (leases s2) l = Some e" "database e = db"
    by auto
  note r = r [unfolded s2(1) s2(4) [symmetric]]
  have "serves l s2 s3"
    using serves_reply [OF serves_inv [OF s2(2)] s2(3), of env "db_name (database e)" c] r by auto
  note restored = simulates_restore [OF serves_inv [OF this]
      unclaimed_ok_reply [OF unclaimed_ok_assign [OF assms(2) a] s2(3) r] t]
  note replied = simulates_reply [OF serves_inv [OF s2(2)] s2(3) r]
  show ?thesis
    using simulates_then(1) [OF simulates_then(1) [OF simulates_assign [OF assms(1,3,4) a] replied] restored] .
qed

lemma simulates_mono: "simulates {} s s' \<Longrightarrow> simulates N s s'"
  unfolding simulates_def by blast

lemma simulates_attach_or_join:
  assumes "settled_inv s" "has_pool s" "attach_or_join env l c t s = Inr s'"
  shows "simulates {} s s'"
proof -
  obtain r s1 where a: "admit_lease l s = (r, s1)" by (cases "admit_lease l s")
  from assms(1) have es: "engine_inv s" "queue_settled s" by (simp_all add: settled_inv_def)
  note adm = engine_inv_admit [OF es(1) a]
  have s1: "settled_inv s1" "engine_inv s1"
    using adm es(2) by (simp_all add: settled_inv_def queue_settled_def)
  have sim1: "simulates {} s s1" by (rule simulates_same) (simp add: same_pool_def adm)
  have hp: "has_pool s1" by (rule has_pool_simulates [OF assms(2) sim1])
  have li: "lease_inv (leases s1) (next_generation s1) (inventory s1)"
    using s1(2) by (simp add: engine_inv_def)
  have "simulates {} s1 s'"
  proof (cases "r = Inr Open")
    case False
    with a assms(3) obtain e where "s' = snd (send_reply env c (AttachRejected e) s1)"
      by (auto simp: attach_or_join_def split: sum.splits LeaseStatus.splits)
    with simulates_send_reply [of "AttachRejected e" s1 env c] show ?thesis by simp
  next
    case True
    note op = adm(2) [OF True]
      and eq = assms(3) [unfolded attach_or_join_eq [OF a [unfolded True], of env c t]]
    show ?thesis
    proof (cases "fmlookup (leases s1) l")
      case (Some e)
      with eq simulates_reply [OF li Some, of env c s'] show ?thesis by simp
    next
      case None
      then have out: "l |\<notin>| fmdom (leases s1)" by (simp add: fmlookup_fmdom)
      show ?thesis
      proof (cases "ready (inventory s1)")
        case Nil
        then have "grow env (enqueue_waiter l c t s1) = Inr s'"
          using eq None by (simp add: take_ready_def)
        from simulates_grow [OF engine_inv_enqueue_waiter [OF s1(2) out op] this]
        have "simulates {} (enqueue_waiter l c t s1) s'" .
        moreover have "simulates {} s1 (enqueue_waiter l c t s1)"
          by (rule simulates_same) (simp add: same_pool_def)
        ultimately show ?thesis using simulates_then(1) by blast
      next
        case (Cons db rest)
        then obtain iv where tk: "take_ready (inventory s1) = (Some db, iv)"
          by (simp add: take_ready_def)
        have bind: "bind_res (attach_fresh env l c db (s1\<lparr>inventory := iv\<rparr>)) (\<lambda>(restored, s4).
            bind_res (if restored then dispatch_waiters env s4 else Inr s4) (grow env)) = Inr s'"
          using eq unfolding None tk by simp
        obtain b s4 where f: "attach_fresh env l c db (s1\<lparr>inventory := iv\<rparr>) = Inr (b, s4)"
          and bind': "bind_res (if b then dispatch_waiters env s4 else Inr s4) (grow env) = Inr s'"
          using bind by (rule bind_res_pairE)
        obtain s5 where d: "(if b then dispatch_waiters env s4 else Inr s4) = Inr s5"
          and g: "grow env s5 = Inr s'"
          using bind' by (rule bind_resE)
        note sim4 = simulates_attach_fresh [OF li hp out tk f]
        have "serves l s1 s4"
          using outcome_InrD [OF serves_attach_fresh [OF li out tk, of env c] f] by simp
        then have s4: "engine_inv s4"
          using settled_inv_serves [OF s1(1) _ _ op] Cons by (simp add: settled_inv_def)
        have "simulates {} s4 s5 \<and> engine_inv s5"
        proof (cases b)
          case True
          with d have dw: "dispatch_waiters env s4 = Inr s5" by simp
          from simulates_dispatch_waiters [OF s4 has_pool_simulates [OF hp sim4] dw]
            outcome_InrD [OF engine_inv_dispatch_waiters [OF s4] dw] show ?thesis by simp
        next
          case False
          with d s4 show ?thesis by (auto intro: simulates_same simp: same_pool_def)
        qed
        then have "simulates {} s4 s'"
          using simulates_then(1) [OF _ simulates_grow [OF _ g]] by blast
        with sim4 show ?thesis by (rule simulates_then(1))
      qed
    qed
  qed
  with sim1 simulates_then(1) show ?thesis by blast
qed

text \<open>The database name a message brings into the pool.\<close>

definition worker_names :: "DatabaseWorkerMessages \<Rightarrow> ReadString list" where
  "worker_names m = (case m of CreationFinished d (Inr n) \<Rightarrow> [n] | _ \<Rightarrow> [])"

definition created_names :: "'c EngineMessage \<Rightarrow> ReadString list" where
  "created_names msg = (case msg of DatabaseWorker m \<Rightarrow> worker_names m | _ \<Rightarrow> [])"

lemma simulates_worker_message:
  assumes "settled_inv s" "has_pool s" "handle_database_worker_message env m s = Inr s'"
  shows "simulates (set (worker_names m)) s s'"
proof (cases m)
  case (CleanupFinished d r)
  with assms(3) have "same_pool s s'"
    by (auto simp: handle_database_worker_message_def same_pool_def complete_cleanup_def split: sum.splits)
  then show ?thesis by (rule simulates_mono [OF simulates_same])
next
  case (CreationFinished d r)
  show ?thesis
  proof (cases "d |\<in>| creating (inventory s)")
    case False
    with assms(3) CreationFinished have "same_pool s s'"
      by (auto simp: handle_database_worker_message_def same_pool_def complete_creation_def)
    then show ?thesis by (rule simulates_mono [OF simulates_same])
  next
    case True
    define k where "k = (case r of
        Inl e \<Rightarrow> (counters s)\<lparr>template_create_failures := template_create_failures (counters s) + 1\<rparr>
      | Inr n \<Rightarrow> counters s)"
    let ?s = "s\<lparr>inventory := snd (complete_creation d r (inventory s)), counters := k\<rparr>"
    have step: "bind_res (dispatch_waiters env ?s) (grow env) = Inr s'"
      using assms(3) True CreationFinished
      by (cases r) (simp_all add: handle_database_worker_message_def complete_creation_def k_def Let_def)
    have inv: "engine_inv ?s"
      using assms(1) by (simp add: settled_inv_def engine_inv_complete)
    have first: "simulates (set (worker_names m)) s ?s"
    proof (cases r)
      case (Inl e)
      then have "same_pool s ?s" using True by (simp add: same_pool_def complete_creation_def)
      then show ?thesis by (simp add: simulates_mono simulates_same)
    next
      case (Inr n)
      then show ?thesis
        using simulates_create [of ?s s d n] True
        by (simp add: CreationFinished worker_names_def complete_creation_def)
    qed
    obtain s1 where d: "dispatch_waiters env ?s = Inr s1" and g: "grow env s1 = Inr s'"
      using step by (rule bind_resE)
    have inv1: "engine_inv s1"
      using outcome_InrD [OF engine_inv_dispatch_waiters [OF inv] d] by simp
    have rest: "simulates {} ?s s'" if "has_pool ?s"
      using simulates_then(1) [OF simulates_dispatch_waiters [OF inv that d] simulates_grow [OF inv1 g]] .
    show ?thesis
      unfolding simulates_def
    proof (intro allI impI)
      fix p assume p: "pool_of s p" "set (worker_names m) \<inter> seen p = {}"
      obtain p1 where p1: "pool_step\<^sup>*\<^sup>* p p1" "pool_of ?s p1"
        "seen p1 \<subseteq> seen p \<union> set (worker_names m)"
        by (rule simulatesE [OF first p])
      then have "has_pool ?s" by (auto simp: has_pool_def)
      from simulatesE [OF rest [OF this] p1(2)] obtain p2 where
        "pool_step\<^sup>*\<^sup>* p1 p2" "pool_of s' p2" "seen p2 \<subseteq> seen p1" by auto
      with p1 show "\<exists>p'. pool_step\<^sup>*\<^sup>* p p' \<and> pool_of s' p' \<and>
          seen p' \<subseteq> seen p \<union> set (worker_names m)"
        by (intro exI [of _ p2]) auto
    qed
  qed
qed

lemma simulates_handle_message:
  assumes "settled_inv s" "has_pool s" "handle_message env msg s = Inr (go, s')"
  shows "simulates (set (created_names msg)) s s'"
proof (cases msg)
  case (AttachOrJoin l c t)
  then have "attach_or_join env l c t s = Inr s'"
    using assms(3) by (auto simp: handle_message_def elim!: bind_resE)
  from simulates_mono [OF simulates_attach_or_join [OF assms(1,2) this]] show ?thesis .
next
  case (ReleaseLease l c)
  then obtain r s1 where "release_lease env l s = Inr (r, s1)" and s': "s' = snd (send_reply env c (ReleaseResult r) s1)"
    using assms(3) by (auto simp: handle_message_def bind_res_eq_Inr)
  with assms(1) have "simulates {} s s1" by (simp add: settled_inv_def simulates_release_lease)
  then have "simulates {} s s'"
    unfolding s' by (rule simulates_then(1)) (simp add: simulates_send_reply)
  then show ?thesis by (rule simulates_mono)
next
  case (Detach l g)
  then have s': "s' = handle_detach l g s" using assms(3) by (simp add: handle_message_def)
  have "pool_of s p \<Longrightarrow> pool_of s' p" for p
    unfolding s' handle_detach_def pool_of_def by (auto simp: holds_upd_conns split: option.splits)
  then show ?thesis unfolding simulates_def by blast
next
  case (LeaseMaxTimeReached l g)
  let ?s = "\<lambda>k. s\<lparr>counters := k\<rparr>"
  have same: "simulates {} s (?s k)" for k by (rule simulates_same) (simp add: same_pool_def)
  have inv: "engine_inv_leaving l (?s k)" for k
    using assms(1) by (intro engine_inv_leaving) (simp add: settled_inv_def engine_inv_def)
  have "simulates {} s s"
    by (rule simulates_same) (simp add: same_pool_def)
  moreover have "simulates {} s s'" if "retire_lease env l (?s k) = Inr s'" for k
    using simulates_then(1) [OF same simulates_retire_lease [OF inv that]] .
  moreover obtain s1 where "handle_max_time env l g s = Inr s1" "s' = s1"
    using assms(3) LeaseMaxTimeReached by (auto simp: handle_message_def elim!: bind_resE)
  ultimately have "simulates {} s s'"
    by (auto simp: handle_max_time_def split: option.splits if_splits)
  then show ?thesis by (rule simulates_mono)
next
  case (DatabaseWorker m)
  then have "handle_database_worker_message env m s = Inr s'"
    using assms(3) by (auto simp: handle_message_def elim!: bind_resE)
  from simulates_worker_message [OF assms(1,2) this] show ?thesis
    by (simp add: DatabaseWorker created_names_def)
next
  case Shutdown
  with assms(3) have "same_pool s s'"
    by (auto simp: handle_message_def same_pool_def)
  then show ?thesis by (rule simulates_mono [OF simulates_same])
qed

section \<open>Runs\<close>

lemma pool_of_process_messages:
  assumes "settled_inv s" "pool_of s p"
    and "process_messages inbox s = Inr s'"
    and "distinct (concat (map (created_names \<circ> snd) inbox))"
    and "set (concat (map (created_names \<circ> snd) inbox)) \<inter> seen p = {}"
  shows "\<exists>p'. pool_step\<^sup>*\<^sup>* p p' \<and> pool_of s' p'"
  using assms
proof (induction inbox arbitrary: s p)
  case Nil
  then show ?case by auto
next
  case (Cons m rest)
  obtain env msg where m: "m = (env, msg)" by (cases m)
  from Cons.prems(3) obtain go s1 where h: "handle_message env msg s = Inr (go, s1)"
    and r: "(if go then process_messages rest s1 else Inr s1) = Inr s'"
    unfolding m process_messages.simps by (rule bind_res_pairE)
  have inv1: "settled_inv s1"
    using outcome_InrD [OF settled_inv_handle_message [OF Cons.prems(1)] h] by simp
  have "has_pool s" using Cons.prems(2) by (auto simp: has_pool_def)
  note sim = simulates_handle_message [OF Cons.prems(1) this h]
  have "set (created_names msg) \<inter> seen p = {}" using Cons.prems(5) by (auto simp: m)
  then obtain p1 where p1: "pool_step\<^sup>*\<^sup>* p p1" "pool_of s1 p1" "seen p1 \<subseteq> seen p \<union> set (created_names msg)"
    by (rule simulatesE [OF sim Cons.prems(2)])
  show ?case
  proof (cases go)
    case False
    with r p1 show ?thesis by auto
  next
    case True
    have "set (concat (map (created_names \<circ> snd) rest)) \<inter> seen p1 = {}"
      using p1(3) Cons.prems(4,5) by (fastforce simp: m)
    with Cons.IH [OF inv1 p1(2)] True r Cons.prems(4) obtain p2 where
      "pool_step\<^sup>*\<^sup>* p1 p2" "pool_of s' p2" by (auto simp: m)
    with p1(1) show ?thesis by (meson rtranclp_trans)
  qed
qed

text \<open>The pool after the initialisation: the names that were created wait in it.\<close>

definition initial_pool :: "ReadString set \<Rightarrow> pool" where
  "initial_pool N = pool_empty\<lparr>free := N, seen := N\<rparr>"

lemma seen_initial_pool [simp]: "seen (initial_pool N) = N"
  by (simp add: initial_pool_def)

lemma db_name_created: "map db_name (created request cs) = [name. (i, Inr name) \<leftarrow> cs]"
  by (induction cs) (auto simp: created_def split: sum.splits)

lemma pool_of_try_init:
  assumes "reports_once n (create n)" "n = unat (initial_slots cfg)"
    and "try_init create (WorkerEngine_new cfg :: 'c WorkerEngine) = Inr (r, s)"
    and "distinct [name. (i, Inr name) \<leftarrow> create n]"
  shows "pool_of (s :: 'c WorkerEngine) (initial_pool (set [name. (i, Inr name) \<leftarrow> create n]))"
proof -
  let ?s = "WorkerEngine_new cfg :: 'c WorkerEngine"
  have cfg: "n = unat (initial_slots (config ?s))" using assms(2) by (simp add: WorkerEngine_new_def)
  have s: "leases s = fmempty" "calls s = []" "next_generation s = 0"
    "map db_name (ready (inventory s)) = [name. (i, Inr name) \<leftarrow> create n]"
    using try_init_outcome [where create = create and s = ?s, OF assms(1) cfg refl] assms(3)
    by (auto simp: WorkerEngine_new_def db_name_created)
  from s(4) assms(4) have "distinct (map db_name (ready (inventory s)))"
    "set [name. (i, Inr name) \<leftarrow> create n] = db_name ` set (ready (inventory s))"
    by (simp_all flip: set_map)
  with s(1-3) show ?thesis
    by (auto simp: pool_of_def initial_pool_def pool_empty_def pool_inv_def holds_def)
qed

end
