(* ===== verification/Engine_Effects.thy ===== *)
theory Engine_Effects
  imports Engine_Invariant
begin

text \<open>
  What the engine asks of others beside its replies to attaching clients: creations are requested by
  \<open>grow\<close> alone, a release is acknowledged by its handler alone, and every other method leaves the
  databases under creation as they are. The log of calls only grows, and serving the queue adds replies,
  timers and cancellations to it, no jobs for the workers.
\<close>

definition is_ack :: "'c call \<Rightarrow> bool" where
  "is_ack k \<longleftrightarrow> (case k of Reply c (ReleaseResult r) ok \<Rightarrow> True | _ \<Rightarrow> False)"

definition is_order :: "'c call \<Rightarrow> bool" where
  "is_order k \<longleftrightarrow> (case k of RequestCreation cr ok \<Rightarrow> True | _ \<Rightarrow> False)"

lemma is_ack_simps [simp]:
  "is_ack (Reply c (ReleaseResult r) ok)" "\<not> is_ack (Reply c (Attached n g tk) ok)"
  "\<not> is_ack (Reply c FailedToAttach ok)" "\<not> is_ack (Reply c (AttachRejected e) ok)"
  "\<not> is_ack (RequestCreation cr ok)" "\<not> is_ack (RequestCleanup cl ok)"
  "\<not> is_ack (SendDelayed l g d tk ok)" "\<not> is_ack (CancelToken tk)" "\<not> is_ack CancelRoot"
  by (simp_all add: is_ack_def)

lemma is_order_simps [simp]:
  "is_order (RequestCreation cr ok)" "\<not> is_order (Reply c msg ok)" "\<not> is_order (RequestCleanup cl ok)"
  "\<not> is_order (SendDelayed l g d tk ok)" "\<not> is_order (CancelToken tk)" "\<not> is_order CancelRoot"
  by (simp_all add: is_order_def)

definition acks :: "'c WorkerEngine \<Rightarrow> 'c call list" where
  "acks s = filter is_ack (calls s)"

definition orders :: "'c WorkerEngine \<Rightarrow> 'c call list" where
  "orders s = filter is_order (calls s)"

definition aside :: "'c WorkerEngine \<Rightarrow> 'c call list \<times> 'c call list \<times> DatabaseId fset" where
  "aside s = (acks s, orders s, creating (inventory s))"

lemma aside_acks: "aside s' = aside s \<Longrightarrow> acks s' = acks s"
  by (simp add: aside_def)

lemma aside_orders: "aside s' = aside s \<Longrightarrow> orders s' = orders s \<and> creating (inventory s') = creating (inventory s)"
  by (simp add: aside_def)

lemmas aside_defs = aside_def acks_def orders_def record_call_def

lemma aside_update [simp]:
  "aside (s\<lparr>leases := a\<rparr>) = aside s" "aside (s\<lparr>counters := c\<rparr>) = aside s" "aside (s\<lparr>waiters := d\<rparr>) = aside s"
  "aside (s\<lparr>group_waiters := e\<rparr>) = aside s" "aside (s\<lparr>lease_records := f\<rparr>) = aside s"
  "aside (s\<lparr>next_generation := g\<rparr>) = aside s"
  by (simp_all add: aside_defs)

lemma aside_send_reply: "\<not> is_ack (Reply c msg (accepts env c msg)) \<Longrightarrow> aside (snd (send_reply env c msg s)) = aside s"
  by (simp add: send_reply_def aside_defs)

lemma aside_reject_all [simp]: "aside (reject_all env e cs s) = aside s"
  by (auto simp: aside_defs reject_all_eq filter_empty_conv)

lemma acks_grow: "grow env s = Inr s' \<Longrightarrow> acks s' = acks s"
  by (cases "unat (grow_batch_size (config s)) = 0 \<or> growth_deficit env s = 0")
    (auto simp: grow_unfold Let_def acks_def elim!: bind_resE split: option.splits if_splits)

lemma aside_take_ready: "take_ready (inventory s) = (db, iv) \<Longrightarrow> aside (s\<lparr>inventory := iv\<rparr>) = aside s"
  by (auto simp: aside_defs take_ready_def split: list.splits)

lemma aside_restore: "restore_unclaimed_database l s = Inr (b, s') \<Longrightarrow> aside s' = aside s"
  by (auto simp: restore_unclaimed_database_def Let_def aside_defs return_ready_def split: if_splits option.splits)

lemma aside_retired_state [simp]: "aside (retired_state env l e s) = aside s"
  by (simp add: retired_state_def aside_defs retire_def Let_def)

lemma aside_admit: "admit_lease l s = (r, s') \<Longrightarrow> aside s' = aside s"
  by (auto simp: admit_lease_def split: option.splits if_splits)

lemma aside_snd_admit [simp]: "aside (snd (admit_lease l s)) = aside s"
  by (rule aside_admit [OF prod.collapse [symmetric]])

lemma aside_closed_state [simp]: "aside (closed_state env l s) = aside s"
  by (auto simp: closed_state_def aside_defs filter_empty_conv Let_def split: option.splits)

lemma aside_enqueue [simp]: "aside (enqueue_waiter l c t s) = aside s"
  by (simp add: enqueue_waiter_def aside_defs Let_def)

lemmas acks_same [simp] = aside_retired_state [THEN aside_acks] aside_snd_admit [THEN aside_acks]
  aside_closed_state [THEN aside_acks] aside_enqueue [THEN aside_acks] aside_update [THEN aside_acks]

lemma aside_cancel_root [simp]: "aside (record_call CancelRoot s) = aside s"
  by (simp add: aside_defs)

lemmas acks_cancel_root [simp] = aside_cancel_root [THEN aside_acks]

lemma acks_send_reply:
  "acks (snd (send_reply env c msg s)) =
     acks s @ (if is_ack (Reply c msg (accepts env c msg)) then [Reply c msg (accepts env c msg)] else [])"
  by (simp add: send_reply_def acks_def record_call_def)

lemma aside_reply_attached: "reply_attached env l n c s = Inr s' \<Longrightarrow> aside s' = aside s"
  by (auto simp: reply_attached_def send_reply_def Let_def aside_defs split: option.splits if_splits)

lemma aside_assign_database: "assign_database env l db s = Inr (n, s') \<Longrightarrow> aside s' = aside s"
  by (auto simp: assign_database_def Let_def aside_defs split: option.splits if_splits)

lemma aside_dispatch_replies: "dispatch_replies env l cs s = Inr s' \<Longrightarrow> aside s' = aside s"
proof (induction env l cs s rule: dispatch_replies.induct)
  case (2 env lease c t rest s)
  then show ?case
    by (fastforce simp: res_simps dest: aside_reply_attached aside_assign_database aside_take_ready
        split: if_splits option.splits prod.splits)
qed simp

lemma aside_dispatch_waiters: "dispatch_waiters env s = Inr s' \<Longrightarrow> aside s' = aside s"
proof (induction "length (waiters s)" arbitrary: s rule: less_induct)
  case less
  note step = less.prems [unfolded dispatch_waiters.simps [of env s]]
  show ?case
  proof (cases "ready (inventory s) = [] \<or> waiters s = []")
    case True
    with step show ?thesis by (auto split: if_splits)
  next
    case False
    then obtain l rest where q: "ready (inventory s) \<noteq> []" "waiters s = l # rest" by (cases "waiters s") auto
    let ?s1 = "s\<lparr>waiters := rest\<rparr>"
    show ?thesis
    proof (cases "fmlookup (group_waiters s) l")
      case None
      with less.hyps [of ?s1] step q show ?thesis by simp
    next
      case (Some ps)
      let ?s2 = "?s1\<lparr>group_waiters := fmdrop l (group_waiters s)\<rparr>"
      show ?thesis
      proof (cases "fmlookup (lease_records s) l = Some Closed")
        case True
        with less.hyps [of "reject_all env LeaseClosed ps ?s2"] step q Some show ?thesis by simp
      next
        case open_lease: False
        have "bind_res (dispatch_replies env l ps ?s2) (\<lambda>s3.
                bind_res (if l |\<in>| fmdom (leases ?s2) then Inr (False, s3) else restore_unclaimed_database l s3)
                  (\<lambda>(restored, s4). dispatch_waiters env s4)) = Inr s'"
          using step q Some open_lease by (simp add: Let_def)
        then obtain s3 b s4 where s3: "dispatch_replies env l ps ?s2 = Inr s3"
          and s4: "(if l |\<in>| fmdom (leases ?s2) then Inr (False, s3) else restore_unclaimed_database l s3) = Inr (b, s4)"
          and d: "dispatch_waiters env s4 = Inr s'"
          by (elim bind_resE bind_res_pairE)
        have "waiters s4 = rest" "aside s4 = aside s3"
          using s4 waiters_dispatch_replies [OF s3] by (auto dest: waiters_restore aside_restore split: if_splits)
        with less.hyps [OF _ d] aside_dispatch_replies [OF s3] q show ?thesis by simp
      qed
    qed
  qed
qed

lemma aside_attach_fresh: "attach_fresh env l c db s = Inr (b, s') \<Longrightarrow> aside s' = aside s"
  by (auto simp: attach_fresh_def bind_res_eq_Inr dest!: aside_assign_database aside_reply_attached aside_restore)

section \<open>The log of calls\<close>

text \<open>A step adds calls of a kind to the log.\<close>

definition adds :: "('c call \<Rightarrow> bool) \<Rightarrow> 'c WorkerEngine \<Rightarrow> 'c WorkerEngine \<Rightarrow> bool" where
  "adds P s s' \<longleftrightarrow> (\<exists>ks. calls s' = calls s @ ks \<and> list_all P ks)"

definition is_job :: "'c call \<Rightarrow> bool" where
  "is_job k \<longleftrightarrow> (case k of RequestCreation r b \<Rightarrow> True | RequestCleanup r b \<Rightarrow> True | _ \<Rightarrow> False)"

lemma adds_same: "calls s' = calls s \<Longrightarrow> adds P s s'"
  by (simp add: adds_def)

lemma adds_trans: "adds P s s1 \<Longrightarrow> adds P s1 s2 \<Longrightarrow> adds P s s2"
  by (auto simp: adds_def)

lemma adds_from: "calls s1 = calls s \<Longrightarrow> adds P s1 s' \<Longrightarrow> adds P s s'"
  by (simp add: adds_def)

lemma adds_update [simp]:
  "adds P (s\<lparr>counters := k\<rparr>) s' = adds P s s'" "adds P (s\<lparr>inventory := iv\<rparr>) s' = adds P s s'"
  by (simp_all add: adds_def)

lemma adds_all: "adds P s s' \<Longrightarrow> adds (\<lambda>k. True) s s'"
  by (auto simp: adds_def list_all_iff)

abbreviation talks :: "'c WorkerEngine \<Rightarrow> 'c WorkerEngine \<Rightarrow> bool" where
  "talks \<equiv> adds (\<lambda>k. \<not> is_job k)"

lemma talks_reply_attached: "reply_attached env l n c s = Inr s' \<Longrightarrow> talks s s'"
  by (auto simp: reply_attached_def send_reply_def record_call_def Let_def adds_def is_job_def
      split: option.splits if_splits)

lemma talks_assign_database: "assign_database env l db s = Inr (n, s') \<Longrightarrow> talks s s'"
  by (auto simp: assign_database_def record_call_def Let_def adds_def is_job_def split: option.splits if_splits)

lemma talks_restore: "restore_unclaimed_database l s = Inr (b, s') \<Longrightarrow> talks s s'"
  by (auto simp: restore_unclaimed_database_def record_call_def Let_def adds_def is_job_def
      split: option.splits if_splits)

lemma talks_dispatch_replies: "dispatch_replies env l ps s = Inr s' \<Longrightarrow> talks s s'"
proof (induction ps arbitrary: s)
  case (Cons r rest)
  obtain c t where r: "r = (c, t)" by (cases r)
  show ?case
  proof (cases "lease_claim_timeout_ms (config s) > 0 \<and> elapsed_ms env t > unat (lease_claim_timeout_ms (config s))")
    case True
    let ?s = "s\<lparr>counters := (counters s)\<lparr>waiter_timeouts := waiter_timeouts (counters s) + 1\<rparr>\<rparr>"
    from True Cons.prems have "dispatch_replies env l rest ?s = Inr s'" by (simp add: r)
    from adds_from [OF _ Cons.IH [OF this]] show ?thesis by simp
  next
    case False
    from Cons.prems obtain name s1 where p: "(case fmlookup (leases s) l of
           Some entry \<Rightarrow> Inr (db_name (database entry), s)
         | None \<Rightarrow> (case take_ready (inventory s) of
                (None, iv) \<Rightarrow> Inl DispatchRequiresReady
              | (Some db, iv) \<Rightarrow> assign_database env l db (s\<lparr>inventory := iv\<rparr>))) = Inr (name, s1)"
      and b: "bind_res (reply_attached env l name c s1) (dispatch_replies env l rest) = Inr s'"
      unfolding r dispatch_replies.simps if_not_P [OF False] by (rule bind_res_pairE)
    have "talks s s1"
      using p by (auto simp: adds_same dest!: talks_assign_database split: option.splits prod.splits
          intro: adds_from [of "s\<lparr>inventory := iv\<rparr>" s for iv])
    moreover obtain s2 where "reply_attached env l name c s1 = Inr s2" "dispatch_replies env l rest s2 = Inr s'"
      using b by (rule bind_resE)
    ultimately show ?thesis by (auto dest!: talks_reply_attached Cons.IH intro: adds_trans)
  qed
qed (simp add: adds_same)

lemma adds_reject_all: "talks s (reject_all env e ws s)"
  by (auto simp: reject_all_eq adds_def is_job_def list_all_iff)

lemma talks_dispatch_waiters: "dispatch_waiters env s = Inr s' \<Longrightarrow> talks s s'"
proof (induction "length (waiters s)" arbitrary: s rule: less_induct)
  case less
  note turn = less.prems [unfolded dispatch_waiters.simps [of env s]]
  show ?case
  proof (cases "ready (inventory s) = [] \<or> waiters s = []")
    case True
    with turn show ?thesis by (auto simp: adds_same split: if_splits)
  next
    case False
    then obtain l rest where q: "ready (inventory s) \<noteq> []" "waiters s = l # rest" by (cases "waiters s") auto
    let ?s1 = "s\<lparr>waiters := rest\<rparr>"
    show ?thesis
    proof (cases "fmlookup (group_waiters s) l")
      case None
      with turn q have "dispatch_waiters env ?s1 = Inr s'" by simp
      from adds_from [OF _ less.hyps [OF _ this]] q show ?thesis by simp
    next
      case (Some ps)
      let ?s2 = "?s1\<lparr>group_waiters := fmdrop l (group_waiters s)\<rparr>"
      have s2: "talks ?s2 s' \<Longrightarrow> talks s s'" by (erule adds_from [rotated]) simp
      show ?thesis
      proof (cases "fmlookup (lease_records s) l = Some Closed")
        case True
        with turn q Some have "dispatch_waiters env (reject_all env LeaseClosed ps ?s2) = Inr s'" by simp
        from adds_trans [OF adds_reject_all less.hyps [OF _ this]] s2 q show ?thesis by simp
      next
        case open_lease: False
        have "bind_res (dispatch_replies env l ps ?s2) (\<lambda>s3.
                bind_res (if l |\<in>| fmdom (leases ?s2) then Inr (False, s3) else restore_unclaimed_database l s3)
                  (\<lambda>(restored, s4). dispatch_waiters env s4)) = Inr s'"
          using turn q Some open_lease by (simp add: Let_def)
        then obtain s3 b s4 where s3: "dispatch_replies env l ps ?s2 = Inr s3"
          and s4: "(if l |\<in>| fmdom (leases ?s2) then Inr (False, s3) else restore_unclaimed_database l s3) = Inr (b, s4)"
          and d: "dispatch_waiters env s4 = Inr s'"
          by (elim bind_resE bind_res_pairE)
        have s4': "waiters s4 = rest" "talks s3 s4"
          using s4 waiters_dispatch_replies [OF s3]
          by (auto simp: adds_same dest: waiters_restore talks_restore split: if_splits)
        from adds_trans [OF talks_dispatch_replies [OF s3] adds_trans [OF s4'(2) less.hyps [OF _ d]]] s4'(1) q s2
        show ?thesis by simp
      qed
    qed
  qed
qed

end
