(* ===== verification/Engine_Properties.thy ===== *)
theory Engine_Properties
  imports Engine_Refinement Engine_Effects
begin

text \<open>
  What the engine promises to its clients: it never runs into one of its internal panics, no
  database is shared between leases, a closed lease stays closed, messages of an earlier
  generation have no effect, joining a lease shares its database, the supply of databases is
  restored after every message, and nothing waits while a database is ready.
\<close>

section \<open>Reachable states\<close>

inductive engine_reachable ::
  "(nat \<Rightarrow> (nat \<times> (PostgresDDLClientError + ReadString)) list) \<Rightarrow> WorkerEngineConfig
     \<Rightarrow> 'c WorkerEngine \<Rightarrow> bool" for create cfg where
  booted: "try_init create (WorkerEngine_new cfg) = Inr (r, s) \<Longrightarrow> engine_reachable create cfg s"
| handled: "engine_reachable create cfg s \<Longrightarrow> handle_message env msg s = Inr (go, s') \<Longrightarrow>
     engine_reachable create cfg s'"

abbreviation reports_initial :: "(nat \<Rightarrow> (nat \<times> 'r) list) \<Rightarrow> WorkerEngineConfig \<Rightarrow> bool" where
  "reports_initial create cfg \<equiv>
     reports_once (unat (initial_slots cfg)) (create (unat (initial_slots cfg)))"

lemma settled_inv_booted:
  assumes "reports_initial create cfg" "try_init create (WorkerEngine_new cfg) = Inr (r, s)"
  shows "settled_inv s"
  using settled_inv_try_init [where create = create and cfg = cfg, OF assms(1)] assms(2)
  by (metis (no_types, lifting) Pair_inject sum.inject(2))

lemma settled_inv_reachable:
  assumes "engine_reachable create cfg s" "reports_initial create cfg"
  shows "settled_inv s"
  using assms
proof (induction rule: engine_reachable.induct)
  case (booted r s)
  then show ?case using settled_inv_booted by blast
next
  case (handled s env msg go s')
  then show ?case using outcome_InrD [OF settled_inv_handle_message handled.hyps(2)] by auto
qed

section \<open>A concrete engine\<close>

text \<open>Surroundings in which every call succeeds, used to evaluate the engine on small inputs.\<close>

definition calm_env :: "nat env" where
  "calm_env = \<lparr>accepts = (\<lambda>c m. True), creation_open = (\<lambda>r. True), cleanup_open = (\<lambda>r. True),
               timer_ok = (\<lambda>l g. True), elapsed_ms = (\<lambda>t. 0)\<rparr>"

definition small_cfg :: WorkerEngineConfig where
  "small_cfg = \<lparr>initial_slots = 2, starvation_threshold = 0, grow_batch_size = 1,
                lease_claim_timeout_ms = 0, max_lease_records = 10\<rparr>"

definition small_create :: "nat \<Rightarrow> (nat \<times> (PostgresDDLClientError + ReadString)) list" where
  "small_create n = map (\<lambda>i. (i, Inr (replicate (Suc i) CHR ''d''))) [0..<n]"

definition small_engine :: "nat WorkerEngine" where
  "small_engine = (WorkerEngine_new small_cfg)\<lparr>inventory :=
     \<lparr>next_database_id = 2, creating = {||},
      ready = [\<lparr>db_id = DatabaseId 1, db_name = ''d''\<rparr>, \<lparr>db_id = DatabaseId 2, db_name = ''dd''\<rparr>],
      retiring = fmempty\<rparr>\<rparr>"

lemmas engine_eval = handle_message_def attach_or_join_def admit_lease_def release_lease_def
  retire_lease_def handle_detach_def handle_max_time_def handle_database_worker_message_def
  grow_def waiting_leases_def claim_live_def reply_attached_def assign_database_def
  restore_unclaimed_database_def take_ready_def return_ready_def retire_def complete_creation_def
  complete_cleanup_def supply_len_def reserve_creations_def cancel_creation_def database_id_def
  u64_try_from_def checked_add_def div_ceil_def enqueue_waiter_def reject_all_def send_reply_def
  record_call_def attach_error_def Let_def try_init_def WorkerEngine_new_def
  DatabaseInventory_default_def EngineCounters_default_def run_engine_def dispatch_waiters.simps
  upt_rec eval_simps

lemma small_create_reports: "reports_initial small_create small_cfg"
  by (auto simp: reports_once_def small_create_def small_cfg_def upt_rec)

lemma small_init: "try_init small_create (WorkerEngine_new small_cfg) = Inr (Inr (), small_engine)"
  by (simp add: engine_eval small_create_def small_cfg_def small_engine_def)

section \<open>No internal panic\<close>

text \<open>
  C8: started with any configuration and an initial batch that reports each index once, and fed any
  sequence of messages, the engine handles all of
  them and ends in a consistent state, or panics because one of its two 64-bit counters is
  exhausted; every other \<open>expect\<close>, \<open>unwrap\<close> and \<open>assert\<close> on the way holds.
\<close>

theorem engine_run_consistent:
  assumes "reports_initial create cfg"
    and "try_init create (WorkerEngine_new cfg) = Inr (r, s)"
  shows "case run_engine inbox s of
           Inl p \<Rightarrow> p = DatabaseIdentityExhausted \<or> p = LeaseGenerationExhausted
         | Inr s' \<Rightarrow> settled_inv s'"
proof -
  from settled_inv_process_messages [OF settled_inv_booted [OF assms], of inbox]
  have "outcome exhaustion settled_inv (run_engine inbox s)"
    unfolding run_engine_def
    by (rule outcome_bind) (auto simp: settled_inv_def engine_inv_def queue_settled_def)
  then show ?thesis by (auto simp: outcome_def exhaustion_def split: sum.splits)
qed

theorem engine_run_consistent_witness:
  "case run_engine [(calm_env, AttachOrJoin (LeaseId ''a'') 0 0), (calm_env, Shutdown)] small_engine of
     Inl p \<Rightarrow> p = DatabaseIdentityExhausted \<or> p = LeaseGenerationExhausted
   | Inr s' \<Rightarrow> settled_inv s'"
  by (rule engine_run_consistent [OF small_create_reports small_init])

section \<open>Isolation\<close>

text \<open>
  C9: in every reachable state two different leases hold databases with different identities under
  different generations, and the database of a lease is neither ready, nor being created, nor being
  retired: the condition that \<open>return_ready\<close> and \<open>retire\<close> assert in debug builds.
\<close>

theorem leases_isolated:
  assumes "engine_reachable create cfg s" "reports_initial create cfg"
    and "fmlookup (leases s) l = Some e" "fmlookup (leases s) l' = Some e'" "l \<noteq> l'"
  shows "db_id (database e) \<noteq> db_id (database e') \<and> generation e \<noteq> generation e' \<and>
         \<not> contains (inventory s) (db_id (database e))"
  using settled_inv_reachable [OF assms(1,2)] assms(3-5)
  unfolding settled_inv_def engine_inv_def lease_inv_def entry_ok_def contains_held
  by (auto simp: place_of_None)

text \<open>Two leases of the small engine.\<close>

definition two_leases :: "nat WorkerEngine" where
  "two_leases = small_engine
     \<lparr>leases := fmupd (LeaseId ''b'') \<lparr>database = \<lparr>db_id = DatabaseId 2, db_name = ''dd''\<rparr>, conns = 1,
                    generation = 2, cancellation = ChildToken 2\<rparr>
                (fmupd (LeaseId ''a'') \<lparr>database = \<lparr>db_id = DatabaseId 1, db_name = ''d''\<rparr>, conns = 1,
                    generation = 1, cancellation = ChildToken 1\<rparr> fmempty),
      lease_records := fmupd (LeaseId ''b'') Open (fmupd (LeaseId ''a'') Open fmempty),
      next_generation := 2,
      inventory := \<lparr>next_database_id = 3, creating = {|DatabaseId 3|}, ready = [], retiring = fmempty\<rparr>,
      calls := [Reply 0 (Attached ''d'' 1 (ChildToken 1)) True,
                Reply 7 (Attached ''dd'' 2 (ChildToken 2)) True,
                RequestCreation \<lparr>first_database_id = DatabaseId 3, amount = 1\<rparr> True]\<rparr>"

definition one_lease :: "nat WorkerEngine" where
  "one_lease = small_engine
     \<lparr>leases := fmupd (LeaseId ''a'') \<lparr>database = \<lparr>db_id = DatabaseId 1, db_name = ''d''\<rparr>, conns = 1,
                    generation = 1, cancellation = ChildToken 1\<rparr> fmempty,
      lease_records := fmupd (LeaseId ''a'') Open fmempty,
      next_generation := 1,
      inventory := \<lparr>next_database_id = 2, creating = {||},
        ready = [\<lparr>db_id = DatabaseId 2, db_name = ''dd''\<rparr>], retiring = fmempty\<rparr>,
      calls := [Reply 0 (Attached ''d'' 1 (ChildToken 1)) True]\<rparr>"

lemma small_attach_a:
  "handle_message calm_env (AttachOrJoin (LeaseId ''a'') 0 0) small_engine = Inr (True, one_lease)"
  by (simp add: engine_eval small_cfg_def small_engine_def calm_env_def one_lease_def)

lemma small_attach_b:
  "handle_message calm_env (AttachOrJoin (LeaseId ''b'') 7 0) one_lease = Inr (True, two_leases)"
  by (simp add: engine_eval small_cfg_def small_engine_def calm_env_def one_lease_def two_leases_def)

lemma small_reachable: "engine_reachable small_create small_cfg small_engine"
  by (rule booted [OF small_init])

lemma one_lease_reachable: "engine_reachable small_create small_cfg one_lease"
  by (rule handled [OF small_reachable small_attach_a])

lemma two_leases_reachable: "engine_reachable small_create small_cfg two_leases"
  by (rule handled [OF one_lease_reachable small_attach_b])

theorem leases_isolated_witness:
  "DatabaseId 2 \<noteq> DatabaseId 1 \<and> \<not> contains (inventory two_leases) (DatabaseId 2)"
proof -
  have "fmlookup (leases two_leases) (LeaseId ''b'') = Some \<lparr>database = \<lparr>db_id = DatabaseId 2,
      db_name = ''dd''\<rparr>, conns = 1, generation = 2, cancellation = ChildToken 2\<rparr>"
    "fmlookup (leases two_leases) (LeaseId ''a'') = Some \<lparr>database = \<lparr>db_id = DatabaseId 1,
      db_name = ''d''\<rparr>, conns = 1, generation = 1, cancellation = ChildToken 1\<rparr>"
    by (simp_all add: two_leases_def)
  from leases_isolated [OF two_leases_reachable small_create_reports this] show ?thesis by simp
qed

text \<open>The names of the databases that the initial batch creates.\<close>

definition initial_names ::
  "(nat \<Rightarrow> (nat \<times> (PostgresDDLClientError + ReadString)) list) \<Rightarrow> WorkerEngineConfig \<Rightarrow> ReadString list" where
  "initial_names create cfg = [name. (i, Inr name) \<leftarrow> create (unat (initial_slots cfg))]"

text \<open>
  C10: over a whole run in which no database name is created twice, two clients that received a
  connection received the same database exactly when they attached to the same generation of the
  same lease: a database that reached a client is never handed out again.
\<close>

theorem database_never_reused:
  assumes "reports_initial create cfg"
    and "try_init create (WorkerEngine_new cfg) = Inr (r, s)"
    and "distinct (initial_names create cfg @ concat (map (created_names \<circ> snd) inbox))"
    and "run_engine inbox s = Inr s'"
    and "Reply c (Attached n g tk) True \<in> set (calls s')"
    and "Reply c' (Attached n' g' tk') True \<in> set (calls s')"
  shows "n = n' \<longleftrightarrow> g = g'"
proof -
  let ?p = "initial_pool (set (initial_names create cfg))"
  have p: "pool_of s ?p"
    using pool_of_try_init [where create = create, OF assms(1) refl assms(2)] assms(3)
    by (simp add: initial_names_def)
  obtain s1 where s1: "process_messages inbox s = Inr s1" "s' = record_call CancelRoot s1"
    using assms(4) unfolding run_engine_def by (auto elim!: bind_resE)
  with assms(3) obtain p' where p': "pool_step\<^sup>*\<^sup>* ?p p'" "pool_of s1 p'"
    using pool_of_process_messages [OF settled_inv_booted [OF assms(1,2)] p s1(1)] by auto
  have "(n, g) \<in> handed p'" "(n', g') \<in> handed p'"
    using p'(2) s1(2) assms(5,6) by (auto simp: pool_of_def delivered_def)
  moreover have "pool_inv p'" using p'(2) by (simp add: pool_of_def)
  ultimately show ?thesis using pool_inv_isolated pool_inv_one_name by blast
qed

theorem database_never_reused_witness:
  "''d'' = ''dd'' \<longleftrightarrow> (1::u64) = 2"
proof -
  let ?inbox = "[(calm_env, AttachOrJoin (LeaseId ''a'') 0 0), (calm_env, AttachOrJoin (LeaseId ''b'') 7 0)]"
  have run: "run_engine ?inbox small_engine = Inr (record_call CancelRoot two_leases)"
    by (simp add: run_engine_def small_attach_a small_attach_b)
  have replies: "Reply 0 (Attached ''d'' 1 (ChildToken 1)) True \<in> set (calls (record_call CancelRoot two_leases))"
    "Reply 7 (Attached ''dd'' 2 (ChildToken 2)) True \<in> set (calls (record_call CancelRoot two_leases))"
    by (simp_all add: two_leases_def)
  show ?thesis
    by (rule database_never_reused [OF small_create_reports small_init _ run replies])
      (simp add: small_create_def small_cfg_def initial_names_def upt_rec created_names_def)
qed

text \<open>
  C11: every run of the engine in which no database name is created twice is a run of the abstract
  pool: there is a sequence of pool steps
  (create, assign, hand, give back, discard) from the pool of the initial databases to the pool
  of the final state, whose free databases, holders and deliveries are those of the engine.
\<close>

theorem engine_refines_pool:
  assumes "reports_initial create cfg"
    and "try_init create (WorkerEngine_new cfg) = Inr (r, s)"
    and "distinct (initial_names create cfg @ concat (map (created_names \<circ> snd) inbox))"
    and "process_messages inbox s = Inr s'"
  shows "\<exists>p. pool_step\<^sup>*\<^sup>* (initial_pool (set (initial_names create cfg))) p \<and> pool_of s' p"
proof -
  have "pool_of s (initial_pool (set (initial_names create cfg)))"
    using pool_of_try_init [where create = create, OF assms(1) refl assms(2)] assms(3)
    by (simp add: initial_names_def)
  from pool_of_process_messages [OF settled_inv_booted [OF assms(1,2)] this assms(4)] assms(3)
  show ?thesis by auto
qed

theorem engine_refines_pool_witness:
  "\<exists>p. pool_step\<^sup>*\<^sup>* (initial_pool {''d'', ''dd''}) p \<and> pool_of one_lease p"
proof -
  let ?inbox = "[(calm_env, AttachOrJoin (LeaseId ''a'') 0 0)]"
  have "process_messages ?inbox small_engine = Inr one_lease" by (simp add: small_attach_a)
  from engine_refines_pool [OF small_create_reports small_init _ this] show ?thesis
    by (simp add: small_create_def small_cfg_def initial_names_def upt_rec created_names_def insert_commute)
qed

section \<open>What every method leaves alone\<close>

text \<open>Admission records change in \<open>admit_lease\<close> and \<open>release_lease\<close> only, the configuration never.\<close>

definition keeps :: "'c WorkerEngine \<Rightarrow> 'c WorkerEngine \<Rightarrow> bool" where
  "keeps s s' \<longleftrightarrow> lease_records s' = lease_records s \<and> config s' = config s"

lemma keeps_refl [simp]: "keeps s s"
  by (simp add: keeps_def)

lemma keeps_trans: "keeps s s1 \<Longrightarrow> keeps s1 s2 \<Longrightarrow> keeps s s2"
  by (simp add: keeps_def)

lemma keeps_serves: "serves l s s' \<Longrightarrow> keeps s s'"
  by (simp add: keeps_def serves_def same_queue_def)

lemma keeps_grow: "engine_inv s \<Longrightarrow> grow env s = Inr s' \<Longrightarrow> keeps s s'"
  using outcome_InrD [OF engine_inv_grow] by (fastforce simp: keeps_def same_queue_def)

lemma grow_calls:
  assumes "engine_inv s" "grow env s = Inr s'"
  obtains growth where "calls s' = calls s @ growth" "\<forall>x \<in> set growth. \<exists>req b. x = RequestCreation req b"
proof -
  have "calls s' = calls s \<or> (\<exists>req b. calls s' = calls s @ [RequestCreation req b])"
    using assms(2)
    by (cases rule: grow_cases [OF engine_inv_inventory [OF assms(1)], where env = env]) auto
  with that [of "[]"] that show thesis by fastforce
qed

lemma grow_place:
  assumes "engine_inv s" "grow env s = Inr s'" "place_of (inventory s) d = Some p"
  shows "place_of (inventory s') d = Some p"
proof -
  note iv = engine_inv_inventory [OF assms(1)]
  show ?thesis
  proof (cases rule: grow_cases [OF iv, where env = env, case_names idle exhausted requested refused])
    case requested
    then have "d \<notin> batch_ids (next_request (inventory s) (growth_count env s))"
      using place_of_batch [OF _ _ iv] assms(3) by force
    with requested assms(2,3) show ?thesis
      by (auto simp: place_of_reserved [OF _ _ iv])
  qed (use assms(2,3) in auto)
qed

lemma keeps_dispatch_waiters: "engine_inv s \<Longrightarrow> dispatch_waiters env s = Inr s' \<Longrightarrow> keeps s s'"
  using outcome_InrD [OF engine_inv_dispatch_waiters] by (fastforce simp: keeps_def queue_served_def)

lemma keeps_retire_lease:
  "engine_inv_leaving l s \<Longrightarrow> retire_lease env l s = Inr s' \<Longrightarrow> keeps s s' \<and> leases s' = fmdrop l (leases s)"
  using outcome_InrD [OF engine_inv_retire_lease] by (fastforce simp: keeps_def same_queue_def)

text \<open>The ways of an attachment and of a creation result, with the state in which they call \<open>grow\<close>.\<close>

lemma attach_or_join_cases:
  assumes "settled_inv s" "attach_or_join env l c t s = Inr s'"
  obtains (refused) s1 e where "snd (admit_lease l s) = s1" "s' = snd (send_reply env c (AttachRejected e) s1)"
  | (joined) s1 e where "snd (admit_lease l s) = s1" "fmlookup (leases s1) l = Some e"
      "reply_attached env l (db_name (database e)) c s1 = Inr s'"
  | (queued) s1 where "snd (admit_lease l s) = s1" "engine_inv (enqueue_waiter l c t s1)"
      "grow env (enqueue_waiter l c t s1) = Inr s'"
  | (fresh) s1 s2 where "snd (admit_lease l s) = s1" "keeps s1 s2" "engine_inv s2" "grow env s2 = Inr s'"
      "aside s2 = aside s1"
proof -
  obtain r s1 where a: "admit_lease l s = (r, s1)" by (cases "admit_lease l s")
  then have a1: "snd (admit_lease l s) = s1" by simp
  from assms(1) have es: "engine_inv s" "queue_settled s" by (simp_all add: settled_inv_def)
  note adm = engine_inv_admit [OF es(1) a]
  have s1: "settled_inv s1" using adm es(2) by (simp add: settled_inv_def queue_settled_def)
  have li: "lease_inv (leases s1) (next_generation s1) (inventory s1)"
    using adm(1) by (simp add: engine_inv_def)
  show thesis
  proof (cases "r = Inr Open")
    case False
    with a assms(2) obtain e where "s' = snd (send_reply env c (AttachRejected e) s1)"
      by (auto simp: attach_or_join_def split: sum.splits LeaseStatus.splits)
    then show thesis by (rule refused [OF a1])
  next
    case True
    note op = adm(2) [OF True]
      and eq = assms(2) [unfolded attach_or_join_eq [OF a [unfolded True], of env c t]]
    consider (lease) e where "fmlookup (leases s1) l = Some e"
      | (none) "fmlookup (leases s1) l = None" "ready (inventory s1) = []"
      | (taken) db iv where "fmlookup (leases s1) l = None" "take_ready (inventory s1) = (Some db, iv)"
      by (cases "fmlookup (leases s1) l"; cases "ready (inventory s1)") (auto simp: take_ready_def)
    then show thesis
    proof cases
      case (lease e)
      with eq show thesis by (intro joined [OF a1]) simp_all
    next
      case none
      then have "l |\<notin>| fmdom (leases s1)" by (simp add: fmlookup_fmdom)
      with none eq show thesis
        by (intro queued [OF a1] engine_inv_enqueue_waiter [OF adm(1) _ op]) (simp_all add: take_ready_def)
    next
      case (taken db iv)
      then have out: "l |\<notin>| fmdom (leases s1)" by (simp add: fmlookup_fmdom)
      have "bind_res (attach_fresh env l c db (s1\<lparr>inventory := iv\<rparr>)) (\<lambda>(restored, s4).
            bind_res (if restored then dispatch_waiters env s4 else Inr s4) (grow env)) = Inr s'"
        using eq unfolding taken by simp
      then obtain b s4 where f: "attach_fresh env l c db (s1\<lparr>inventory := iv\<rparr>) = Inr (b, s4)"
        and bind: "bind_res (if b then dispatch_waiters env s4 else Inr s4) (grow env) = Inr s'"
        by (rule bind_res_pairE)
      obtain s5 where d: "(if b then dispatch_waiters env s4 else Inr s4) = Inr s5"
        and g: "grow env s5 = Inr s'"
        using bind by (rule bind_resE)
      have sv: "serves l s1 s4"
        using outcome_InrD [OF serves_attach_fresh [OF li out taken(2), of env c] f] by simp
      have "ready (inventory s1) \<noteq> []" using taken(2) by (auto simp: take_ready_Some)
      then have s4: "engine_inv s4"
        using settled_inv_serves [OF s1 sv _ op] by (simp add: settled_inv_def)
      have "keeps s4 s5 \<and> engine_inv s5"
        using d s4 keeps_dispatch_waiters [OF s4] outcome_InrD [OF engine_inv_dispatch_waiters [OF s4]]
        by (cases b) fastforce+
      moreover have "aside s5 = aside s1"
        using d aside_dispatch_waiters aside_attach_fresh [OF f] aside_take_ready [OF taken(2)] by (cases b) fastforce+
      ultimately show thesis using keeps_trans [OF keeps_serves [OF sv]] g by (intro fresh [OF a1, of s5]) simp_all
    qed
  qed
qed

lemma worker_message_cases:
  assumes "settled_inv s" "handle_database_worker_message env m s = Inr s'"
  obtains (cleaned) d r where "m = CleanupFinished d r" "s' = s\<lparr>inventory := snd (complete_cleanup d r (inventory s))\<rparr>"
  | (unknown) d r where "m = CreationFinished d r" "d |\<notin>| creating (inventory s)" "s' = s"
  | (finished) d r s1 where "m = CreationFinished d r" "d |\<in>| creating (inventory s)" "keeps s s1"
      "engine_inv s1" "grow env s1 = Inr s'" "acks s1 = acks s" "orders s1 = orders s"
      "creating (inventory s1) = creating (inventory s) |-| {|d|}"
proof (cases m)
  case (CleanupFinished d r)
  with assms(2) show thesis by (intro cleaned [of d r]) (simp_all add: handle_database_worker_message_def)
next
  case (CreationFinished d r)
  show thesis
  proof (cases "d |\<in>| creating (inventory s)")
    case False
    with assms(2) CreationFinished show thesis
      by (intro unknown [of d r]) (auto simp: handle_database_worker_message_def complete_creation_def)
  next
    case True
    then obtain k where "bind_res (dispatch_waiters env
        (s\<lparr>inventory := snd (complete_creation d r (inventory s)), counters := k\<rparr>)) (grow env) = Inr s'"
      using assms(2) CreationFinished
      by (cases r) (auto simp: handle_database_worker_message_def complete_creation_def Let_def
          split: if_splits, metis WorkerEngine.select_convs(7) WorkerEngine.surjective WorkerEngine.update_convs(7))
    then obtain s1 where d: "dispatch_waiters env
        (s\<lparr>inventory := snd (complete_creation d r (inventory s)), counters := k\<rparr>) = Inr s1"
      and g: "grow env s1 = Inr s'" by (rule bind_resE)
    have inv: "engine_inv (s\<lparr>inventory := snd (complete_creation d r (inventory s)), counters := k\<rparr>)"
      using assms(1) by (simp add: settled_inv_def engine_inv_complete)
    have "engine_inv s1" using outcome_InrD [OF engine_inv_dispatch_waiters [OF inv] d] by simp
    with keeps_dispatch_waiters [OF inv d] g CreationFinished True aside_dispatch_waiters [OF d]
    show thesis by (intro finished [of d r s1])
        (simp_all add: keeps_def aside_defs complete_creation_def Let_def split: sum.splits)
  qed
qed

lemma keeps_attach_or_join:
  assumes "settled_inv s" "attach_or_join env l c t s = Inr s'"
  shows "keeps (snd (admit_lease l s)) s'"
  using assms
proof (cases rule: attach_or_join_cases)
  case (queued s1)
  with keeps_grow [OF queued(2,3)] show ?thesis by (simp add: keeps_def)
qed (auto simp: keeps_def reply_attached_eq dest: keeps_grow)

lemma keeps_worker_message:
  assumes "settled_inv s" "handle_database_worker_message env m s = Inr s'"
  shows "keeps s s'"
  using assms by (cases rule: worker_message_cases) (auto simp: keeps_def dest: keeps_grow)

section \<open>Closing a lease\<close>

lemma admit_lease_closed:
  "fmlookup (lease_records s) l = Some Closed \<Longrightarrow>
     fmlookup (lease_records (snd (admit_lease l' s))) l = Some Closed"
  by (cases l' s rule: admit_lease_cases) auto

lemma release_lease_closed:
  assumes "engine_inv s" "release_lease env l' s = Inr (r, s')"
    and "fmlookup (lease_records s) l = Some Closed"
  shows "fmlookup (lease_records s') l = Some Closed"
proof -
  obtain a s1 where a: "admit_lease l' s = (a, s1)" by (cases "admit_lease l' s")
  note adm = engine_inv_admit [OF assms(1) a]
  have s1: "fmlookup (lease_records s1) l = Some Closed"
    using admit_lease_closed [OF assms(3), of l'] a by simp
  show ?thesis
  proof (cases "a = Inr Open")
    case True
    with assms(2) a have "retire_lease env l' (closed_state env l' s1) = Inr s'"
      by (auto simp: release_lease_eq elim!: bind_resE)
    from keeps_retire_lease [OF engine_inv_closed_state [OF adm(1) adm(2) [OF True]] this] s1
    show ?thesis by (simp add: keeps_def closed_state_def Let_def)
  next
    case False
    with assms(2) a s1 show ?thesis
      by (auto simp: release_lease_eq split: sum.splits LeaseStatus.splits)
  qed
qed

lemma handle_message_closed:
  assumes "settled_inv s" "handle_message env msg s = Inr (go, s')"
    and "fmlookup (lease_records s) l = Some Closed"
  shows "fmlookup (lease_records s') l = Some Closed"
proof (cases msg)
  case (AttachOrJoin l' c t)
  with assms(2) have "attach_or_join env l' c t s = Inr s'"
    by (auto simp: handle_message_def elim!: bind_resE)
  from keeps_attach_or_join [OF assms(1) this] admit_lease_closed [OF assms(3)] show ?thesis
    by (simp add: keeps_def)
next
  case (ReleaseLease l' c)
  with assms(2) obtain r s1 where "release_lease env l' s = Inr (r, s1)"
    "s' = snd (send_reply env c (ReleaseResult r) s1)"
    by (auto simp: handle_message_def elim!: bind_res_pairE)
  with release_lease_closed [OF _ _ assms(3)] assms(1) show ?thesis by (simp add: settled_inv_def)
next
  case (Detach l' g)
  with assms show ?thesis
    by (auto simp: handle_message_def handle_detach_def split: option.splits)
next
  case (LeaseMaxTimeReached l' g)
  with assms(2) have h: "handle_max_time env l' g s = Inr s'"
    by (auto simp: handle_message_def elim!: bind_resE)
  have inv: "engine_inv_leaving l' (s\<lparr>counters := k\<rparr>)" for k
    using assms(1) by (intro engine_inv_leaving) (simp add: settled_inv_def engine_inv_def)
  from h have "s' = s \<or> (\<exists>k. retire_lease env l' (s\<lparr>counters := k\<rparr>) = Inr s')"
    by (auto simp: handle_max_time_def split: option.splits if_splits)
  then show ?thesis
    using keeps_retire_lease [OF inv] assms(3) by (fastforce simp: keeps_def)
next
  case (DatabaseWorker m)
  with assms(2) have "handle_database_worker_message env m s = Inr s'"
    by (auto simp: handle_message_def elim!: bind_resE)
  from keeps_worker_message [OF assms(1) this] assms(3) show ?thesis by (simp add: keeps_def)
next
  case Shutdown
  with assms show ?thesis by (auto simp: handle_message_def)
qed

lemma process_messages_closed:
  assumes "settled_inv s" "process_messages inbox s = Inr s'"
    and "fmlookup (lease_records s) l = Some Closed"
  shows "fmlookup (lease_records s') l = Some Closed"
  using assms
proof (induction inbox arbitrary: s)
  case (Cons m rest)
  obtain env msg where m: "m = (env, msg)" by (cases m)
  from Cons.prems(2) obtain go s1 where h: "handle_message env msg s = Inr (go, s1)"
    and r: "(if go then process_messages rest s1 else Inr s1) = Inr s'"
    unfolding m process_messages.simps by (rule bind_res_pairE)
  have "settled_inv s1"
    using outcome_InrD [OF settled_inv_handle_message [OF Cons.prems(1)] h] by simp
  with Cons.IH r handle_message_closed [OF Cons.prems(1) h Cons.prems(3)] show ?case
    by (auto split: if_splits)
qed simp

text \<open>
  C13: a lease that was closed stays closed whatever messages follow: it has no database, nobody
  waits for it, and its admission record keeps the closed status.
\<close>

theorem closed_lease_stays_closed:
  assumes "engine_reachable create cfg s" "reports_initial create cfg"
    and "fmlookup (lease_records s) l = Some Closed"
    and "process_messages inbox s = Inr s'"
  shows "fmlookup (lease_records s') l = Some Closed \<and> fmlookup (leases s') l = None \<and>
         l \<notin> set (waiters s') \<and> fmlookup (group_waiters s') l = None"
proof -
  note inv = settled_inv_reachable [OF assms(1,2)]
  from process_messages_closed [OF inv assms(4,3)]
  have closed: "fmlookup (lease_records s') l = Some Closed" .
  have s': "engine_inv s'"
    using outcome_InrD [OF settled_inv_process_messages [OF inv] assms(4)] by (simp add: settled_inv_def)
  then have "l |\<notin>| fmdom (leases s')" "l \<notin> set (waiters s')" "l |\<notin>| fmdom (group_waiters s')"
    using closed by (auto simp: engine_inv_def record_inv_def queue_inv_def)
  with closed show ?thesis by (simp add: fmlookup_fmdom)
qed

text \<open>The lease of \<open>one_lease\<close> after its release.\<close>

definition closed_one :: "nat WorkerEngine" where
  "closed_one = small_engine
     \<lparr>lease_records := fmupd (LeaseId ''a'') Closed (fmupd (LeaseId ''a'') Open fmempty),
      leases := fmdrop (LeaseId ''a'') (leases one_lease), next_generation := 1,
      inventory := \<lparr>next_database_id = 2, creating = {||},
        ready = [\<lparr>db_id = DatabaseId 2, db_name = ''dd''\<rparr>],
        retiring = fmupd (DatabaseId 1) ''d'' fmempty\<rparr>,
      calls := [Reply 0 (Attached ''d'' 1 (ChildToken 1)) True, CancelToken (ChildToken 1),
        RequestCleanup \<lparr>cleanup_id = DatabaseId 1, cleanup_name = ''d''\<rparr> True,
        Reply 8 (ReleaseResult (Inr ())) True]\<rparr>"

lemma small_release:
  "handle_message calm_env (ReleaseLease (LeaseId ''a'') 8) one_lease = Inr (True, closed_one)"
  by (simp add: engine_eval small_cfg_def small_engine_def calm_env_def one_lease_def closed_one_def)

lemma closed_one_reachable: "engine_reachable small_create small_cfg closed_one"
  by (rule handled [OF one_lease_reachable small_release])

theorem closed_lease_stays_closed_witness:
  "fmlookup (lease_records closed_one) (LeaseId ''a'') = Some Closed \<and>
   fmlookup (leases closed_one) (LeaseId ''a'') = None \<and>
   LeaseId ''a'' \<notin> set (waiters closed_one) \<and> fmlookup (group_waiters closed_one) (LeaseId ''a'') = None"
  by (rule closed_lease_stays_closed [OF closed_one_reachable small_create_reports, of _ "[]"])
    (simp_all add: closed_one_def)

text \<open>
  C14: releasing a lease that is open, or not known yet while the record limit has room, succeeds:
  the lease is closed, its database leaves the lease table for the retirement record, its token is
  cancelled and its cleanup is requested before the engine goes on, every client that was queued for
  it is rejected, and no other lease is touched. Releasing a lease that is already closed succeeds
  and changes nothing; releasing a lease that is not known yet when the record limit is reached is
  refused and changes nothing.
\<close>

theorem release_closes_lease:
  assumes "settled_inv s"
  shows "if fmlookup (lease_records s) l = Some Closed then release_lease env l s = Inr (Inr (), s)
         else if fmlookup (lease_records s) l = None \<and> max_lease_records (config s) \<le> fcard (fmdom (lease_records s))
         then release_lease env l s = Inr (Inl ReleaseLeaseRecordLimitReached, s)
         else outcome exhaustion (\<lambda>(r, s').
           r = Inr () \<and> fmlookup (lease_records s') l = Some Closed \<and>
           leases s' = fmdrop l (leases s) \<and>
           waiters s' = filter (\<lambda>w. w \<noteq> l) (waiters s) \<and>
           group_waiters s' = fmdrop l (group_waiters s) \<and>
           (\<exists>growth. calls s' = calls s
              @ map (\<lambda>(c, t). Reply c (AttachRejected LeaseClosed) (accepts env c (AttachRejected LeaseClosed)))
                  (case fmlookup (group_waiters s) l of None \<Rightarrow> [] | Some ws \<Rightarrow> ws)
              @ (case fmlookup (leases s) l of
                   None \<Rightarrow> []
                 | Some e \<Rightarrow>
                     let req = \<lparr>cleanup_id = db_id (database e), cleanup_name = db_name (database e)\<rparr>
                     in [CancelToken (cancellation e), RequestCleanup req (cleanup_open env req)])
              @ growth \<and> (\<forall>x \<in> set growth. \<exists>req b. x = RequestCreation req b)) \<and>
           (\<forall>e. fmlookup (leases s) l = Some e \<longrightarrow>
              place_of (inventory s') (db_id (database e)) = Some Retiring))
         (release_lease env l s)"
proof (cases "fmlookup (lease_records s) l = Some Open \<or>
    fmlookup (lease_records s) l = None \<and> fcard (fmdom (lease_records s)) < max_lease_records (config s)")
  case False
  then show ?thesis
    by (cases "fmlookup (lease_records s) l"; cases "the (fmlookup (lease_records s) l)")
      (auto simp: release_lease_def admit_lease_def)
next
  case True
  then have open_or_new: "fmlookup (lease_records s) l \<noteq> Some Closed"
    "\<not> (fmlookup (lease_records s) l = None \<and> max_lease_records (config s) \<le> fcard (fmdom (lease_records s)))"
    by auto
  from assms have es: "engine_inv s" by (simp add: settled_inv_def)
  obtain s1 where a: "admit_lease l s = (Inr Open, s1)"
    using True by (cases l s rule: admit_lease_cases) auto
  note adm = engine_inv_admit [OF es a]
  let ?c = "closed_state env l s1"
  note cl = engine_inv_closed_state [OF adm(1) adm(2) [OF refl], of env]
  have "outcome exhaustion (\<lambda>s'. fmlookup (lease_records s') l = Some Closed \<and>
           leases s' = fmdrop l (leases s) \<and> waiters s' = filter (\<lambda>w. w \<noteq> l) (waiters s) \<and>
           group_waiters s' = fmdrop l (group_waiters s) \<and>
           (\<exists>growth. calls s' = calls ?c
              @ (case fmlookup (leases s) l of
                   None \<Rightarrow> []
                 | Some e \<Rightarrow>
                     let req = \<lparr>cleanup_id = db_id (database e), cleanup_name = db_name (database e)\<rparr>
                     in [CancelToken (cancellation e), RequestCleanup req (cleanup_open env req)])
              @ growth \<and> (\<forall>x \<in> set growth. \<exists>req b. x = RequestCreation req b)) \<and>
           (\<forall>e. fmlookup (leases s) l = Some e \<longrightarrow>
              place_of (inventory s') (db_id (database e)) = Some Retiring)) (retire_lease env l ?c)"
    (is "outcome _ ?P _")
  proof (cases "fmlookup (leases s) l")
    case None
    then show ?thesis
      by (simp add: retire_lease_def closed_state_def adm fmdrop_absent Let_def)
  next
    case (Some e)
    then have e: "fmlookup (leases ?c) l = Some e" by (simp add: closed_state_def adm Let_def)
    note eq = retire_lease_eq [OF e, of env] and inv = engine_inv_retired_state [OF cl e, of env]
    let ?r = "retired_state env l e ?c"
    have pl: "place_of (inventory ?r) (db_id (database e)) = Some Retiring"
      using cl e retire_correct(2) [of "inventory ?c" "database e"]
      by (auto simp: retired_state_def engine_inv_leaving_def lease_inv_def entry_ok_def Let_def)
    have "?P s'" if g: "grow env ?r = Inr s'" for s'
    proof -
      obtain growth where grown: "calls s' = calls ?r @ growth"
        "\<forall>x \<in> set growth. \<exists>req b. x = RequestCreation req b"
        by (rule grow_calls [OF inv g])
      note kept = grow_place [OF inv g pl]
      have "same_leases ?r s' \<and> same_queue ?r s'"
        using outcome_InrD [OF engine_inv_grow [OF inv] g] by simp
      with grown kept Some show ?thesis
        by (auto simp: same_leases_def same_queue_def retired_state_def closed_state_def adm Let_def)
    qed
    with outcome_InlD [OF engine_inv_grow [OF inv]] show ?thesis
      unfolding eq by (intro outcomeI) auto
  qed
  then show ?thesis
    unfolding if_not_P [OF open_or_new(1)] if_not_P [OF open_or_new(2)] release_lease_eq a prod.case sum.case LeaseStatus.case
    by (elim outcome_bind) (auto simp: closed_state_def adm Let_def)
qed

lemma settled_inv_small: "settled_inv one_lease" "settled_inv two_leases" "settled_inv closed_one"
  using settled_inv_reachable [OF one_lease_reachable small_create_reports]
    settled_inv_reachable [OF two_leases_reachable small_create_reports]
    settled_inv_reachable [OF closed_one_reachable small_create_reports] by simp_all

theorem release_closes_lease_witness:
  "outcome exhaustion (\<lambda>(r, s'). r = Inr () \<and> fmlookup (lease_records s') (LeaseId ''a'') = Some Closed)
     (release_lease calm_env (LeaseId ''a'') one_lease)"
proof -
  have "fmlookup (lease_records one_lease) (LeaseId ''a'') = Some Open" by (simp add: one_lease_def)
  with release_closes_lease [OF settled_inv_small(1), of "LeaseId ''a''" calm_env] show ?thesis
    by (simp, elim outcome_mono) auto
qed

text \<open>
  Releasing a lease again succeeds and changes nothing, and every later attempt to attach to it
  is rejected with the reason that the lease is closed, changing nothing else.
\<close>

lemma release_idempotent:
  assumes "fmlookup (lease_records s) l = Some Closed"
  shows "release_lease env l s = Inr (Inr (), s) \<and>
         attach_or_join env l c t s =
           Inr (record_call (Reply c (AttachRejected LeaseClosed) (accepts env c (AttachRejected LeaseClosed))) s)"
  using assms by (simp add: release_lease_def attach_or_join_def admit_lease_def send_reply_def)

lemma release_idempotent_witness:
  "release_lease calm_env (LeaseId ''a'') closed_one = Inr (Inr (), closed_one)"
  by (rule conjunct1 [OF release_idempotent]) (simp add: closed_one_def)

section \<open>Generations\<close>

text \<open>
  A message that names a generation other than the current one of the lease (a connection of an
  earlier assignment that ends late, or a timer that was not cancelled in time) changes nothing.
\<close>

lemma stale_message_ignored:
  assumes "\<And>e. fmlookup (leases s) l = Some e \<Longrightarrow> generation e \<noteq> g"
  shows "handle_message env (Detach l g) s = Inr (True, s) \<and>
         handle_message env (LeaseMaxTimeReached l g) s = Inr (True, s)"
  using assms
  by (auto simp: handle_message_def handle_detach_def handle_max_time_def split: option.splits)

lemma stale_message_ignored_witness:
  "handle_message calm_env (Detach (LeaseId ''a'') 9) one_lease = Inr (True, one_lease)"
  by (rule conjunct1 [OF stale_message_ignored]) (auto simp: one_lease_def)

text \<open>
  C15: the expiry of the current generation retires the lease whatever its number of connections:
  the lease leaves the table, its token is cancelled, its database is retired and the lease itself
  stays open, so that its next client starts a new generation.
\<close>

theorem expiry_retires_lease:
  assumes "settled_inv s" "fmlookup (leases s) l = Some e"
  shows "outcome exhaustion (\<lambda>(go, s').
           go \<and> leases s' = fmdrop l (leases s) \<and> fmlookup (lease_records s') l = Some Open \<and>
           place_of (inventory s') (db_id (database e)) = Some Retiring \<and>
           CancelToken (cancellation e) \<in> set (calls s') \<and>
           (\<exists>b. RequestCleanup \<lparr>cleanup_id = db_id (database e), cleanup_name = db_name (database e)\<rparr> b
              \<in> set (calls s')))
         (handle_message env (LeaseMaxTimeReached l (generation e)) s)"
proof -
  define k where "k = (counters s)\<lparr>rejected_attach_max_lifetime := rejected_attach_max_lifetime (counters s) + 1\<rparr>"
  let ?s = "s\<lparr>counters := k\<rparr>"
  have inv: "engine_inv ?s" using assms(1) by (simp add: settled_inv_def engine_inv_def)
  have e: "fmlookup (leases ?s) l = Some e" using assms(2) by simp
  note lv = engine_inv_leaving [OF inv, of l]
  let ?r = "retired_state env l e ?s"
  note rinv = engine_inv_retired_state [OF lv e, of env]
  have pl: "place_of (inventory ?r) (db_id (database e)) = Some Retiring"
    using inv e retire_correct(2) [of "inventory ?s" "database e"]
    by (auto simp: retired_state_def engine_inv_def lease_inv_def entry_ok_def Let_def)
  have op: "fmlookup (lease_records s) l = Some Open"
    using leased_open [OF inv] e by (simp add: fmlookup_in_fmdom)
  have "outcome exhaustion (\<lambda>s'. leases s' = fmdrop l (leases s) \<and> fmlookup (lease_records s') l = Some Open \<and>
           place_of (inventory s') (db_id (database e)) = Some Retiring \<and>
           CancelToken (cancellation e) \<in> set (calls s') \<and>
           (\<exists>b. RequestCleanup \<lparr>cleanup_id = db_id (database e), cleanup_name = db_name (database e)\<rparr> b
              \<in> set (calls s'))) (grow env ?r)" (is "outcome _ ?P _")
  proof (rule outcomeI)
    fix s' assume g: "grow env ?r = Inr s'"
    obtain growth where "calls s' = calls ?r @ growth" by (rule grow_calls [OF rinv g])
    moreover have "leases s' = leases ?r" "lease_records s' = lease_records ?r"
      using outcome_InrD [OF engine_inv_grow [OF rinv] g] by (simp_all add: same_leases_def same_queue_def)
    ultimately show "?P s'"
      using grow_place [OF rinv g pl] op by (auto simp: retired_state_def Let_def)
  qed (use outcome_InlD [OF engine_inv_grow [OF rinv]] in blast)
  moreover have "handle_message env (LeaseMaxTimeReached l (generation e)) s =
      bind_res (grow env ?r) (\<lambda>s1. Inr (True, s1))"
    using assms(2) retire_lease_eq [OF e, of env] by (simp add: handle_message_def handle_max_time_def k_def)
  ultimately show ?thesis by (simp, elim outcome_bind) simp
qed

theorem expiry_retires_lease_witness:
  "outcome exhaustion (\<lambda>(go, s'). go \<and> place_of (inventory s') (DatabaseId 1) = Some Retiring)
     (handle_message calm_env (LeaseMaxTimeReached (LeaseId ''a'') 1) one_lease)"
proof -
  let ?e = "\<lparr>database = \<lparr>db_id = DatabaseId 1, db_name = ''d''\<rparr>, conns = 1,
                    generation = 1, cancellation = ChildToken 1\<rparr>"
  have "fmlookup (leases one_lease) (LeaseId ''a'') = Some ?e" by (simp add: one_lease_def)
  from expiry_retires_lease [OF settled_inv_small(1) this, of calm_env] show ?thesis
    by (simp, elim outcome_mono) auto
qed

section \<open>Attaching\<close>

lemma leased_admitted:
  assumes "settled_inv s" "fmlookup (leases s) l = Some e"
  shows "admit_lease l s = (Inr Open, s)"
proof -
  have "fmlookup (lease_records s) l = Some Open"
    using leased_open [OF _ fmlookup_in_fmdom [OF assms(2)]] assms(1) by (simp add: settled_inv_def)
  then show ?thesis by (simp add: admit_lease_def)
qed

lemma settled_inv_conns:
  assumes "settled_inv s" "fmlookup (leases s) l = Some e"
  shows "settled_inv (s\<lparr>leases := fmupd l (e\<lparr>conns := n\<rparr>) (leases s)\<rparr>)"
proof -
  have "finsert l (fmdom (leases s)) = fmdom (leases s)"
    using assms(2) by (simp add: fmlookup_in_fmdom finsert_absorb)
  with assms lease_inv_conns [OF _ assms(2), of "next_generation s" "inventory s" n] show ?thesis
    by (simp add: settled_inv_def queue_settled_def engine_inv_def record_inv_def queue_inv_def)
qed

text \<open>
  C16: a client that attaches to a lease that already has a database, and fewer than 65535
  connections, joins it: it receives the same
  database, generation and cancellation token, the connection count grows by one exactly when the
  reply reaches it, no timer is started, and nothing else changes.
\<close>

theorem join_shares_database:
  assumes "settled_inv s" "fmlookup (leases s) l = Some e" "conns e \<noteq> - 1"
  shows "attach_or_join env l c t s =
           (let msg = Attached (db_name (database e)) (generation e) (cancellation e);
                n = (if accepts env c msg then conns e + 1 else conns e)
            in Inr (s\<lparr>leases := fmupd l (e\<lparr>conns := n\<rparr>) (leases s),
                      calls := calls s @ [Reply c msg (accepts env c msg)]\<rparr>))"
proof -
  have "admit_lease l s = (Inr Open, s)" by (rule leased_admitted [OF assms(1,2)])
  from attach_or_join_eq [OF this, of env c t] assms(2,3) show ?thesis
    by (simp add: reply_attached_eq attach_conns_def attach_msg_def)
qed

theorem join_shares_database_witness:
  "attach_or_join calm_env (LeaseId ''a'') 5 0 one_lease =
     Inr (one_lease\<lparr>leases := fmupd (LeaseId ''a'') \<lparr>database = \<lparr>db_id = DatabaseId 1, db_name = ''d''\<rparr>,
             conns = 2, generation = 1, cancellation = ChildToken 1\<rparr> (leases one_lease),
          calls := calls one_lease @ [Reply 5 (Attached ''d'' 1 (ChildToken 1)) True]\<rparr>)"
proof -
  let ?e = "\<lparr>database = \<lparr>db_id = DatabaseId 1, db_name = ''d''\<rparr>, conns = 1,
                    generation = 1, cancellation = ChildToken 1\<rparr>"
  have "fmlookup (leases one_lease) (LeaseId ''a'') = Some ?e" by (simp add: one_lease_def)
  from join_shares_database [OF settled_inv_small(1) this, of calm_env 5 0] show ?thesis
    by (simp add: calm_env_def Let_def)
qed

text \<open>
  The connection count never wraps: a client that attaches to a lease with 65535 connections is
  answered with a failure and the state is left as it was.
\<close>

lemma join_full_lease:
  assumes "settled_inv s" "fmlookup (leases s) l = Some e" "conns e = 65535"
  shows "attach_or_join env l c t s =
           Inr (record_call (Reply c FailedToAttach (accepts env c FailedToAttach)) s)"
proof -
  have "admit_lease l s = (Inr Open, s)" by (rule leased_admitted [OF assms(1,2)])
  moreover have "checked_add (conns e) 1 = None" by (simp add: checked_add_def assms(3))
  ultimately show ?thesis
    using assms(2) by (simp add: attach_or_join_def reply_attached_def send_reply_def)
qed

lemma join_full_lease_witness:
  "\<exists>s. settled_inv s \<and> attach_or_join calm_env (LeaseId ''a'') 5 0 s =
     Inr (record_call (Reply 5 FailedToAttach True) s)"
proof -
  let ?e = "\<lparr>database = \<lparr>db_id = DatabaseId 1, db_name = ''d''\<rparr>, conns = 1,
                    generation = 1, cancellation = ChildToken 1\<rparr>"
  let ?s = "one_lease\<lparr>leases := fmupd (LeaseId ''a'') (?e\<lparr>conns := 65535\<rparr>) (leases one_lease)\<rparr>"
  have "fmlookup (leases one_lease) (LeaseId ''a'') = Some ?e" by (simp add: one_lease_def)
  from settled_inv_conns [OF settled_inv_small(1) this] have inv: "settled_inv ?s" .
  have "attach_or_join calm_env (LeaseId ''a'') 5 0 ?s =
          Inr (record_call (Reply 5 FailedToAttach (accepts calm_env 5 FailedToAttach)) ?s)"
    by (rule join_full_lease [OF inv, of _ "?e\<lparr>conns := 65535\<rparr>"]) simp_all
  moreover have "accepts calm_env 5 FailedToAttach" by (simp add: calm_env_def)
  ultimately show ?thesis using inv by (intro exI [of _ ?s]) simp
qed

text \<open>
  A client that attaches to an open lease without a database while one is ready receives the
  database at the head of the ready queue under a generation that was never used before, and the
  lease's expiry timer, when a timeout is configured, carries that generation and token.
\<close>

lemma attach_takes_oldest_ready:
  assumes "settled_inv s" "fmlookup (leases s) l = None"
    and "fst (admit_lease l s) = Inr Open"
    and "ready (inventory s) = db # rest" "unat (next_generation s) + 1 < 2 ^ 64"
    and "\<And>m. accepts env c m"
  shows "outcome exhaustion (\<lambda>s'.
           let g = next_generation s + 1; e = \<lparr>database = db, conns = 1, generation = g, cancellation = ChildToken g\<rparr>
           in leases s' = fmupd l e (leases s) \<and> next_generation s' = g \<and> ready (inventory s') = rest \<and>
              (\<exists>growth. calls s' = calls s
                 @ (if 0 < lease_claim_timeout_ms (config s)
                    then [SendDelayed l g (ucast (lease_claim_timeout_ms (config s))) (ChildToken g) (timer_ok env l g)]
                    else [])
                 @ [Reply c (Attached (db_name db) g (ChildToken g)) True] @ growth \<and>
                 (\<forall>x \<in> set growth. \<exists>req b. x = RequestCreation req b)))
         (attach_or_join env l c t s)"
proof -
  let ?g = "next_generation s + 1"
  obtain s1 where a: "admit_lease l s = (Inr Open, s1)"
    using assms(3) by (cases "admit_lease l s") auto
  have es: "engine_inv s" using assms(1) by (simp add: settled_inv_def)
  note adm = engine_inv_admit [OF es a]
  have s1: "settled_inv s1" using adm assms(1) by (simp add: settled_inv_def queue_settled_def)
  let ?iv = "(inventory s)\<lparr>ready := rest\<rparr>"
  have tk: "take_ready (inventory s1) = (Some db, ?iv)" by (simp add: take_ready_def adm assms(4))
  have g: "checked_add (next_generation s1) 1 = Some ?g"
    using assms(5) by (simp add: checked_add_def adm)
  let ?timer = "if 0 < lease_claim_timeout_ms (config s)
      then [SendDelayed l ?g (ucast (lease_claim_timeout_ms (config s))) (ChildToken ?g) (timer_ok env l ?g)] else []"
  let ?s4 = "s1\<lparr>inventory := ?iv, next_generation := ?g,
      leases := fmupd l \<lparr>database = db, conns = 1, generation = ?g, cancellation = ChildToken ?g\<rparr> (leases s),
      calls := calls s @ ?timer @ [Reply c (Attached (db_name db) ?g (ChildToken ?g)) True]\<rparr>"
  have fresh: "attach_fresh env l c db (s1\<lparr>inventory := ?iv\<rparr>) = Inr (False, ?s4)"
    using g assms(6)
    by (simp add: attach_fresh_def assign_database_eq reply_attached_eq attach_conns_def attach_msg_def
        restore_unclaimed_database_def adm)
  have out: "l |\<notin>| fmdom (leases s1)" using assms(2) by (simp add: fmlookup_fmdom adm)
  have "lease_inv (leases s1) (next_generation s1) (inventory s1)"
    using adm(1) by (simp add: engine_inv_def)
  from outcome_InrD [OF serves_attach_fresh [OF this out tk, of env c] fresh]
  have "serves l s1 ?s4" by simp
  from settled_inv_serves [OF s1 this] adm(2) [OF refl] assms(4)
  have inv4: "engine_inv ?s4" by (simp add: adm settled_inv_def)
  have eq: "attach_or_join env l c t s = grow env ?s4"
    using assms(2) tk fresh by (simp add: attach_or_join_eq [OF a] adm)
  show ?thesis
    unfolding eq
  proof (rule outcomeI)
    fix s' assume gr: "grow env ?s4 = Inr s'"
    obtain growth where "calls s' = calls ?s4 @ growth" "\<forall>x \<in> set growth. \<exists>req b. x = RequestCreation req b"
      by (rule grow_calls [OF inv4 gr])
    with outcome_InrD [OF engine_inv_grow [OF inv4] gr]
    show "let g = ?g; e = \<lparr>database = db, conns = 1, generation = g, cancellation = ChildToken g\<rparr>
           in leases s' = fmupd l e (leases s) \<and> next_generation s' = g \<and> ready (inventory s') = rest \<and>
              (\<exists>growth. calls s' = calls s
                 @ (if 0 < lease_claim_timeout_ms (config s)
                    then [SendDelayed l g (ucast (lease_claim_timeout_ms (config s))) (ChildToken g) (timer_ok env l g)]
                    else [])
                 @ [Reply c (Attached (db_name db) g (ChildToken g)) True] @ growth \<and>
                 (\<forall>x \<in> set growth. \<exists>req b. x = RequestCreation req b))"
      by (simp add: same_leases_def Let_def)
  qed (use outcome_InlD [OF engine_inv_grow [OF inv4]] in blast)
qed

lemma attach_takes_oldest_ready_witness:
  "outcome exhaustion (\<lambda>s'. ready (inventory s') = [] \<and> next_generation s' = 2)
     (attach_or_join calm_env (LeaseId ''b'') 7 0 one_lease)"
proof -
  have "outcome exhaustion (\<lambda>s'.
           let g = next_generation one_lease + 1;
               e = \<lparr>database = \<lparr>db_id = DatabaseId 2, db_name = ''dd''\<rparr>, conns = 1, generation = g, cancellation = ChildToken g\<rparr>
           in leases s' = fmupd (LeaseId ''b'') e (leases one_lease) \<and> next_generation s' = g \<and> ready (inventory s') = [] \<and>
              (\<exists>growth. calls s' = calls one_lease
                 @ (if 0 < lease_claim_timeout_ms (config one_lease)
                    then [SendDelayed (LeaseId ''b'') g (ucast (lease_claim_timeout_ms (config one_lease))) (ChildToken g)
                            (timer_ok calm_env (LeaseId ''b'') g)]
                    else [])
                 @ [Reply 7 (Attached (db_name \<lparr>db_id = DatabaseId 2, db_name = ''dd''\<rparr>) g (ChildToken g)) True] @ growth \<and>
                 (\<forall>x \<in> set growth. \<exists>req b. x = RequestCreation req b)))
         (attach_or_join calm_env (LeaseId ''b'') 7 0 one_lease)"
    by (rule attach_takes_oldest_ready [OF settled_inv_small(1)])
      (simp_all add: one_lease_def admit_lease_def small_engine_def small_cfg_def WorkerEngine_new_def
        calm_env_def eval_simps)
  then show ?thesis by (rule outcome_mono) (simp add: Let_def one_lease_def)
qed

section \<open>The queue\<close>

text \<open>The clients that were answered, in order.\<close>

definition answered :: "'c call list \<Rightarrow> 'c list" where
  "answered log = [c. Reply c m b \<leftarrow> log]"

lemma answered_append [simp]: "answered (log @ log') = answered log @ answered log'"
  by (simp add: answered_def)

lemma answered_call [simp]:
  "answered [] = []" "answered [Reply c m b] = [c]" "answered [SendDelayed l g d tk ok] = []"
  "answered [CancelToken tk] = []"
  by (simp_all add: answered_def)

lemma answered_pick:
  assumes "(case fmlookup (leases s) l of
             Some entry \<Rightarrow> Inr (db_name (database entry), s)
           | None \<Rightarrow> (case take_ready (inventory s) of
                  (None, iv) \<Rightarrow> Inl DispatchRequiresReady
                | (Some db, iv) \<Rightarrow> assign_database env l db (s\<lparr>inventory := iv\<rparr>))) = Inr (name, s1)"
  shows "answered (calls s1) = answered (calls s)" "counters s1 = counters s" "config s1 = config s"
  using assms
  by (auto simp: assign_database_def Let_def split: option.splits prod.splits if_splits)

text \<open>
  When a lease is served, exactly its clients whose claim has not timed out are answered, in
  the order in which they queued; every other one is counted as a timeout and gets no answer.
\<close>

lemma waiting_clients_answered:
  assumes "dispatch_replies env l replies s = Inr s'"
  shows "answered (calls s') = answered (calls s) @ map fst (filter (\<lambda>(c, t). claim_live env s t) replies) \<and>
         waiter_timeouts (counters s') = waiter_timeouts (counters s)
           + of_nat (length (filter (\<lambda>(c, t). \<not> claim_live env s t) replies))"
proof -
  have "answered (calls s') = answered (calls s) @ map fst (filter (\<lambda>(c, t). claim_live env s t) replies) \<and>
        waiter_timeouts (counters s') = waiter_timeouts (counters s)
           + of_nat (length (filter (\<lambda>(c, t). \<not> claim_live env s t) replies)) \<and> config s' = config s"
    using assms
  proof (induction replies arbitrary: s)
    case Nil
    then show ?case by simp
  next
    case (Cons r rest)
    obtain c t where r: "r = (c, t)" by (cases r)
    show ?case
    proof (cases "lease_claim_timeout_ms (config s) > 0 \<and>
                  elapsed_ms env t > unat (lease_claim_timeout_ms (config s))")
      case True
      then have "\<not> claim_live env s t" by (auto simp: claim_live_def)
      with True Cons.prems Cons.IH [of "s\<lparr>counters := (counters s)\<lparr>waiter_timeouts := waiter_timeouts (counters s) + 1\<rparr>\<rparr>"]
      show ?thesis by (simp add: r claim_live_def [abs_def])
    next
      case False
      then have live: "claim_live env s t"
        by (auto simp: claim_live_def word_gt_0 not_less)
      from Cons.prems obtain name s1 where p: "(case fmlookup (leases s) l of
             Some entry \<Rightarrow> Inr (db_name (database entry), s)
           | None \<Rightarrow> (case take_ready (inventory s) of
                  (None, iv) \<Rightarrow> Inl DispatchRequiresReady
                | (Some db, iv) \<Rightarrow> assign_database env l db (s\<lparr>inventory := iv\<rparr>))) = Inr (name, s1)"
        and b: "bind_res (reply_attached env l name c s1) (dispatch_replies env l rest) = Inr s'"
        unfolding r dispatch_replies.simps if_not_P [OF False] by (rule bind_res_pairE)
      obtain s2 where a: "reply_attached env l name c s1 = Inr s2" and d: "dispatch_replies env l rest s2 = Inr s'"
        using b by (rule bind_resE)
      have "answered (calls s2) = answered (calls s1) @ [c]" "counters s2 = counters s1" "config s2 = config s1"
        using a by (auto simp: reply_attached_def send_reply_def record_call_def Let_def
            split: option.splits if_splits)
      with answered_pick [OF p] Cons.IH [OF d] live show ?thesis
        by (simp add: r claim_live_def [abs_def])
    qed
  qed
  then show ?thesis by simp
qed

text \<open>A timeout of ten milliseconds, and a clock on which an instant is its own age.\<close>

definition timed_engine :: "nat WorkerEngine" where
  "timed_engine = one_lease\<lparr>config := small_cfg\<lparr>lease_claim_timeout_ms := 10\<rparr>\<rparr>"

definition aging_env :: "nat env" where
  "aging_env = calm_env\<lparr>elapsed_ms := (\<lambda>t. t)\<rparr>"

lemma waiting_clients_answered_witness:
  "\<exists>s'. dispatch_replies aging_env (LeaseId ''a'') [(5, 3), (6, 11), (7, 4)] timed_engine = Inr s' \<and>
        answered (calls s') = [0, 5, 7] \<and> waiter_timeouts (counters s') = 1"
proof -
  have "\<exists>s'. dispatch_replies aging_env (LeaseId ''a'') [(5, 3), (6, 11), (7, 4)] timed_engine = Inr s'"
    by (simp add: engine_eval aging_env_def calm_env_def timed_engine_def one_lease_def small_engine_def small_cfg_def)
  then obtain s' where s': "dispatch_replies aging_env (LeaseId ''a'') [(5, 3), (6, 11), (7, 4)] timed_engine = Inr s'"
    by blast
  from waiting_clients_answered [OF this] s' show ?thesis
    by (auto simp: claim_live_def aging_env_def calm_env_def timed_engine_def one_lease_def small_engine_def
        small_cfg_def WorkerEngine_new_def EngineCounters_default_def answered_def)
qed

text \<open>The clients of a waiting lease whose claim has not timed out, in the order of their requests.\<close>

definition claimants :: "'c env \<Rightarrow> 'c WorkerEngine \<Rightarrow> LeaseId \<Rightarrow> 'c list" where
  "claimants env s l =
     (case fmlookup (group_waiters s) l of None \<Rightarrow> [] | Some ps \<Rightarrow> map fst (filter (\<lambda>(c, t). claim_live env s t) ps))"

text \<open>The database of a lease, when it holds one.\<close>

definition databases_held :: "'c WorkerEngine \<Rightarrow> LeaseId \<Rightarrow> Database list" where
  "databases_held s l = (case fmlookup (leases s) l of None \<Rightarrow> [] | Some e \<Rightarrow> [database e])"

lemma claim_live_frame [simp]:
  "claim_live env (s\<lparr>counters := k\<rparr>) = claim_live env s" "claim_live env (popped s l rest) = claim_live env s"
  by (simp_all add: claim_live_def [abs_def] popped_def)

lemma claim_live_config: "config s' = config s \<Longrightarrow> claim_live env s' = claim_live env s"
  by (simp add: claim_live_def [abs_def])

lemma databases_held_same: "fmlookup (leases s') l = fmlookup (leases s) l \<Longrightarrow> databases_held s' l = databases_held s l"
  by (simp add: databases_held_def)

text \<open>The client was sent the database, the generation and the token of the lease.\<close>

definition told :: "'c env \<Rightarrow> 'c WorkerEngine \<Rightarrow> LeaseEntry \<Rightarrow> 'c \<Rightarrow> bool" where
  "told env s e c \<longleftrightarrow>
     (let msg = Attached (db_name (database e)) (generation e) (cancellation e)
      in Reply c msg (accepts env c msg) \<in> set (calls s))"

lemma told_conns [simp]: "told env s (e\<lparr>conns := n\<rparr>) c = told env s e c"
  by (simp add: told_def)

lemma told_mono: "set (calls s) \<subseteq> set (calls s') \<Longrightarrow> told env s e c \<Longrightarrow> told env s' e c"
  by (auto simp: told_def Let_def)

lemma talks_calls: "adds P s s' \<Longrightarrow> set (calls s) \<subseteq> set (calls s')"
  by (auto simp: adds_def)

text \<open>
  The clients of a lease that has a database are connected to it; all of them are told, unless there
  are too many to count.
\<close>

lemma dispatch_replies_joined:
  assumes "dispatch_replies env l ps s = Inr s'" "fmlookup (leases s) l = Some e"
  shows "\<exists>n. fmlookup (leases s') l = Some (e\<lparr>conns := n\<rparr>) \<and> inventory s' = inventory s \<and> (conns e = - 1 \<longrightarrow> n = - 1) \<and>
      (conns e \<noteq> 0 \<or> (\<exists>(c, t) \<in> set ps. claim_live env s t \<and> (\<forall>m. accepts env c m)) \<longrightarrow> n \<noteq> 0) \<and>
      (n \<noteq> - 1 \<longrightarrow> (\<forall>(c, t) \<in> set ps. claim_live env s t \<longrightarrow> told env s' e c))"
  using assms
proof (induction ps arbitrary: s e)
  case Nil
  then show ?case by (intro exI [of _ "conns e"]) simp
next
  case (Cons r rest)
  obtain c t where r: "r = (c, t)" by (cases r)
  show ?case
  proof (cases "lease_claim_timeout_ms (config s) > 0 \<and> elapsed_ms env t > unat (lease_claim_timeout_ms (config s))")
    case True
    then have "\<not> claim_live env s t" by (auto simp: claim_live_def)
    with True Cons.prems Cons.IH [of "s\<lparr>counters := (counters s)\<lparr>waiter_timeouts := waiter_timeouts (counters s) + 1\<rparr>\<rparr>" e]
    show ?thesis by (simp add: r)
  next
    case False
    let ?n = "attach_conns env c e (db_name (database e))"
    have "conns e \<noteq> - 1 \<Longrightarrow> conns e + 1 \<noteq> 0" by (metis add_eq_0_iff2)
    then have pos: "conns e \<noteq> 0 \<or> (\<forall>m. accepts env c m) \<Longrightarrow> ?n \<noteq> 0" and full: "conns e = - 1 \<Longrightarrow> ?n = - 1"
      by (auto simp: attach_conns_def)
    obtain s2 where s2: "reply_attached env l (db_name (database e)) c s = Inr s2" "dispatch_replies env l rest s2 = Inr s'"
      using Cons.prems unfolding r dispatch_replies.simps if_not_P [OF False] by (auto elim: bind_resE)
    then have e2: "fmlookup (leases s2) l = Some (e\<lparr>conns := ?n\<rparr>)" "inventory s2 = inventory s" "config s2 = config s"
      "conns e \<noteq> - 1 \<Longrightarrow> told env s2 e c"
      by (auto simp: reply_attached_eq [OF Cons.prems(2)] told_def attach_msg_def)
    obtain n where n: "fmlookup (leases s') l = Some (e\<lparr>conns := ?n, conns := n\<rparr>)" "inventory s' = inventory s2"
      "?n = - 1 \<longrightarrow> n = - 1"
      "?n \<noteq> 0 \<or> (\<exists>(c, t) \<in> set rest. claim_live env s t \<and> (\<forall>m. accepts env c m)) \<longrightarrow> n \<noteq> 0"
      "n \<noteq> - 1 \<longrightarrow> (\<forall>(c, t) \<in> set rest. claim_live env s t \<longrightarrow> told env s' e c)"
      using Cons.IH [OF s2(2) e2(1)] by (auto simp: claim_live_config [OF e2(3)])
    have "told env s' e c" if "n \<noteq> - 1"
      using that n(3) full e2(4) told_mono [OF talks_calls [OF talks_dispatch_replies [OF s2(2)]]] by blast
    with n e2(2) pos full show ?thesis by (intro exI [of _ n]) (auto simp: r)
  qed
qed

text \<open>The clients of a lease without one take the oldest ready database, when one of them is left to take it.\<close>

lemma dispatch_replies_taken:
  assumes "dispatch_replies env l ps s = Inr s'" "fmlookup (leases s) l = None" "ready (inventory s) = db # dbs"
  shows "if \<exists>(c, t) \<in> set ps. claim_live env s t
         then \<exists>e. fmlookup (leases s') l = Some e \<and> database e = db \<and> ready (inventory s') = dbs \<and>
                ((\<exists>(c, t) \<in> set ps. claim_live env s t \<and> (\<forall>m. accepts env c m)) \<longrightarrow> conns e \<noteq> 0) \<and>
                (conns e \<noteq> - 1 \<longrightarrow> (\<forall>(c, t) \<in> set ps. claim_live env s t \<longrightarrow> told env s' e c))
         else fmlookup (leases s') l = None \<and> ready (inventory s') = db # dbs"
  using assms
proof (induction ps arbitrary: s)
  case (Cons r rest)
  obtain c t where r: "r = (c, t)" by (cases r)
  show ?case
  proof (cases "lease_claim_timeout_ms (config s) > 0 \<and> elapsed_ms env t > unat (lease_claim_timeout_ms (config s))")
    case True
    then have "\<not> claim_live env s t" by (auto simp: claim_live_def)
    with True Cons.prems Cons.IH [of "s\<lparr>counters := (counters s)\<lparr>waiter_timeouts := waiter_timeouts (counters s) + 1\<rparr>\<rparr>"]
    show ?thesis by (auto simp: r split: if_splits)
  next
    case False
    then have live: "claim_live env s t" by (auto simp: claim_live_def word_gt_0 not_less)
    obtain name s1 where s1: "assign_database env l db (s\<lparr>inventory := (inventory s)\<lparr>ready := dbs\<rparr>\<rparr>) = Inr (name, s1)"
      and b: "bind_res (reply_attached env l name c s1) (dispatch_replies env l rest) = Inr s'"
      using Cons.prems unfolding r dispatch_replies.simps if_not_P [OF False]
      by (auto simp: take_ready_def elim!: bind_res_pairE)
    obtain e where e: "fmlookup (leases s1) l = Some e" "database e = db" "ready (inventory s1) = dbs"
      "config s1 = config s" "conns e = 0"
      using s1 by (auto simp: assign_database_def Let_def split: option.splits if_splits)
    have "name = db_name db" using s1 by (auto simp: assign_database_def Let_def split: option.splits)
    then have "dispatch_replies env l ((c, t) # rest) s1 = Inr s'" using b False e by auto
    then obtain n where n: "fmlookup (leases s') l = Some (e\<lparr>conns := n\<rparr>)" "inventory s' = inventory s1"
      "conns e \<noteq> 0 \<or> (\<exists>(c, t) \<in> set ((c, t) # rest). claim_live env s1 t \<and> (\<forall>m. accepts env c m)) \<longrightarrow> n \<noteq> 0"
      "n \<noteq> - 1 \<longrightarrow> (\<forall>(c, t) \<in> set ((c, t) # rest). claim_live env s1 t \<longrightarrow> told env s' e c)"
      by - (drule dispatch_replies_joined [OF _ e(1)], elim exE conjE, rule that)
    have "\<exists>e. fmlookup (leases s') l = Some e \<and> database e = db \<and> ready (inventory s') = dbs \<and>
        ((\<exists>(c, t) \<in> set ((c, t) # rest). claim_live env s t \<and> (\<forall>m. accepts env c m)) \<longrightarrow> conns e \<noteq> 0) \<and>
        (conns e \<noteq> - 1 \<longrightarrow> (\<forall>(c, t) \<in> set ((c, t) # rest). claim_live env s t \<longrightarrow> told env s' e c))"
      using n e(2,3) unfolding claim_live_config [OF e(4)] by (intro exI [of _ "e\<lparr>conns := n\<rparr>"]) simp
    with live show ?thesis by (simp add: r)
  qed
qed simp

text \<open>One turn: the clients are answered, and a database that none of them could be told about goes back.\<close>

lemma serve_group_served:
  assumes "serve_group env l ps s = Inr s'" "fmlookup (leases s) l = None" "ready (inventory s) = db # dbs"
  shows "ready (inventory s) = databases_held s' l @ ready (inventory s')"
    and "answered (calls s') = answered (calls s) @ map fst (filter (\<lambda>(c, t). claim_live env s t) ps)"
    and "fmlookup (leases s') l = Some e \<Longrightarrow> conns e \<noteq> 0 \<and> (\<exists>(c, t) \<in> set ps. claim_live env s t) \<and>
      (conns e \<noteq> - 1 \<longrightarrow> (\<forall>(c, t) \<in> set ps. claim_live env s t \<longrightarrow> told env s' e c))"
    and "\<exists>(c, t) \<in> set ps. claim_live env s t \<and> (\<forall>m. accepts env c m) \<Longrightarrow> l |\<in>| fmdom (leases s')"
    and "set (calls s) \<subseteq> set (calls s')"
proof -
  obtain s1 b where s1: "dispatch_replies env l ps s = Inr s1" and s2: "restore_unclaimed_database l s1 = Inr (b, s')"
    using assms(1) by (auto simp: serve_group_def bind_res_eq_Inr)
  note taken = dispatch_replies_taken [OF s1 assms(2,3)]
  show "ready (inventory s) = databases_held s' l @ ready (inventory s')"
    using taken s2 assms(3)
    by (auto simp: restore_unclaimed_database_def databases_held_def return_ready_def Let_def split: if_splits option.splits)
  show "answered (calls s') = answered (calls s) @ map fst (filter (\<lambda>(c, t). claim_live env s t) ps)"
    using waiting_clients_answered [OF s1] s2
    by (auto simp: restore_unclaimed_database_def Let_def split: if_splits option.splits)
  show "conns e \<noteq> 0 \<and> (\<exists>(c, t) \<in> set ps. claim_live env s t) \<and>
      (conns e \<noteq> - 1 \<longrightarrow> (\<forall>(c, t) \<in> set ps. claim_live env s t \<longrightarrow> told env s' e c))" if "fmlookup (leases s') l = Some e"
    using taken s2 that
    by (auto simp: restore_unclaimed_database_def Let_def split: if_splits option.splits)
  show "set (calls s) \<subseteq> set (calls s')"
    using talks_calls [OF adds_trans [OF talks_dispatch_replies [OF s1] talks_restore [OF s2]]] .
  show "l |\<in>| fmdom (leases s')" if "\<exists>(c, t) \<in> set ps. claim_live env s t \<and> (\<forall>m. accepts env c m)"
  proof -
    from that have "\<exists>(c, t) \<in> set ps. claim_live env s t" by auto
    with taken that obtain e where "fmlookup (leases s1) l = Some e" "conns e \<noteq> 0" by auto
    with s2 show ?thesis
      by (auto simp: restore_unclaimed_database_def Let_def fmlookup_in_fmdom split: if_splits option.splits)
  qed
qed

text \<open>What serving the leases \<open>served\<close> from the head of the queue has done.\<close>

definition served_in_order ::
  "'c env \<Rightarrow> 'c WorkerEngine \<Rightarrow> 'c WorkerEngine \<Rightarrow> LeaseId list \<Rightarrow> bool" where
  "served_in_order env s s' served \<longleftrightarrow>
     waiters s = served @ waiters s' \<and>
     ready (inventory s) = concat (map (databases_held s') served) @ ready (inventory s') \<and>
     answered (calls s') = answered (calls s) @ concat (map (claimants env s) served) \<and>
     set (calls s) \<subseteq> set (calls s') \<and>
     (\<forall>l \<in> set served. fmlookup (group_waiters s') l = None \<and>
        (\<forall>e. fmlookup (leases s') l = Some e \<longrightarrow> conns e \<noteq> 0 \<and> claimants env s l \<noteq> [] \<and>
           (conns e \<noteq> - 1 \<longrightarrow> (\<forall>c \<in> set (claimants env s l). told env s' e c))) \<and>
        ((\<exists>c \<in> set (claimants env s l). \<forall>m. accepts env c m) \<longrightarrow> l |\<in>| fmdom (leases s'))) \<and>
     (\<forall>l. l \<notin> set served \<longrightarrow> fmlookup (group_waiters s') l = fmlookup (group_waiters s) l \<and>
        fmlookup (leases s') l = fmlookup (leases s) l)"

lemma served_turn:
  assumes "engine_inv s" "waiters s = l # rest" "fmlookup (group_waiters s) l = Some ps"
    and "serve_group env l ps (popped s l rest) = Inr s1" "serves l (popped s l rest) s1" "ready (inventory s) \<noteq> []"
    and "served_in_order env s1 s' served"
  shows "served_in_order env s s' (l # served)"
proof -
  have frame: "waiters s1 = rest" "group_waiters s1 = fmdrop l (group_waiters s)" "config s1 = config s"
    "\<And>k. k \<noteq> l \<Longrightarrow> fmlookup (leases s1) k = fmlookup (leases s) k"
    using assms(5) by (simp_all add: serves_def same_queue_def others_same_def popped_def)
  have l: "l \<notin> set served" "fmlookup (leases (popped s l rest)) l = None"
    using engine_inv_popped [OF assms(1,2)] assms(7) frame(1)
    by (auto simp: popped_def served_in_order_def fmdom_notD)
  obtain db dbs where db: "ready (inventory (popped s l rest)) = db # dbs"
    using assms(6) by (cases "ready (inventory s)") (auto simp: popped_def)
  note turn = serve_group_served [OF assms(4) l(2) db]
  have claims: "claimants env s l = map fst (filter (\<lambda>(c, t). claim_live env s t) ps)"
    using assms(3) by (simp add: claimants_def)
  have p: "calls (popped s l rest) = calls s" "ready (inventory (popped s l rest)) = ready (inventory s)"
    by (simp_all add: popped_def)
  have handed: "ready (inventory s) = databases_held s1 l @ ready (inventory s1)"
    "answered (calls s1) = answered (calls s) @ claimants env s l"
    using turn(1,2) by (simp_all add: claims p)
  have later: "claimants env s1 k = claimants env s k" if "k \<noteq> l" for k
    using that by (simp add: claimants_def claim_live_config [OF frame(3)] frame(2) split: option.splits)
  have each: "\<forall>k \<in> set served. claimants env s1 k = claimants env s k" using l(1) later by metis
  then have same: "concat (map (claimants env s1) served) = concat (map (claimants env s) served)"
    by (intro arg_cong [of _ _ concat] map_cong) simp_all
  have kept: "fmlookup (leases s') l = fmlookup (leases s1) l" "fmlookup (group_waiters s') l = None"
    using assms(7) l(1) frame(2) by (auto simp: served_in_order_def)
  have mono: "set (calls s1) \<subseteq> set (calls s')" "set (calls s) \<subseteq> set (calls s1)"
    using assms(7) turn(5) by (simp_all add: served_in_order_def p)
  have "conns e \<noteq> 0 \<and> claimants env s l \<noteq> []" if "fmlookup (leases s') l = Some e" for e
    using turn(3) that by (fastforce simp: kept claims filter_empty_conv)
  moreover have "\<forall>c \<in> set (claimants env s l). told env s' e c"
    if "fmlookup (leases s') l = Some e" "conns e \<noteq> - 1" for e
    using turn(3) [of e] that told_mono [OF mono(1)] by (fastforce simp: kept claims)
  moreover have "l |\<in>| fmdom (leases s')" if "\<exists>c \<in> set (claimants env s l). \<forall>m. accepts env c m"
    using turn(4) that kept(1) by (force simp: claims fmlookup_dom_iff)
  ultimately show ?thesis
    using assms(2,7) handed mono l(1) kept frame each same databases_held_same [OF kept(1)]
    by (auto simp: served_in_order_def)
qed

lemma dispatch_waiters_served:
  assumes "engine_inv s" "dispatch_waiters env s = Inr s'"
  shows "\<exists>served. served_in_order env s s' served"
  using assms
proof (induction rule: dispatch_waiters_loop)
  case (idle s)
  have "served_in_order env s s []" by (simp add: served_in_order_def)
  then show ?case ..
next
  case (turn s l rest ps s1)
  then show ?case using served_turn by blast
qed

text \<open>
  C17: serving the queue goes through the waiting leases from the head of the queue and stops only
  when no database is ready or nobody waits. Every client of a lease it reaches is answered, in the
  order of the queue and of the requests, unless its claim has timed out, and nobody else is. The
  ready databases are handed to the reached leases in order, the oldest first, and none is lost or
  skipped: a reached lease holds one when one of its clients can still be told, and only with a
  connected client; each of its clients is told the name, the generation and the token, short of the
  65535 connections a lease can count. The leases that keep waiting hold no database and their
  clients stay queued as they were.
\<close>

theorem waiters_served_in_order:
  assumes "engine_inv s"
  shows "outcome exhaustion (\<lambda>s'.
           (ready (inventory s') = [] \<or> waiters s' = []) \<and>
           (\<exists>served.
              waiters s = served @ waiters s' \<and>
              ready (inventory s) = concat (map (databases_held s') served) @ ready (inventory s') \<and>
              answered (calls s') = answered (calls s) @ concat (map (claimants env s) served) \<and>
              (\<forall>l \<in> set served. fmlookup (group_waiters s') l = None \<and>
                 (\<forall>e. fmlookup (leases s') l = Some e \<longrightarrow> conns e \<noteq> 0 \<and> claimants env s l \<noteq> [] \<and>
                    (conns e \<noteq> - 1 \<longrightarrow> (\<forall>c \<in> set (claimants env s l). told env s' e c))) \<and>
                 ((\<exists>c \<in> set (claimants env s l). \<forall>m. accepts env c m) \<longrightarrow> l |\<in>| fmdom (leases s'))) \<and>
              (\<forall>l \<in> set (waiters s'). fmlookup (group_waiters s') l = fmlookup (group_waiters s) l \<and>
                 fmlookup (leases s') l = None)))
         (dispatch_waiters env s)" (is "outcome _ ?served _")
proof (rule outcomeI)
  fix s' assume run: "dispatch_waiters env s = Inr s'"
  have s': "engine_inv s'" "queue_settled s'"
    using outcome_InrD [OF engine_inv_dispatch_waiters [OF assms] run] by simp_all
  obtain served where w: "served_in_order env s s' served" using dispatch_waiters_served [OF assms run] ..
  have "distinct (waiters s)" using assms by (simp add: engine_inv_def queue_inv_def)
  with w have "l \<notin> set served" if "l \<in> set (waiters s')" for l using that by (auto simp: served_in_order_def)
  moreover have "fmlookup (leases s') l = None" if "l \<in> set (waiters s')" for l
    using s'(1) that by (auto simp: engine_inv_def queue_inv_def fmlookup_fmdom)
  ultimately show "?served s'"
    using s'(2) w unfolding queue_settled_def served_in_order_def by blast
qed (use outcome_InlD [OF engine_inv_dispatch_waiters [OF assms]] in blast)

text \<open>The engine of \<open>one_lease\<close> with two more leases, one client of the first and two of the second waiting.\<close>

definition queued_engine :: "nat WorkerEngine" where
  "queued_engine = one_lease\<lparr>
     lease_records := fmupd (LeaseId ''c'') Open (fmupd (LeaseId ''b'') Open (lease_records one_lease)),
     waiters := [LeaseId ''b'', LeaseId ''c''],
     group_waiters := fmupd (LeaseId ''c'') [(8, 0), (9, 0)] (fmupd (LeaseId ''b'') [(7, 0)] fmempty)\<rparr>"

lemma queued_engine_inv: "engine_inv queued_engine"
proof -
  have "lease_inv (leases one_lease) (next_generation one_lease) (inventory one_lease)"
    using settled_inv_small(1) by (simp add: settled_inv_def engine_inv_def)
  then show ?thesis
    by (auto simp: engine_inv_def queued_engine_def record_inv_def queue_inv_def one_lease_def
        small_engine_def small_cfg_def WorkerEngine_new_def fcard_finsert_if)
qed

lemma split_pair: "[x, y] = p @ q \<Longrightarrow> p = [] \<or> p = [x] \<and> q = [y] \<or> p = [x, y]"
  by (auto simp: Cons_eq_append_conv)

theorem waiters_served_in_order_witness:
  "outcome exhaustion (\<lambda>s'. waiters s' = [LeaseId ''c''] \<and> answered (calls s') = [0, 7] \<and>
       databases_held s' (LeaseId ''b'') = [\<lparr>db_id = DatabaseId 2, db_name = ''dd''\<rparr>] \<and>
       fmlookup (group_waiters s') (LeaseId ''c'') = Some [(8, 0), (9, 0)])
     (dispatch_waiters calm_env queued_engine)"
proof (rule outcome_mono [OF waiters_served_in_order [OF queued_engine_inv]], goal_cases)
  case (1 s')
  have claims: "claimants calm_env queued_engine (LeaseId ''b'') = [7]" "claimants calm_env queued_engine (LeaseId ''c'') = [8, 9]"
    by (simp_all add: claimants_def claim_live_def calm_env_def queued_engine_def one_lease_def small_engine_def
        small_cfg_def WorkerEngine_new_def)
  have queue: "waiters queued_engine = [LeaseId ''b'', LeaseId ''c'']"
    "ready (inventory queued_engine) = [\<lparr>db_id = DatabaseId 2, db_name = ''dd''\<rparr>]"
    "answered (calls queued_engine) = [0]" "fmlookup (group_waiters queued_engine) (LeaseId ''c'') = Some [(8, 0), (9, 0)]"
    by (simp_all add: queued_engine_def one_lease_def)
  from 1 obtain served where r: "ready (inventory s') = [] \<or> waiters s' = []"
    and w: "[LeaseId ''b'', LeaseId ''c''] = served @ waiters s'"
    and d: "[\<lparr>db_id = DatabaseId 2, db_name = ''dd''\<rparr>] = concat (map (databases_held s') served) @ ready (inventory s')"
    and a: "answered (calls s') = [0] @ concat (map (claimants calm_env queued_engine) served)"
    and all: "\<forall>l \<in> set served. (\<exists>c \<in> set (claimants calm_env queued_engine l). \<forall>m. accepts calm_env c m) \<longrightarrow>
      l |\<in>| fmdom (leases s')"
    and k: "\<forall>l \<in> set (waiters s'). fmlookup (group_waiters s') l = fmlookup (group_waiters queued_engine) l"
    unfolding queue by blast
  have "accepts calm_env c m" for c m by (simp add: calm_env_def)
  then have h: "l |\<in>| fmdom (leases s')" if "l \<in> set served" "claimants calm_env queued_engine l \<noteq> []" for l
    using all that list.set_intros(1) by (metis neq_Nil_conv)
  have held: "databases_held s' l \<noteq> []" if "l \<in> set served" "claimants calm_env queued_engine l \<noteq> []" for l
    using h [OF that] by (auto simp: databases_held_def fmlookup_dom_iff)
  consider "served = []" | "served = [LeaseId ''b'']" "waiters s' = [LeaseId ''c'']" | "served = [LeaseId ''b'', LeaseId ''c'']"
    using split_pair [OF w] by blast
  then show ?case
  proof cases
    case 1
    with r w d show ?thesis by auto
  next
    case 2
    then have "databases_held s' (LeaseId ''b'') = [\<lparr>db_id = DatabaseId 2, db_name = ''dd''\<rparr>]"
      using d held [of "LeaseId ''b''"] by (auto simp: claims Cons_eq_append_conv)
    with 2 a k show ?thesis by (simp add: claims queue)
  next
    case 3
    with d held [of "LeaseId ''b''"] held [of "LeaseId ''c''"] show ?thesis
      by (auto simp: claims Cons_eq_append_conv)
  qed
qed

section \<open>Growth\<close>

text \<open>The supply that growth aims at: every live waiting lease, the threshold, and one more.\<close>

definition growth_target :: "'c env \<Rightarrow> 'c WorkerEngine \<Rightarrow> nat" where
  "growth_target env s = fcard (waiting_leases env s) + unat (starvation_threshold (config s)) + 1"

text \<open>
  Growth keeps the supply at its target. With a positive batch size and an open creation
  channel, the databases that are ready or being created afterwards cover every live waiting lease,
  the starvation threshold and one more; nothing is requested when they already did, and otherwise
  the surplus stays below one batch and the request is a multiple of the batch size.
\<close>

lemma growth_meets_target:
  fixes s :: "'c WorkerEngine"
  assumes "inventory_inv (inventory s)" "0 < unat (grow_batch_size (config s))"
    and "\<And>req. creation_open env req" "grow env s = Inr s'"
  shows "growth_target env s \<le> supply_len (inventory s') \<and>
         (growth_target env s \<le> supply_len (inventory s) \<longrightarrow> s' = s) \<and>
         (supply_len (inventory s) < growth_target env s \<longrightarrow>
            supply_len (inventory s') < growth_target env s + unat (grow_batch_size (config s)) \<and>
            unat (grow_batch_size (config s)) dvd (supply_len (inventory s') - supply_len (inventory s)))"
proof -
  let ?b = "unat (grow_batch_size (config s))" and ?n = "growth_count env s"
  have ge: "growth_deficit env s \<le> ?n" and lt: "?n < growth_deficit env s + ?b"
    using div_ceil_mult_ge [OF assms(2)] div_ceil_mult_less [OF assms(2)] by (simp_all add: growth_count_def)
  have def: "growth_deficit env s = growth_target env s - supply_len (inventory s)" by (simp add: growth_deficit_def growth_target_def)
  show ?thesis
  proof (cases rule: grow_cases [OF assms(1), where env = env, case_names idle exhausted requested refused])
    case idle
    with assms(2,4) def show ?thesis by auto
  next
    case requested
    then have s': "supply_len (inventory s') = supply_len (inventory s) + ?n"
      using assms(1,4) supply_len_reserved by auto
    have "?b dvd ?n" by (simp add: growth_count_def)
    moreover have "?n = 0" if "growth_deficit env s = 0"
      using that by (simp add: growth_count_def div_ceil_def)
    ultimately show ?thesis using ge lt def requested(1) s' by (cases "growth_deficit env s = 0") auto
  qed (use assms(3,4) in simp_all)
qed

text \<open>The engine of \<open>one_lease\<close> after its last ready database was taken, before it grew.\<close>

definition empty_engine :: "nat WorkerEngine" where
  "empty_engine = one_lease\<lparr>inventory := (inventory one_lease)\<lparr>ready := []\<rparr>,
     config := small_cfg\<lparr>starvation_threshold := 4, grow_batch_size := 3\<rparr>\<rparr>"

lemma empty_engine_inv: "inventory_inv (inventory empty_engine)"
  by (simp add: empty_engine_def inventory_inv_def one_lease_def held_def)

lemma growth_meets_target_witness:
  "\<exists>s'. grow calm_env empty_engine = Inr s' \<and> 5 \<le> supply_len (inventory s')"
proof -
  have "\<exists>s'. grow calm_env empty_engine = Inr s'"
    by (simp add: engine_eval calm_env_def empty_engine_def one_lease_def small_engine_def small_cfg_def)
  then obtain s' where s': "grow calm_env empty_engine = Inr s'" by blast
  have open_env: "creation_open calm_env req" for req by (simp add: calm_env_def)
  have "0 < unat (grow_batch_size (config empty_engine))" by (simp add: empty_engine_def)
  from growth_meets_target [OF empty_engine_inv this open_env s'] s' show ?thesis
    by (auto simp: empty_engine_def growth_target_def)
qed

text \<open>
  When the creation channel is closed, growth gives its whole reservation back: every identity
  is where it was, the supply and the ready queue are as before, and the failure is counted once per
  database. The identities themselves are not used again.
\<close>

lemma growth_rolls_back:
  assumes "inventory_inv (inventory s)" "\<And>req. \<not> creation_open env req" "grow env s = Inr s'"
  shows "place_of (inventory s') = place_of (inventory s) \<and> ready (inventory s') = ready (inventory s) \<and>
         unable_to_start_database_slots (counters s') =
           unable_to_start_database_slots (counters s)
             + (if s' = s then 0 else of_nat (growth_count env s)) \<and>
         leases s' = leases s \<and> group_waiters s' = group_waiters s"
  using assms(2,3)
  by (cases rule: grow_cases [OF assms(1), where env = env]) (auto dest: arg_cong [where f = calls])

definition closed_env :: "nat env" where
  "closed_env = calm_env\<lparr>creation_open := (\<lambda>r. False)\<rparr>"

lemma growth_rolls_back_witness:
  "\<exists>s'. grow closed_env empty_engine = Inr s' \<and> place_of (inventory s') = place_of (inventory empty_engine)"
proof -
  have "\<exists>s'. grow closed_env empty_engine = Inr s'"
    by (simp add: engine_eval closed_env_def calm_env_def empty_engine_def one_lease_def small_engine_def
        small_cfg_def)
  then obtain s' where s': "grow closed_env empty_engine = Inr s'" by blast
  have "\<not> creation_open closed_env req" for req by (simp add: closed_env_def)
  from growth_rolls_back [OF empty_engine_inv this s'] s' show ?thesis by blast
qed

section \<open>The expiry timer\<close>

text \<open>
  C21: the delay of the expiry timer is the configured timeout modulo \<open>2 ^ 32\<close>, because the
  timeout is cast from 64 to 32 bits: it is the configured timeout exactly when that is below
  \<open>2 ^ 32\<close> milliseconds, and a timeout of \<open>2 ^ 32\<close> milliseconds expires the lease at once.
\<close>

theorem timer_delay_truncated:
  assumes "assign_database env l db s = Inr (name, s')" "0 < lease_claim_timeout_ms (config s)"
  shows "\<exists>d ok. calls s' = calls s @ [SendDelayed l (next_generation s') d (ChildToken (next_generation s')) ok] \<and>
           unat d = unat (lease_claim_timeout_ms (config s)) mod 2 ^ 32 \<and>
           (unat d = unat (lease_claim_timeout_ms (config s)) \<longleftrightarrow>
              unat (lease_claim_timeout_ms (config s)) < 2 ^ 32)"
proof -
  let ?T = "lease_claim_timeout_ms (config s)"
  from assms(1) obtain g where g: "checked_add (next_generation s) 1 = Some g"
    by (auto simp: assign_database_def split: option.splits)
  have d: "unat (ucast ?T :: u32) = unat ?T mod 2 ^ 32"
    by (simp add: unsigned_ucast_eq take_bit_eq_mod)
  then have "unat (ucast ?T :: u32) = unat ?T \<longleftrightarrow> unat ?T < 2 ^ 32"
    by (simp add: mod_eq_self_iff_div_eq_0 div_eq_0_iff)
  with d show ?thesis
    using assms(1) assms(2)
    unfolding assign_database_eq [OF g] by (auto intro!: exI [of _ "ucast ?T :: u32"])
qed

definition long_lease_engine :: "nat WorkerEngine" where
  "long_lease_engine = small_engine\<lparr>config := small_cfg\<lparr>lease_claim_timeout_ms := 4294967296\<rparr>\<rparr>"

theorem timer_delay_truncated_witness:
  "\<exists>name s'. assign_database calm_env (LeaseId ''a'') \<lparr>db_id = DatabaseId 1, db_name = ''d''\<rparr> long_lease_engine
       = Inr (name, s') \<and>
     (\<exists>ok. calls s' = [SendDelayed (LeaseId ''a'') (next_generation s') 0 (ChildToken (next_generation s')) ok])"
proof -
  have "\<exists>name s'. assign_database calm_env (LeaseId ''a'') \<lparr>db_id = DatabaseId 1, db_name = ''d''\<rparr> long_lease_engine
       = Inr (name, s')"
    by (simp add: engine_eval long_lease_engine_def small_engine_def)
  then obtain name s' where s': "assign_database calm_env (LeaseId ''a'')
      \<lparr>db_id = DatabaseId 1, db_name = ''d''\<rparr> long_lease_engine = Inr (name, s')" by blast
  from timer_delay_truncated [OF this] s' show ?thesis
    by (auto simp: long_lease_engine_def small_engine_def WorkerEngine_new_def unat_eq_0)
qed

section \<open>Initialisation\<close>

text \<open>
  The initialisation settles its whole batch. Whatever the order in which the client reports
  the creations, no reservation is left pending, the created databases are ready in the order in
  which they were reported, and the result is the first reported failure, or success when there is
  none.
\<close>

lemma init_settles_batch:
  assumes "reports_initial create cfg"
  shows "\<exists>r s. try_init create (WorkerEngine_new cfg) = Inr (r, s) \<and>
           creating (inventory s) = {||} \<and>
           map db_name (ready (inventory s)) = initial_names create cfg \<and>
           r = (case failures (create (unat (initial_slots cfg))) of [] \<Rightarrow> Inr () | e # _ \<Rightarrow> Inl e)"
proof -
  let ?s = "WorkerEngine_new cfg" and ?n = "unat (initial_slots cfg)"
  have "config ?s = cfg" by (simp add: WorkerEngine_new_def)
  with try_init_outcome [where create = create and s = ?s, OF assms _ refl] show ?thesis
    by (auto simp: WorkerEngine_new_def db_name_created initial_names_def DatabaseInventory_default_def)
qed

text \<open>A batch of two whose second database is reported first and whose first one fails.\<close>

definition failing_create :: "nat \<Rightarrow> (nat \<times> (PostgresDDLClientError + ReadString)) list" where
  "failing_create n = (if n = 2 then [(1, Inr ''x''), (0, Inl (OperationFailed ''disk full''))] else [])"

lemma init_settles_batch_witness:
  "\<exists>s :: nat WorkerEngine.
     try_init failing_create (WorkerEngine_new small_cfg) = Inr (Inl (OperationFailed ''disk full''), s) \<and>
     map db_name (ready (inventory s)) = [''x'']"
proof -
  have "reports_initial failing_create small_cfg"
    by (auto simp: reports_once_def failing_create_def small_cfg_def)
  from init_settles_batch [where create = failing_create and cfg = small_cfg, OF this] show ?thesis
    by (auto simp: failing_create_def small_cfg_def initial_names_def)
qed

section \<open>Admission\<close>

text \<open>
  C22: the number of admission records never exceeds the configured limit. Once it is reached, a
  lease without a record is refused, both when a client attaches and when it is released, and the
  refusal changes nothing.
\<close>

theorem record_limit:
  assumes "engine_reachable create cfg s" "reports_initial create cfg"
  shows "fcard (fmdom (lease_records s)) \<le> max_lease_records (config s) \<and>
         (fmlookup (lease_records s) l = None \<longrightarrow>
          fcard (fmdom (lease_records s)) = max_lease_records (config s) \<longrightarrow>
         attach_or_join env l c t s =
           Inr (record_call (Reply c (AttachRejected AttachLeaseRecordLimitReached)
             (accepts env c (AttachRejected AttachLeaseRecordLimitReached))) s) \<and>
         release_lease env l s = Inr (Inl ReleaseLeaseRecordLimitReached, s))"
proof -
  have "fcard (fmdom (lease_records s)) \<le> max_lease_records (config s)"
    using settled_inv_reachable [OF assms] by (simp add: settled_inv_def engine_inv_def record_inv_def)
  moreover have "attach_or_join env l c t s =
           Inr (record_call (Reply c (AttachRejected AttachLeaseRecordLimitReached)
             (accepts env c (AttachRejected AttachLeaseRecordLimitReached))) s) \<and>
         release_lease env l s = Inr (Inl ReleaseLeaseRecordLimitReached, s)"
    if "fmlookup (lease_records s) l = None"
      "fcard (fmdom (lease_records s)) = max_lease_records (config s)"
    using that
    by (simp add: attach_or_join_def release_lease_def admit_lease_def attach_error_def send_reply_def)
  ultimately show ?thesis by blast
qed

theorem record_limit_witness:
  "fcard (fmdom (lease_records two_leases)) \<le> 10"
  using record_limit [OF two_leases_reachable small_create_reports]
  by (simp add: two_leases_def small_engine_def small_cfg_def WorkerEngine_new_def)

section \<open>Shutdown\<close>

lemma process_messages_shutdown:
  "process_messages (inbox @ (env, Shutdown) # rest) s = process_messages (inbox @ [(env, Shutdown)]) s"
proof (induction inbox arbitrary: s)
  case Nil
  then show ?case by (simp add: handle_message_def)
next
  case (Cons m inbox)
  then show ?case by (cases m) (simp cong: if_cong)
qed

text \<open>
  The engine stops at the first shutdown message: what follows it in the inbox is not handled,
  and every client token is cancelled through the root token when the engine stops, whether a
  shutdown was received or the inbox was closed.
\<close>

lemma shutdown_stops_engine:
  "run_engine (inbox @ (env, Shutdown) # rest) s = run_engine (inbox @ [(env, Shutdown)]) s \<and>
   (case run_engine inbox' s of Inl p \<Rightarrow> True | Inr s' \<Rightarrow> last (calls s') = CancelRoot)"
  unfolding run_engine_def
  by (cases "process_messages inbox' s") (simp_all add: process_messages_shutdown [of inbox env rest])

end
