(* ===== verification/Worker_Manager.thy ===== *)
theory Worker_Manager
  imports Worker_Io Engine_Accounting Engine_Properties
begin

text \<open>
  Runs of a started manager: the engine, its clients, timers and database workers interleaved in any
  order. Every connection the engine counts belongs to a session that still exists or to a detachment
  on its way, and no two sessions of different leases work on the same database.
\<close>

section \<open>Runs\<close>

text \<open>
  One step of the system. The environment chooses which client calls, which receiver is polled or
  dropped, which session ends and which task runs next, and the results of the PostgreSQL client,
  one for each index of a batch.
\<close>

inductive manager_step :: "WorkerEngineManager \<Rightarrow> WorkerEngineManager \<Rightarrow> bool" where
  attach: "manager_step w (snd (attach_request database_name lease w))"
| await: "manager_step w (snd (attach_await ch w))"
| release: "manager_step w (snd (release_request lease w))"
| await_release: "manager_step w (snd (release_await ch w))"
| abandon: "manager_step w (drop_receiver ch w)"
| close: "manager_step w (end_session i w)"
| turn: "engine_turn w = Inr w' \<Longrightarrow> manager_step w w'"
| fire: "manager_step w (timer_fire i w)"
| stop: "manager_step w (timer_stop i w)"
| create: "\<forall>request. reports_once (amount request) (create request) \<Longrightarrow>
     manager_step w (creation_worker_turn create w)"
| created: "creation_job_turn i w = Inr w' \<Longrightarrow> manager_step w w'"
| cleanup: "manager_step w (cleanup_worker_turn w)"
| cleaned: "manager_step w (cleanup_job_turn answer i w)"
| tick: "clock w \<le> t \<Longrightarrow> manager_step w (w\<lparr>clock := t\<rparr>)"
| begin_stop: "manager_step w (begin_shutdown w)"
| finish_stop: "manager_step w (finish_shutdown w)"

text \<open>A manager whose engine has been initialised and whose channels are empty.\<close>

definition fresh_manager :: "ConsumerWorker WorkerEngine \<Rightarrow> WorkerEngineManager \<Rightarrow> bool" where
  "fresh_manager e w \<longleftrightarrow>
     engine_handle w = e \<and> engine_running w \<and> worker_inbox w = [] \<and> unread w = [] \<and>
     sessions w = [] \<and> timers w = [] \<and> creation_jobs w = [] \<and> creation_channel w = [] \<and> handled w = [] \<and>
     creation_worker w \<and> cleanup_worker w \<and> \<not> shutdown_token w"

section \<open>Sessions that exist\<close>

definition of_generation :: "LeaseId \<Rightarrow> u64 \<Rightarrow> LeaseSession \<Rightarrow> bool" where
  "of_generation l g session \<longleftrightarrow>
     session_lease_id session = l \<and> session_generation session = g \<and> detach_on_drop session"

definition unread_sessions :: "(nat \<times> ManagerReply) list \<Rightarrow> LeaseSession list" where
  "unread_sessions rs = concat (map (\<lambda>(ch, r). case r of ManagerAttached x \<Rightarrow> [x] | ManagerEngine m \<Rightarrow> []) rs)"

text \<open>The sessions owned by connections or waiting in a channel.\<close>

definition live_sessions :: "WorkerEngineManager \<Rightarrow> LeaseSession list" where
  "live_sessions w = sessions w @ unread_sessions (unread w)"

definition live :: "WorkerEngineManager \<Rightarrow> LeaseId \<Rightarrow> u64 \<Rightarrow> nat" where
  "live w l g = length (filter (of_generation l g) (live_sessions w))"

definition detaching :: "ConsumerWorker EngineMessage list \<Rightarrow> LeaseId \<Rightarrow> u64 \<Rightarrow> nat" where
  "detaching msgs l g = length (filter (\<lambda>m. m = Detach l g) msgs)"

lemma detaching_simps [simp]:
  "detaching [] l g = 0"
  "detaching (msgs @ msgs') l g = detaching msgs l g + detaching msgs' l g"
  "detaching (m # msgs) l g = (if m = Detach l g then 1 else 0) + detaching msgs l g"
  by (auto simp: detaching_def)

lemma unread_sessions_simps [simp]:
  "unread_sessions [] = []"
  "unread_sessions (rs @ rs') = unread_sessions rs @ unread_sessions rs'"
  "unread_sessions ((ch, ManagerAttached x) # rs) = x # unread_sessions rs"
  "unread_sessions ((ch, ManagerEngine m) # rs) = unread_sessions rs"
  by (simp_all add: unread_sessions_def)

lemma detaching_drop_session [simp]:
  "detaching (drop_session x) l g = (if of_generation l g x then 1 else 0)"
  by (auto simp: drop_session_def of_generation_def)

lemma detaching_drop_replies:
  "detaching (concat (map (drop_reply \<circ> snd) rs)) l g = length (filter (of_generation l g) (unread_sessions rs))"
proof (induction rs)
  case (Cons p rs)
  obtain ch r where "p = (ch, r)" by (cases p)
  with Cons show ?case by (cases r) (simp_all add: drop_reply_def)
qed simp

lemma unread_sessions_partition:
  "length (filter P (unread_sessions (filter Q rs))) + length (filter P (unread_sessions (filter (\<lambda>p. \<not> Q p) rs)))
     = length (filter P (unread_sessions rs))"
proof (induction rs)
  case (Cons p rs)
  obtain ch r where "p = (ch, r)" by (cases p)
  with Cons show ?case by (cases r) simp_all
qed simp

section \<open>The invariant\<close>

text \<open>The session of a successful reply in the log of the engine.\<close>

definition session_logged :: "ConsumerWorker call list \<Rightarrow> LeaseSession \<Rightarrow> bool" where
  "session_logged log x \<longleftrightarrow>
     (\<exists>c. Reply c (Attached (session_database_name x) (session_generation x) (session_cancellation x)) True \<in> set log
        \<and> attachment c = Some (session_lease_id x))"

definition balanced :: "(LeaseId \<Rightarrow> u64 \<Rightarrow> nat) \<Rightarrow> WorkerEngineManager \<Rightarrow> bool" where
  "balanced D w \<longleftrightarrow> (\<forall>l g. attached_to attachment (calls (engine_handle w)) l g =
     D l g + detaching (worker_inbox w) l g + live w l g)"

definition well_addressed :: "ConsumerWorker EngineMessage \<Rightarrow> bool" where
  "well_addressed msg \<longleftrightarrow> (case msg of AttachOrJoin l c t \<Rightarrow> attachment c = Some l | _ \<Rightarrow> True)"

definition is_expiry :: "timer \<Rightarrow> bool" where
  "is_expiry t \<longleftrightarrow> (\<exists>l g. timer_msg t = LeaseMaxTimeReached l g)"

definition manager_inv :: "WorkerEngineManager \<Rightarrow> bool" where
  "manager_inv w \<longleftrightarrow>
     settled_inv (engine_handle w) \<and>
     (\<exists>D. accounted attachment D [] (engine_handle w) \<and> (engine_running w \<longrightarrow> balanced D w)) \<and>
     (\<forall>m \<in> set (worker_inbox w). well_addressed m) \<and>
     (\<forall>x \<in> set (live_sessions w). session_logged (calls (engine_handle w)) x) \<and>
     (\<forall>t \<in> set (timers w). is_expiry t)"

text \<open>
  What every step outside the engine does: it moves sessions and turns dropped ones into
  detachments, and the messages it sends are well addressed.
\<close>

definition settles :: "WorkerEngineManager \<Rightarrow> WorkerEngineManager \<Rightarrow> bool" where
  "settles w w' \<longleftrightarrow>
     engine_handle w' = engine_handle w \<and> engine_running w' = engine_running w \<and> handled w' = handled w \<and>
     (engine_running w \<longrightarrow> (\<forall>l g. detaching (worker_inbox w') l g + live w' l g =
        detaching (worker_inbox w) l g + live w l g)) \<and>
     (\<forall>m \<in> set (worker_inbox w'). m \<in> set (worker_inbox w) \<or> well_addressed m) \<and>
     set (live_sessions w') \<subseteq> set (live_sessions w) \<and> set (timers w') \<subseteq> set (timers w)"

lemma settles_refl [simp]: "settles w w"
  by (simp add: settles_def)

lemma settles_trans: "settles w w1 \<Longrightarrow> settles w1 w2 \<Longrightarrow> settles w w2"
  by (fastforce simp: settles_def)

lemma manager_inv_settles:
  assumes "manager_inv w" "settles w w'"
  shows "manager_inv w'"
proof -
  obtain D where "accounted attachment D [] (engine_handle w)" "engine_running w \<longrightarrow> balanced D w"
    using assms(1) by (auto simp: manager_inv_def)
  with assms(2) have "accounted attachment D [] (engine_handle w')" "engine_running w' \<longrightarrow> balanced D w'"
    by (auto simp: settles_def balanced_def add.assoc)
  with assms show ?thesis unfolding manager_inv_def settles_def by fastforce
qed

text \<open>A step that sends \<open>msgs\<close> and otherwise changes only sessions, receivers, timers and jobs.\<close>

lemma settles_post:
  assumes "engine_handle w1 = engine_handle w" "engine_running w1 = engine_running w" "handled w1 = handled w"
    and "worker_inbox w1 = worker_inbox w" "set (live_sessions w1) \<subseteq> set (live_sessions w)"
    and "set (timers w1) \<subseteq> set (timers w)" "\<forall>m \<in> set msgs. well_addressed m"
    and "\<And>l g. detaching msgs l g + live w1 l g = live w l g"
  shows "settles w (post msgs w1)"
proof -
  have "live_sessions (post msgs w1) = live_sessions w1" "timers (post msgs w1) = timers w1"
    "engine_handle (post msgs w1) = engine_handle w1" "engine_running (post msgs w1) = engine_running w1"
    "handled (post msgs w1) = handled w1" "live (post msgs w1) = live w1"
    by (simp_all add: post_def live_sessions_def live_def fun_eq_iff)
  moreover have "worker_inbox (post msgs w1) = (if engine_running w then worker_inbox w @ msgs else worker_inbox w)"
    using assms(2,4) by (simp add: post_def)
  ultimately show ?thesis
    using assms unfolding settles_def by (auto simp: add.assoc)
qed

lemma post_Nil [simp]: "post [] w = w"
  by (simp add: post_def)

lemmas settles_same = settles_post [where msgs = "[]", simplified]

lemma well_addressed_drops [simp]:
  "\<forall>m \<in> set (drop_session x). well_addressed m"
  "\<forall>m \<in> set (concat (map (drop_reply \<circ> snd) rs)). well_addressed m"
  by (auto simp: drop_session_def drop_reply_def well_addressed_def split: if_splits ManagerReply.splits)

lemma well_addressed_drop_reply: "m \<in> set (drop_reply r) \<Longrightarrow> well_addressed m"
  by (auto simp: drop_session_def drop_reply_def well_addressed_def split: if_splits ManagerReply.splits)

lemma settles_receivers [simp]: "settles w (w'\<lparr>receivers := r\<rparr>) = settles w w'"
  by (simp add: settles_def live_def live_sessions_def)

lemma set_unread_sessions:
  "set rs \<subseteq> set rs' \<Longrightarrow> set (unread_sessions rs) \<subseteq> set (unread_sessions rs')"
  by (auto simp: unread_sessions_def)

lemma settles_drop_receiver: "settles w (drop_receiver ch w)"
  unfolding drop_receiver_def
proof (rule settles_post)
  fix l g
  show "detaching (concat (map (drop_reply \<circ> snd) (filter (\<lambda>p. fst p = ch) (unread w)))) l g +
      live (w\<lparr>unread := filter (\<lambda>p. fst p \<noteq> ch) (unread w), receivers := fmdrop ch (receivers w)\<rparr>) l g = live w l g"
    using unread_sessions_partition [of "of_generation l g" "\<lambda>p. fst p = ch" "unread w"]
    by (simp add: detaching_drop_replies live_def live_sessions_def)
qed (use set_unread_sessions [of "filter (\<lambda>p. fst p \<noteq> ch) (unread w)" "unread w"] in
    \<open>auto simp: live_sessions_def well_addressed_drop_reply\<close>)

section \<open>Steps outside the engine\<close>

lemma settles_sent:
  assumes "well_addressed m" "\<And>l g. m \<noteq> Detach l g"
  shows "settles w (post [m] (w\<lparr>next_channel := k\<rparr>))"
  by (rule settles_post) (use assms in \<open>auto simp: live_sessions_def live_def\<close>)

lemma settles_channel: "settles w (w\<lparr>next_channel := k\<rparr>)"
  by (rule settles_same) (auto simp: live_sessions_def live_def)

lemma settles_attach_request: "settles w (snd (attach_request n l w))"
  by (auto simp: attach_request_def send_message_def Let_def well_addressed_def intro: settles_sent settles_channel)

lemma settles_release_request: "settles w (snd (release_request l w))"
  by (auto simp: release_request_def send_message_def Let_def well_addressed_def intro: settles_sent settles_channel)

lemma live_sessions_take_reply:
  assumes "filter (\<lambda>p. fst p = ch) (unread w) = p # ps"
  shows "live (w\<lparr>unread := remove1 p (unread w)\<rparr>) l g +
           length (filter (of_generation l g) (unread_sessions [p])) = live w l g"
    and "set (live_sessions (w\<lparr>unread := remove1 p (unread w)\<rparr>)) \<subseteq> set (live_sessions w)"
proof -
  have p: "p \<in> set (unread w)" using assms by (metis filter_is_subset list.set_intros(1) subsetD)
  have "length (filter P (unread_sessions (remove1 p rs))) + length (filter P (unread_sessions [p]))
      = length (filter P (unread_sessions rs))" if "p \<in> set rs" for rs P
    using that
  proof (induction rs)
    case (Cons q rs)
    obtain ch r where q: "q = (ch, r)" by (cases q)
    show ?case
    proof (cases "q = p")
      case True
      with q show ?thesis by (cases r) auto
    next
      case False
      with Cons q show ?thesis by (cases r) auto
    qed
  qed simp
  from this [OF p, of "of_generation l g"]
  show "live (w\<lparr>unread := remove1 p (unread w)\<rparr>) l g + length (filter (of_generation l g) (unread_sessions [p])) = live w l g"
    by (simp add: live_def live_sessions_def)
  show "set (live_sessions (w\<lparr>unread := remove1 p (unread w)\<rparr>)) \<subseteq> set (live_sessions w)"
    using set_unread_sessions [OF set_remove1_subset [of p "unread w"]] by (auto simp: live_sessions_def)
qed

text \<open>A session taken out of its channel, put into the hands of a connection or dropped.\<close>

lemma settles_take_session:
  assumes "filter (\<lambda>p. fst p = ch) (unread w) = p # ps" "snd p = ManagerAttached x"
  shows "settles w (drop_receiver ch (w\<lparr>unread := remove1 p (unread w), sessions := sessions w @ [x]\<rparr>))"
    and "settles w (drop_receiver ch (post (drop_session x) (w\<lparr>unread := remove1 p (unread w)\<rparr>)))"
proof -
  obtain ch' where p: "p = (ch', ManagerAttached x)" using assms(2) by (cases p) auto
  have "p \<in> set (unread w)" using assms(1) by (metis filter_is_subset list.set_intros(1) subsetD)
  then have x: "x \<in> set (unread_sessions (unread w))" by (auto simp: unread_sessions_def p)
  note take = live_sessions_take_reply [OF assms(1)]
  have "settles w (w\<lparr>unread := remove1 p (unread w), sessions := sessions w @ [x]\<rparr>)"
  proof (rule settles_same)
    fix l g
    show "live (w\<lparr>unread := remove1 p (unread w), sessions := sessions w @ [x]\<rparr>) l g = live w l g"
      using take(1) [of l g] by (simp add: p live_def live_sessions_def split: if_splits)
  qed (use take(2) x in \<open>auto simp: live_sessions_def\<close>)
  then show "settles w (drop_receiver ch (w\<lparr>unread := remove1 p (unread w), sessions := sessions w @ [x]\<rparr>))"
    using settles_drop_receiver settles_trans by blast
  have "settles w (post (drop_session x) (w\<lparr>unread := remove1 p (unread w)\<rparr>))"
  proof (rule settles_post)
    fix l g
    show "detaching (drop_session x) l g + live (w\<lparr>unread := remove1 p (unread w)\<rparr>) l g = live w l g"
      using take(1) [of l g] by (simp add: p split: if_splits)
  qed (use take(2) in simp_all)
  then show "settles w (drop_receiver ch (post (drop_session x) (w\<lparr>unread := remove1 p (unread w)\<rparr>)))"
    using settles_drop_receiver settles_trans by blast
qed

lemma settles_take_other:
  assumes "filter (\<lambda>p. fst p = ch) (unread w) = p # ps" "snd p = ManagerEngine m"
  shows "settles w (take_reply ch w)"
proof -
  have "unread_sessions [p] = []" using assms(2) by (cases p) auto
  then have "settles w (w\<lparr>unread := remove1 p (unread w)\<rparr>)"
    by (intro settles_same) (use live_sessions_take_reply [OF assms(1)] in auto)
  with assms(1) show ?thesis
    using settles_drop_receiver settles_trans by (auto simp: take_reply_def)
qed

text \<open>Dropping a receiver commutes with handing out a session and with sending, up to the order of messages.\<close>

lemma drop_receiver_sessions: "drop_receiver ch (w\<lparr>sessions := xs\<rparr>) = (drop_receiver ch w)\<lparr>sessions := xs\<rparr>"
  by (simp add: drop_receiver_def post_def)

lemma settles_drop_receiver_post:
  "settles w (drop_receiver ch (post msgs w')) \<Longrightarrow> settles w (post msgs (drop_receiver ch w'))"
  by (simp add: settles_def drop_receiver_def post_def live_def live_sessions_def detaching_drop_replies
      ac_simps ball_Un split: if_splits)

lemma sessions_drop_receiver [simp]: "sessions (drop_receiver ch w) = sessions w"
  by (simp add: drop_receiver_def post_def)

lemma settles_attach_await: "settles w (snd (attach_await ch w))"
proof (cases "filter (\<lambda>p. fst p = ch) (unread w)")
  case Nil
  then show ?thesis
    using settles_drop_receiver [of w ch]
    by (auto simp: attach_await_def poll_receiver_def split: poll.splits sum.splits option.splits if_splits)
next
  case (Cons p ps)
  have t: "take_reply ch w = drop_receiver ch (w\<lparr>unread := remove1 p (unread w)\<rparr>)"
    by (simp add: take_reply_def Cons)
  show ?thesis
  proof (cases "snd p")
    case (ManagerAttached x)
    from settles_take_session [OF Cons this] ManagerAttached show ?thesis
      by (auto simp: attach_await_def poll_receiver_def Cons t Let_def drop_receiver_sessions
          intro: settles_drop_receiver_post)
  next
    case (ManagerEngine m)
    from settles_take_other [OF Cons this] ManagerEngine show ?thesis
      by (auto simp: attach_await_def poll_receiver_def Cons Let_def split: ConsumerReply.splits)
  qed
qed

lemma settles_release_await: "settles w (snd (release_await ch w))"
proof (cases "filter (\<lambda>p. fst p = ch) (unread w)")
  case Nil
  then show ?thesis
    using settles_drop_receiver [of w ch]
    by (auto simp: release_await_def poll_receiver_def split: poll.splits sum.splits option.splits if_splits)
next
  case (Cons p ps)
  have t: "take_reply ch w = drop_receiver ch (w\<lparr>unread := remove1 p (unread w)\<rparr>)"
    by (simp add: take_reply_def Cons)
  show ?thesis
  proof (cases "snd p")
    case (ManagerAttached x)
    from settles_take_session [OF Cons this] ManagerAttached show ?thesis
      by (auto simp: release_await_def poll_receiver_def Cons t intro: settles_drop_receiver_post)
  next
    case (ManagerEngine m)
    from settles_take_other [OF Cons this] ManagerEngine show ?thesis
      by (auto simp: release_await_def poll_receiver_def Cons split: ConsumerReply.splits)
  qed
qed

lemma set_remove_at: "set (remove_at i xs) \<subseteq> set xs"
  by (auto simp: remove_at_def dest: in_set_takeD in_set_dropD)

lemma filter_remove_at:
  assumes "i < length xs"
  shows "(if P (xs ! i) then 1 else 0) + length (filter P (remove_at i xs)) = length (filter P xs)"
proof -
  from assms have "filter P xs = filter P (take i xs @ xs ! i # drop (Suc i) xs)"
    by (metis id_take_nth_drop)
  then show ?thesis by (simp add: remove_at_def)
qed

lemma settles_end_session: "settles w (end_session i w)"
proof (cases "i < length (sessions w)")
  case True
  have "settles w (post (drop_session (sessions w ! i)) (w\<lparr>sessions := remove_at i (sessions w)\<rparr>))"
  proof (rule settles_post)
    fix l g
    show "detaching (drop_session (sessions w ! i)) l g + live (w\<lparr>sessions := remove_at i (sessions w)\<rparr>) l g = live w l g"
      using filter_remove_at [OF True, of "of_generation l g"] by (simp add: live_def live_sessions_def)
  qed (use set_remove_at [of i "sessions w"] in \<open>auto simp: live_sessions_def\<close>)
  with True show ?thesis by (simp add: end_session_def)
qed (simp add: end_session_def)

text \<open>Tasks send messages that are neither requests nor detachments.\<close>

definition task_message :: "ConsumerWorker EngineMessage \<Rightarrow> bool" where
  "task_message m \<longleftrightarrow> (case m of LeaseMaxTimeReached l g \<Rightarrow> True | DatabaseWorker d \<Rightarrow> True | Shutdown \<Rightarrow> True | _ \<Rightarrow> False)"

lemma settles_task:
  assumes "engine_handle w1 = engine_handle w" "engine_running w1 = engine_running w" "handled w1 = handled w"
    and "worker_inbox w1 = worker_inbox w" "live_sessions w1 = live_sessions w"
    and "set (timers w1) \<subseteq> set (timers w)" "\<forall>m \<in> set msgs. task_message m"
  shows "settles w (post msgs w1)"
proof (rule settles_post)
  have "detaching msgs l g = 0" for l g
    using assms(7) by (auto simp: detaching_def filter_empty_conv task_message_def)
  then show "detaching msgs l g + live w1 l g = live w l g" for l g
    using assms(5) by (simp add: live_def)
  show "\<forall>m \<in> set msgs. well_addressed m"
    using assms(7) by (auto simp: task_message_def well_addressed_def split: EngineMessage.splits)
qed (use assms in simp_all)

lemmas settles_quiet_task = settles_task [where msgs = "[]", simplified]

lemma settles_timer_fire:
  assumes "\<forall>t \<in> set (timers w). is_expiry t"
  shows "settles w (timer_fire i w)"
proof (cases "i < length (timers w) \<and> timer_due (timers w ! i) w")
  case True
  then have "is_expiry (timers w ! i)" using assms by simp
  then have "task_message (timer_msg (timers w ! i))" by (auto simp: is_expiry_def task_message_def)
  with True show ?thesis
    using set_remove_at [of i "timers w"] by (auto simp: timer_fire_def live_sessions_def intro!: settles_task)
qed (auto simp: timer_fire_def)

lemma settles_timer_stop: "settles w (timer_stop i w)"
  using set_remove_at [of i "timers w"]
  by (auto simp: timer_stop_def live_sessions_def intro!: settles_quiet_task)

lemma settles_creation_worker_turn: "settles w (creation_worker_turn create w)"
  by (auto simp: creation_worker_turn_def live_sessions_def Let_def intro!: settles_quiet_task split: list.splits)

lemma settles_jobs:
  assumes "\<forall>m \<in> set msgs. task_message m"
  shows "settles w (post msgs (w\<lparr>creation_jobs := js\<rparr>))" "settles w (post msgs (w\<lparr>cleanup_jobs := ks\<rparr>))"
    "settles w (post msgs w)" "settles w (w\<lparr>creation_jobs := js\<rparr>)" "settles w (w\<lparr>cleanup_jobs := ks\<rparr>)"
    "settles w (w\<lparr>shutdown_token := b\<rparr>)" "settles w (w\<lparr>clock := t\<rparr>)"
  by (intro settles_task settles_quiet_task; use assms in \<open>simp add: live_sessions_def\<close>)+

lemma settles_creation_job_turn: "creation_job_turn i w = Inr w' \<Longrightarrow> settles w w'"
  by (auto simp: creation_job_turn_def Let_def task_message_def bind_res_eq_Inr
      intro: settles_jobs(1) settles_jobs(4) [of "[]"] split: if_splits prod.splits)

lemma settles_cleanup_worker_turn: "settles w (cleanup_worker_turn w)"
  by (auto simp: cleanup_worker_turn_def live_sessions_def intro!: settles_quiet_task split: list.splits)

lemma settles_cleanup_job_turn: "settles w (cleanup_job_turn answer i w)"
  by (auto simp: cleanup_job_turn_def Let_def task_message_def intro: settles_jobs(2) settles_jobs(5) [of "[]"])

lemma settles_shutdown: "settles w (begin_shutdown w)" "settles w (finish_shutdown w)"
  by (auto simp: begin_shutdown_def finish_shutdown_def task_message_def
      intro: settles_jobs(3) settles_jobs(6) [of "[]"])

section \<open>A turn of the engine\<close>

text \<open>Carrying out a call puts the session of a successful reply into its channel, and nothing else.\<close>

definition carried :: "ConsumerWorker call list \<Rightarrow> WorkerEngineManager \<Rightarrow> WorkerEngineManager \<Rightarrow> bool" where
  "carried ks w w' \<longleftrightarrow>
     engine_handle w' = engine_handle w \<and> engine_running w' = engine_running w \<and> handled w' = handled w \<and>
     worker_inbox w' = worker_inbox w \<and>
     (\<forall>l g. live w' l g = live w l g + attached_to attachment ks l g) \<and>
     (\<forall>x \<in> set (live_sessions w'). x \<in> set (live_sessions w) \<or> session_logged ks x) \<and>
     (\<forall>t \<in> set (timers w'). t \<in> set (timers w) \<or> is_expiry t)"

lemma carried_Nil [simp]: "carried [] w w"
  by (simp add: carried_def)

lemma session_logged_mono: "session_logged ks x \<Longrightarrow> set ks \<subseteq> set ks' \<Longrightarrow> session_logged ks' x"
  by (auto simp: session_logged_def)

lemma carried_Cons:
  assumes "carried [k] w w1" "carried ks w1 w2"
  shows "carried (k # ks) w w2"
proof -
  have "attached_to attachment (k # ks) l g = attached_to attachment [k] l g + attached_to attachment ks l g" for l g
    using attached_to_simps(2) [of attachment "[k]" ks l g] by simp
  moreover have "session_logged [k] x \<Longrightarrow> session_logged (k # ks) x" "session_logged ks x \<Longrightarrow> session_logged (k # ks) x" for x
    by (auto intro: session_logged_mono)
  ultimately show ?thesis using assms unfolding carried_def by (metis add.assoc)
qed

lemma perform_Reply:
  "perform (Reply c msg ok) w =
     (if ok then w\<lparr>unread := unread w @ [(oneshot_channel c,
        case (attachment c, msg) of
          (Some l, Attached n g tk) \<Rightarrow> ManagerAttached (LeaseSession_new n l g tk)
        | _ \<Rightarrow> ManagerEngine msg)]\<rparr>
      else w)"
  by (auto simp: perform_def reply_def drop_session_def LeaseSession_new_def Let_def
      split: option.splits ConsumerReply.splits)

lemma carried_perform: "carried [k] w (perform k w)"
proof (cases k)
  case (Reply c msg ok)
  consider (attached) l n g tk where "ok" "attachment c = Some l" "msg = Attached n g tk"
    | (other) "\<not> ok \<or> (\<forall>l n g tk. \<not> (attachment c = Some l \<and> msg = Attached n g tk))"
    by blast
  then show ?thesis
  proof cases
    case attached
    then have "perform k w = w\<lparr>unread := unread w @ [(oneshot_channel c, ManagerAttached (LeaseSession_new n l g tk))]\<rparr>"
      by (simp add: Reply perform_Reply)
    with attached Reply show ?thesis
      by (auto simp: carried_def live_def live_sessions_def of_generation_def LeaseSession_new_def session_logged_def)
  next
    case other
    then have "\<not> attaches attachment l g k" for l g
      by (auto simp: Reply attaches_def split: ConsumerReply.splits)
    moreover have "perform k w = w \<or> (\<exists>m. perform k w = w\<lparr>unread := unread w @ [(oneshot_channel c, ManagerEngine m)]\<rparr>)"
      using other by (auto simp: Reply perform_Reply split: option.splits ConsumerReply.splits)
    ultimately show ?thesis by (auto simp: carried_def live_def live_sessions_def)
  qed
qed (auto simp: perform_def carried_def live_def live_sessions_def request_creation_def request_cleanup_def
    send_delayed_message_def is_expiry_def)

lemma carried_fold: "carried ks w (fold perform ks w)"
proof (induction ks arbitrary: w)
  case (Cons k ks)
  from carried_Cons [OF carried_perform Cons] show ?case by simp
qed simp

lemma engine_turn_cases:
  assumes "engine_turn w = Inr w'"
  obtains (idle) "w' = w"
  | (turn) msg rest go e log w1 where "engine_running w" "worker_inbox w = msg # rest"
      "handle_message (env_of w) msg (engine_handle w) = Inr (go, e)"
      "log = drop (length (calls (engine_handle w))) (calls e)"
      "carried log (w\<lparr>engine_handle := e, worker_inbox := rest, handled := handled w @ [msg]\<rparr>) w1"
      "w' = (if go then w1 else w1\<lparr>engine_running := False, worker_inbox := [],
              engine_handle := record_call CancelRoot e\<rparr>)"
      "w1 = fold perform log (w\<lparr>engine_handle := e, worker_inbox := rest, handled := handled w @ [msg]\<rparr>)"
proof (cases "engine_running w \<and> worker_inbox w \<noteq> []")
  case False
  with assms have "w' = w" by (auto simp: engine_turn_def split: if_splits list.splits)
  then show thesis by (rule idle)
next
  case True
  then obtain msg rest where q: "engine_running w" "worker_inbox w = msg # rest"
    by (cases "worker_inbox w") auto
  with assms obtain go e where h: "handle_message (env_of w) msg (engine_handle w) = Inr (go, e)"
    and w': "w' = (let w1 = fold perform (drop (length (calls (engine_handle w))) (calls e))
                      (w\<lparr>engine_handle := e, worker_inbox := rest, handled := handled w @ [msg]\<rparr>)
                  in if go then w1 else w1\<lparr>engine_running := False, worker_inbox := [],
                              engine_handle := record_call CancelRoot (engine_handle w1)\<rparr>)"
    by (auto simp: engine_turn_def Let_def elim!: bind_resE)
  let ?w0 = "w\<lparr>engine_handle := e, worker_inbox := rest, handled := handled w @ [msg]\<rparr>"
  let ?log = "drop (length (calls (engine_handle w))) (calls e)"
  have "engine_handle (fold perform ?log ?w0) = e"
    using carried_fold [of ?log ?w0] by (simp add: carried_def)
  with w' show thesis by (intro turn [OF q h refl carried_fold _ refl]) (simp add: Let_def)
qed

lemma manager_inv_turn:
  assumes "manager_inv w" "engine_turn w = Inr w'"
  shows "manager_inv w'"
  using assms(2)
proof (cases rule: engine_turn_cases)
  case idle
  with assms(1) show ?thesis by simp
next
  case (turn msg rest go e log w1)
  let ?e = "engine_handle w"
  obtain D where D: "accounted attachment D [] ?e" "balanced D w"
    using assms(1) turn(1) by (auto simp: manager_inv_def)
  have inv: "settled_inv ?e" "well_addressed msg" "\<forall>m \<in> set rest. well_addressed m"
    using assms(1) turn(2) by (auto simp: manager_inv_def)
  have inv': "settled_inv e"
    using outcome_InrD [OF settled_inv_handle_message [OF inv(1)] turn(3)] by simp
  have "accounted attachment D (calls ?e) ?e" using D(1) by (simp add: accounted_def)
  moreover define D' where "D' = (case msg of Detach l g \<Rightarrow> count_detach l g D | _ \<Rightarrow> D)"
  have "D l g < attached_to attachment (calls ?e) l g" if "msg = Detach l g" for l g
    using D(2) turn(2) that by (simp add: balanced_def)
  ultimately have "accounted attachment D' (calls ?e) e"
    unfolding D'_def using inv(2) by (intro accounted_handle_message [OF _ turn(3)]) (auto simp: well_addressed_def)
  then have acc: "accounted attachment D' [] e" and pre: "prefix (calls ?e) (calls e)"
    by (simp_all add: accounted_def)
  have log: "calls e = calls ?e @ log" using pre turn(4) by (auto simp: prefix_def)
  let ?w0 = "w\<lparr>engine_handle := e, worker_inbox := rest, handled := handled w @ [msg]\<rparr>"
  have same: "engine_handle w1 = e" "worker_inbox w1 = rest" "engine_running w1"
    "\<And>l g. live w1 l g = live w l g + attached_to attachment log l g"
    using turn(1,5) by (simp_all add: carried_def live_def live_sessions_def)
  have D': "D' l g + detaching rest l g = D l g + detaching (worker_inbox w) l g" for l g
    by (auto simp: D'_def count_detach_def turn(2) split: EngineMessage.splits)
  have "attached_to attachment (calls e) l g = D' l g + detaching rest l g + live w1 l g" for l g
    using D(2) D' [of l g] by (simp add: log same(4) balanced_def)
  then have bal: "balanced D' w1" by (simp add: balanced_def same)
  have "session_logged (calls e) x" if "x \<in> set (live_sessions w1)" for x
  proof -
    have "x \<in> set (live_sessions w) \<or> session_logged log x"
      using that turn(5) by (auto simp: carried_def live_sessions_def)
    moreover have "x \<in> set (live_sessions w) \<Longrightarrow> session_logged (calls ?e) x"
      using assms(1) by (simp add: manager_inv_def)
    ultimately show ?thesis by (auto simp: log intro: session_logged_mono)
  qed
  moreover have "\<forall>t \<in> set (timers w1). is_expiry t"
    using turn(5) assms(1) by (auto simp: carried_def manager_inv_def)
  ultimately have m1: "manager_inv w1"
    unfolding manager_inv_def using inv' acc bal inv(3) by (auto simp: same)
  show ?thesis
  proof (cases go)
    case True
    with m1 turn(6) show ?thesis by simp
  next
    case False
    have q: "quiet e (record_call CancelRoot e)" by (simp add: quiet_def fun_eq_iff)
    have "settled_inv (record_call CancelRoot e)"
      using inv' by (simp add: settled_inv_def engine_inv_def queue_settled_def)
    moreover have "set (calls e) \<subseteq> set (calls (record_call CancelRoot e))" by auto
    ultimately show ?thesis
      using m1 turn(6) False accounted_quiet [OF acc q]
      by (auto simp: manager_inv_def same live_sessions_def intro: session_logged_mono)
  qed
qed

lemma manager_inv_step: "manager_step w w' \<Longrightarrow> manager_inv w \<Longrightarrow> manager_inv w'"
proof (induction rule: manager_step.induct)
  case (fire w i)
  then have "\<forall>t \<in> set (timers w). is_expiry t" by (simp add: manager_inv_def)
  from manager_inv_settles [OF fire settles_timer_fire [OF this]] show ?case .
next
  case (tick w t)
  from manager_inv_settles [OF tick(2) settles_jobs(7) [of "[]"]] show ?case by simp
qed (auto intro: manager_inv_settles manager_inv_turn settles_attach_request settles_attach_await
    settles_release_request settles_release_await settles_drop_receiver settles_end_session
    settles_timer_stop settles_creation_worker_turn settles_creation_job_turn settles_cleanup_worker_turn
    settles_cleanup_job_turn settles_shutdown)

interpretation manager: step_invariant manager_step manager_inv
  by unfold_locales (rule manager_inv_step)

lemmas manager_inv_run = manager.inv_run

end
