(* ===== verification/Startup.thy ===== *)
theory Startup
  imports Worker_Manager
begin

text \<open>
  Start-up of a manager (crates/pgtest-core/src/worker_manager/startup.rs and
  \<open>WorkerEngineManager::start\<close>): the PostgreSQL client, the removal of databases of earlier runs, the
  initial databases, the channels and the workers.
\<close>

section \<open>Operations\<close>

datatype StartError =
    InvalidLeaseRecordLimit
  | StartPostgres PostgresClientError
  | InitialDatabaseCreation PostgresDDLClientError

text \<open>
  What PostgreSQL and the scheduler answer during the start-up: the checks, the connection for the
  clean-up with the list of databases and the answers to statements, the connections for creations,
  the order in which they complete, and the random draws for names.
\<close>

record 'e cluster =
  checks :: server
  cleanup_connection :: "'e + unit"
  database_list :: "string \<Rightarrow> 'e + ('e + string) list"
  creation_connection :: "nat \<Rightarrow> 'e + unit"
  answer_to :: "string \<Rightarrow> 'e + unit"
  completes :: "nat \<Rightarrow> nat list \<Rightarrow> nat"
  draws :: "nat \<Rightarrow> nat \<Rightarrow> nat"
  display :: "'e \<Rightarrow> string"

definition prepare_postgres ::
  "'e cluster \<Rightarrow> PostgresConfig \<Rightarrow> (StartError + PostgresManager) \<times> pool_event list \<times> string list" where
  "prepare_postgres cl cfg =
     (case start_manager (checks cl) (draws cl 0) cfg of
        (Inl e, events) \<Rightarrow> (Inl (StartPostgres e), events, [])
      | (Inr client, events) \<Rightarrow>
          (case drop_ddl_templates_like client (cleanup_connection cl) (database_list cl) (answer_to cl) of
             (Inl e, attempted) \<Rightarrow> (Inr client, events, attempted)
           | (Inr u, attempted) \<Rightarrow> (Inr client, events, attempted)))"

text \<open>
  The results of the initial batch, in the order in which they complete; \<open>create_databases\<close> is
  called once, with the number of initial slots.
\<close>

definition start_workers ::
  "'e cluster \<Rightarrow> PostgresManager \<Rightarrow> WorkerEngineConfig
     \<Rightarrow> (run_panic + panic) + (StartError + WorkerEngineManager)" where
  "start_workers cl client cfg =
     (case create_databases (completes cl) (display cl) client (draws cl) (creation_connection cl)
             (answer_to cl) (unat (initial_slots cfg)) of
        Inl p \<Rightarrow> Inl (Inl p)
      | Inr results \<Rightarrow>
          (case try_init (\<lambda>n. results) (WorkerEngine_new cfg) of
             Inl p \<Rightarrow> Inl (Inr p)
           | Inr (Inl e, worker_engine) \<Rightarrow> Inr (Inl (InitialDatabaseCreation e))
           | Inr (Inr u, worker_engine) \<Rightarrow>
               Inr (Inr \<lparr>worker_inbox = [], pg_client = client,
                         lease_claim_timeout = lease_claim_timeout_ms cfg, engine_handle = worker_engine,
                         engine_running = True, unread = [], receivers = fmempty, next_channel = 0,
                         sessions = [], creation_channel = [], creation_worker = True,
                         cleanup_channel = [], cleanup_worker = True, timers = [], creation_jobs = [],
                         cleanup_jobs = [], shutdown_token = False, clock = 0, handled = []\<rparr>)))"

definition WorkerEngineManager_start ::
  "'e cluster \<Rightarrow> PostgresConfig \<Rightarrow> WorkerEngineConfig
     \<Rightarrow> (run_panic + panic) + (StartError + WorkerEngineManager)" where
  "WorkerEngineManager_start cl postgres_config worker_engine_config =
     (if max_lease_records worker_engine_config = 0 then Inr (Inl InvalidLeaseRecordLimit)
      else case prepare_postgres cl postgres_config of
             (Inl e, events, attempted) \<Rightarrow> Inr (Inl e)
           | (Inr client, events, attempted) \<Rightarrow> start_workers cl client worker_engine_config)"

section \<open>What a started manager looks like\<close>

lemma start_manager_Inr:
  assumes "start_manager sv draw cfg = (Inr m, ev)"
  shows "0 < creation_concurrency m" "name (template_database_name m) = pgtest_pg_database cfg"
  using assms
  by (auto simp: start_manager_def bind_res_def PostgresDatabaseName_new_def unat_gt_0
      split: if_splits prod.splits sum.splits)

text \<open>The databases of the initial batch.\<close>

definition batch_names :: "(nat \<times> ('e + ReadString)) list \<Rightarrow> ReadString list" where
  "batch_names results = [n. (i, Inr n) \<leftarrow> results]"

lemma start_workers_cases:
  assumes "0 < creation_concurrency client"
  obtains (failed) e results where "start_workers cl client cfg = Inr (Inl (InitialDatabaseCreation e))"
      "create_databases (completes cl) (display cl) client (draws cl) (creation_connection cl) (answer_to cl)
         (unat (initial_slots cfg)) = Inr results"
      "\<exists>i. (i, Inl e) \<in> set results"
  | (started) w results where "start_workers cl client cfg = Inr (Inr w)"
      "create_databases (completes cl) (display cl) client (draws cl) (creation_connection cl) (answer_to cl)
         (unat (initial_slots cfg)) = Inr results"
      "reports_once (unat (initial_slots cfg)) results" "failures results = []"
      "fresh_manager (engine_handle w) w" "pg_client w = client"
      "lease_claim_timeout w = lease_claim_timeout_ms cfg" "receivers w = fmempty"
      "try_init (\<lambda>n. results) (WorkerEngine_new cfg) = Inr (Inr (), engine_handle w)"
proof -
  obtain results where r: "create_databases (completes cl) (display cl) client (draws cl) (creation_connection cl)
      (answer_to cl) (unat (initial_slots cfg)) = Inr results"
    "reports_once (unat (initial_slots cfg)) results"
    using create_databases_reports [OF assms] by metis
  let ?s = "WorkerEngine_new cfg :: ConsumerWorker WorkerEngine"
  have init: "\<exists>s. try_init (\<lambda>n. results) ?s = Inr (case failures results of [] \<Rightarrow> Inr () | e # _ \<Rightarrow> Inl e, s)"
    using try_init_outcome [where create = "\<lambda>n. results" and s = ?s, OF r(2) _ refl]
    by (auto simp: WorkerEngine_new_def)
  show thesis
  proof (cases "failures results")
    case Nil
    with init obtain s where i: "try_init (\<lambda>n. results) ?s = Inr (Inr (), s)" by auto
    then show thesis
      using r Nil by (intro started [of _ results]) (auto simp: start_workers_def fresh_manager_def)
  next
    case (Cons e es)
    with init obtain s where "try_init (\<lambda>n. results) ?s = Inr (Inl e, s)" by auto
    moreover have "e \<in> set (failures results)" by (simp add: Cons)
    then have "\<exists>i. (i, Inl e) \<in> set results" by (auto simp: failures_def)
    ultimately show thesis
      using r by (intro failed [of e results]) (auto simp: start_workers_def)
  qed
qed

lemma try_init_frame:
  assumes "try_init create (WorkerEngine_new cfg) = Inr (r, s :: 'c WorkerEngine)"
  obtains iv where "s = (WorkerEngine_new cfg)\<lparr>inventory := iv\<rparr>"
  using assms that [of "inventory (WorkerEngine_new cfg :: 'c WorkerEngine)"] that unfolding try_init_def
  by (auto elim!: bind_res_pairE split: option.splits)

lemma accounted_new:
  assumes "try_init create (WorkerEngine_new cfg) = Inr (r, s)"
  shows "accounted owner (\<lambda>l g. 0) [] s"
  using assms
  by (rule try_init_frame) (auto simp: accounted_def unique_claims_def lease_claims_def names_kept_def WorkerEngine_new_def EngineCounters_default_def)

lemma manager_inv_started:
  assumes "fresh_manager (engine_handle w) w" "reports_once (unat (initial_slots cfg)) results"
    and "try_init (\<lambda>n. results) (WorkerEngine_new cfg) = Inr (r, engine_handle w)"
  shows "manager_inv w"
proof -
  have acc: "accounted attachment (\<lambda>l g. 0) [] (engine_handle w)" by (rule accounted_new [OF assms(3)])
  have "calls (engine_handle w) = []"
    using assms(3) by (rule try_init_frame) (simp add: WorkerEngine_new_def)
  then have "balanced (\<lambda>l g. 0) w"
    using assms(1) by (simp add: balanced_def fresh_manager_def live_def live_sessions_def)
  with acc settled_inv_booted [OF assms(2,3)] assms(1) show ?thesis
    by (auto simp: manager_inv_def fresh_manager_def live_sessions_def)
qed

end
