(* ===== verification/Manager_Properties.thy ===== *)
theory Manager_Properties
  imports Startup
begin

text \<open>
  What a started manager promises: the start-up never panics, every counted connection has a session
  or a detachment on its way, sessions of different leases never work on the same database, and a
  successful attachment returns a database that its lease still holds.
\<close>

section \<open>Runs from the start\<close>

text \<open>A run of a manager that started with the initial databases \<open>names\<close>.\<close>

definition manager_run ::
  "'e cluster \<Rightarrow> PostgresConfig \<Rightarrow> WorkerEngineConfig \<Rightarrow> WorkerEngineManager \<Rightarrow> bool" where
  "manager_run cl pcfg cfg w \<longleftrightarrow>
     (\<exists>w0. WorkerEngineManager_start cl pcfg cfg = Inr (Inr w0) \<and> manager_step\<^sup>*\<^sup>* w0 w)"

definition start_results ::
  "'e cluster \<Rightarrow> PostgresManager \<Rightarrow> WorkerEngineConfig \<Rightarrow> (nat \<times> (PostgresDDLClientError + ReadString)) list" where
  "start_results cl client cfg =
     (case create_databases (completes cl) (display cl) client (draws cl) (creation_connection cl)
             (answer_to cl) (unat (initial_slots cfg)) of Inl p \<Rightarrow> [] | Inr results \<Rightarrow> results)"

lemma started_cases:
  assumes "WorkerEngineManager_start cl pcfg cfg = Inr (Inr w)"
  shows "0 < creation_concurrency (pg_client w)"
    "name (template_database_name (pg_client w)) = pgtest_pg_database pcfg"
    "fresh_manager (engine_handle w) w" "lease_claim_timeout w = lease_claim_timeout_ms cfg"
    "reports_once (unat (initial_slots cfg)) (start_results cl (pg_client w) cfg)"
    "failures (start_results cl (pg_client w) cfg) = []"
    "try_init (\<lambda>n. start_results cl (pg_client w) cfg) (WorkerEngine_new cfg) = Inr (Inr (), engine_handle w)"
proof -
  obtain client ev where p: "start_manager (checks cl) (draws cl 0) pcfg = (Inr client, ev)"
    and s: "start_workers cl client cfg = Inr (Inr w)"
    using assms
    by (auto simp: WorkerEngineManager_start_def prepare_postgres_def split: if_splits prod.splits sum.splits)
  note c = start_manager_Inr [OF p]
  have "pg_client w = client \<and> fresh_manager (engine_handle w) w \<and> lease_claim_timeout w = lease_claim_timeout_ms cfg \<and>
    reports_once (unat (initial_slots cfg)) (start_results cl client cfg) \<and> failures (start_results cl client cfg) = [] \<and>
    try_init (\<lambda>n. start_results cl client cfg) (WorkerEngine_new cfg) = Inr (Inr (), engine_handle w)"
    using s by (cases rule: start_workers_cases [OF c(1), of cl cfg]) (auto simp: start_results_def)
  with c show "0 < creation_concurrency (pg_client w)"
    "name (template_database_name (pg_client w)) = pgtest_pg_database pcfg"
    "fresh_manager (engine_handle w) w" "lease_claim_timeout w = lease_claim_timeout_ms cfg"
    "reports_once (unat (initial_slots cfg)) (start_results cl (pg_client w) cfg)"
    "failures (start_results cl (pg_client w) cfg) = []"
    "try_init (\<lambda>n. start_results cl (pg_client w) cfg) (WorkerEngine_new cfg) = Inr (Inr (), engine_handle w)"
    by simp_all
qed

lemma manager_inv_start: "WorkerEngineManager_start cl pcfg cfg = Inr (Inr w) \<Longrightarrow> manager_inv w"
  using manager_inv_started started_cases by metis

lemma manager_run_inv: "manager_run cl pcfg cfg w \<Longrightarrow> manager_inv w"
  using manager_inv_run manager_inv_start unfolding manager_run_def by metis

lemma length_created: "failures rs = [] \<Longrightarrow> length (created request rs) = length rs"
proof (induction rs)
  case (Cons p rs)
  then show ?case by (cases p; cases "snd p") auto
qed simp

lemma reports_once_length: "reports_once n rs \<Longrightarrow> length rs = n"
proof -
  assume "reports_once n rs"
  then have "distinct (map fst rs)" "set (map fst rs) = {..<n}" by (simp_all add: reports_once_def)
  then show ?thesis using distinct_card [of "map fst rs"] by simp
qed

lemma start_outcome:
  obtains (error) e where "WorkerEngineManager_start cl pcfg cfg = Inr (Inl e)"
  | (started) w where "WorkerEngineManager_start cl pcfg cfg = Inr (Inr w)"
proof (cases "max_lease_records cfg = 0")
  case True
  then show thesis by (intro error) (simp add: WorkerEngineManager_start_def)
next
  case False
  obtain r ev where p: "start_manager (checks cl) (draws cl 0) pcfg = (r, ev)"
    by (cases "start_manager (checks cl) (draws cl 0) pcfg")
  show thesis
  proof (cases r)
    case (Inl e)
    with p False show thesis by (intro error) (simp add: WorkerEngineManager_start_def prepare_postgres_def)
  next
    case (Inr client)
    with p False have "WorkerEngineManager_start cl pcfg cfg = start_workers cl client cfg"
      by (simp add: WorkerEngineManager_start_def prepare_postgres_def split: prod.splits sum.splits)
    moreover have "0 < creation_concurrency client" using start_manager_Inr p Inr by blast
    then show thesis
      by (cases rule: start_workers_cases [where cl = cl and cfg = cfg]) (use error started calculation in auto)
  qed
qed

lemma started_ready:
  assumes "WorkerEngineManager_start cl pcfg cfg = Inr (Inr w)"
  shows "length (ready (inventory (engine_handle w))) = unat (initial_slots cfg)"
    and "creating (inventory (engine_handle w)) = {||}"
proof -
  let ?rs = "start_results cl (pg_client w) cfg"
  note st = started_cases [OF assms]
  let ?s = "WorkerEngine_new cfg :: ConsumerWorker WorkerEngine"
  have "config ?s = cfg" by (simp add: WorkerEngine_new_def)
  with try_init_outcome [where create = "\<lambda>n. ?rs" and s = ?s, OF st(5) _ refl] st(6,7)
  have "\<exists>k req. engine_handle w = ?s\<lparr>inventory := (inventory ?s)\<lparr>next_database_id := k, ready := created req ?rs\<rparr>\<rparr>"
    by auto
  then show "length (ready (inventory (engine_handle w))) = unat (initial_slots cfg)"
    "creating (inventory (engine_handle w)) = {||}"
    using length_created [OF st(6)] reports_once_length [OF st(5)]
    by (auto simp: WorkerEngine_new_def DatabaseInventory_default_def)
qed

text \<open>
  C6: a start never panics, whatever PostgreSQL answers: it ends with an error value or with a
  manager whose engine runs with all the initial databases ready and nothing under way.
\<close>

theorem start_never_panics:
  "case WorkerEngineManager_start cl pcfg cfg of
     Inl p \<Rightarrow> False
   | Inr (Inl e) \<Rightarrow> True
   | Inr (Inr w) \<Rightarrow> fresh_manager (engine_handle w) w \<and> manager_inv w \<and>
       length (ready (inventory (engine_handle w))) = unat (initial_slots cfg)"
proof (cases rule: start_outcome [of cl pcfg cfg])
  case (error e)
  then show ?thesis by simp
next
  case (started w)
  note st = started_cases [OF started]
  from started started_ready [OF started] st manager_inv_started [OF st(3,5,7)] show ?thesis by simp
qed

section \<open>Connections\<close>

lemma unread_session_in: "(ch, ManagerAttached x) \<in> set rs \<Longrightarrow> x \<in> set (unread_sessions rs)"
proof (induction rs)
  case (Cons q rs)
  obtain ch' r where "q = (ch', r)" by (cases q)
  with Cons show ?case by (cases r) auto
qed simp

lemma session_logged_attached:
  assumes "session_logged log x"
  shows "attached_to attachment log (session_lease_id x) (session_generation x) \<noteq> 0"
    and "(session_database_name x, session_generation x) \<in> delivered log"
proof -
  obtain k where k: "Reply k (Attached (session_database_name x) (session_generation x) (session_cancellation x)) True
      \<in> set log" "attachment k = Some (session_lease_id x)"
    using assms by (auto simp: session_logged_def)
  have "attaches attachment (session_lease_id x) (session_generation x)
      (Reply k (Attached (session_database_name x) (session_generation x) (session_cancellation x)) True)"
    using k(2) by simp
  with k(1) show "attached_to attachment log (session_lease_id x) (session_generation x) \<noteq> 0"
    unfolding attached_to_def length_0_conv filter_empty_conv by blast
  show "(session_database_name x, session_generation x) \<in> delivered log"
    using k(1) by (auto simp: delivered_def)
qed

text \<open>
  C4: in every reachable state of a manager, the connections a lease counts are exactly the sessions
  of its generation that exist, in the hands of a connection or unread in a channel, and the
  detachments of that generation waiting in the inbox. In particular no detachment ever meets a
  count of zero, and a lease whose sessions are gone returns to zero once the inbox is drained.
\<close>

theorem sessions_accounted:
  assumes "manager_run cl pcfg cfg w" "engine_running w"
    and "fmlookup (leases (engine_handle w)) l = Some e"
  shows "unat (conns e) = live w l (generation e) + detaching (worker_inbox w) l (generation e) \<and>
         detach_on_zero (counters (engine_handle w)) = 0"
proof -
  obtain D where "accounted attachment D [] (engine_handle w)" "balanced D w"
    using manager_run_inv [OF assms(1)] assms(2) by (auto simp: manager_inv_def)
  moreover from this(1) assms(3) have "unat (conns e) + D l (generation e) =
      attached_to attachment (calls (engine_handle w)) l (generation e)"
    "detach_on_zero (counters (engine_handle w)) = 0"
    by (simp_all add: accounted_def)
  ultimately show ?thesis by (simp add: balanced_def)
qed

text \<open>
  A session the engine has handed out is the current one of its lease, on the lease's database, as
  long as its token is not cancelled, and sessions of one generation belong to one lease.
\<close>

lemma logged_session_current:
  assumes "manager_inv w" "session_logged (calls (engine_handle w)) x"
  shows "(\<exists>e. fmlookup (leases (engine_handle w)) (session_lease_id x) = Some e \<and> generation e = session_generation x \<and>
      db_name (database e) = session_database_name x \<and> cancellation e = session_cancellation x) \<or>
    is_cancelled (session_cancellation x) w"
proof -
  obtain D where acc: "accounted attachment D [] (engine_handle w)" using assms(1) by (auto simp: manager_inv_def)
  have "names_kept attachment (calls (engine_handle w)) (leases (engine_handle w))" using acc by (simp add: accounted_def)
  with assms(2) have "db_name (database e) = session_database_name x"
    if "fmlookup (leases (engine_handle w)) (session_lease_id x) = Some e" "generation e = session_generation x" for e
    using that unfolding session_logged_def names_kept_def by metis
  moreover have "session_cancellation x = ChildToken (session_generation x)"
    using assms(2) acc by (auto simp: session_logged_def accounted_def list_all_iff)
  moreover have "cancellation e = ChildToken (generation e)"
    if "fmlookup (leases (engine_handle w)) (session_lease_id x) = Some e" for e
    using acc that by (simp add: accounted_def)
  ultimately show ?thesis
    using accounted_held [OF acc session_logged_attached(1) [OF assms(2)]] by (auto simp: is_cancelled_def)
qed

lemma logged_session_lease:
  assumes "manager_inv w" "session_logged (calls (engine_handle w)) x" "session_logged (calls (engine_handle w)) y"
    and "session_generation x = session_generation y"
  shows "session_lease_id x = session_lease_id y"
proof -
  have "unique_claims attachment (calls (engine_handle w)) (leases (engine_handle w))"
    using assms(1) by (auto simp: manager_inv_def accounted_def)
  with session_logged_attached(1) [OF assms(2)] session_logged_attached(1) [OF assms(3)] assms(4) show ?thesis
    unfolding unique_claims_def lease_claims_def by metis
qed

text \<open>
  C5: a session that a successful attachment returns names the database that its lease holds at that
  moment and carries its generation and its cancellation token; it is counted as a session from then
  on. An attachment that was served before the lease was retired, released or restored is reported as
  closed instead.
\<close>

theorem attached_session_current:
  assumes "manager_run cl pcfg cfg w" "engine_running w" "attach_await ch w = (Ready (Inr x), w')"
  shows "\<exists>e. fmlookup (leases (engine_handle w)) (session_lease_id x) = Some e \<and>
             generation e = session_generation x \<and> db_name (database e) = session_database_name x \<and>
             cancellation e = session_cancellation x \<and> x \<in> set (sessions w')"
proof -
  obtain p ps where p: "filter (\<lambda>p. fst p = ch) (unread w) = p # ps" "snd p = ManagerAttached x"
    and c: "\<not> is_cancelled (session_cancellation x) (take_reply ch w)" and w': "x \<in> set (sessions w')"
    using assms(3)
    by (auto simp: attach_await_def poll_receiver_def Let_def
        split: list.splits poll.splits sum.splits option.splits if_splits ManagerReply.splits ConsumerReply.splits)
  have "p \<in> set (unread w)" using p(1) by (metis filter_is_subset list.set_intros(1) subsetD)
  then have "(fst p, ManagerAttached x) \<in> set (unread w)" using p(2) by (metis prod.collapse)
  then have "x \<in> set (live_sessions w)" by (simp add: live_sessions_def unread_session_in)
  then have "session_logged (calls (engine_handle w)) x"
    using manager_run_inv [OF assms(1)] by (simp add: manager_inv_def)
  moreover have "engine_handle (take_reply ch w) = engine_handle w"
    by (simp add: take_reply_def p(1) drop_receiver_def post_def)
  ultimately show ?thesis
    using logged_session_current [OF manager_run_inv [OF assms(1)]] c w' by (auto simp: is_cancelled_def)
qed

section \<open>Databases\<close>

text \<open>While no database name is created twice, the engine of a running manager is a pool.\<close>

definition names_so_far :: "ReadString list \<Rightarrow> WorkerEngineManager \<Rightarrow> ReadString list" where
  "names_so_far initial w = initial @ concat (map created_names (handled w))"

definition pooled :: "ReadString list \<Rightarrow> WorkerEngineManager \<Rightarrow> bool" where
  "pooled initial w \<longleftrightarrow> (distinct (names_so_far initial w) \<longrightarrow>
     (\<exists>p. pool_of (engine_handle w) p \<and> seen p \<subseteq> set (names_so_far initial w)))"

lemma pooled_settles: "settles w w' \<Longrightarrow> pooled initial w \<Longrightarrow> pooled initial w'"
  by (simp add: pooled_def names_so_far_def settles_def)

lemma pooled_turn:
  assumes "manager_inv w" "pooled initial w" "engine_turn w = Inr w'"
  shows "pooled initial w'"
  using assms(3)
proof (cases rule: engine_turn_cases)
  case idle
  with assms(2) show ?thesis by simp
next
  case (turn msg rest go e log w1)
  have w': "engine_handle w' = (if go then e else record_call CancelRoot e)" "handled w' = handled w @ [msg]"
    using turn(5,6) by (auto simp: carried_def)
  show ?thesis
    unfolding pooled_def
  proof
    assume d: "distinct (names_so_far initial w')"
    have n: "names_so_far initial w' = names_so_far initial w @ created_names msg"
      by (simp add: names_so_far_def w'(2))
    with d assms(2) obtain p where p: "pool_of (engine_handle w) p" "seen p \<subseteq> set (names_so_far initial w)"
      by (auto simp: pooled_def)
    have "has_pool (engine_handle w)" using p(1) by (auto simp: has_pool_def)
    then have sim: "simulates (set (created_names msg)) (engine_handle w) e"
      using assms(1) turn(3) by (auto simp: manager_inv_def intro: simulates_handle_message)
    have "set (created_names msg) \<inter> seen p = {}" using d n p(2) by auto
    then obtain p' where "pool_of e p'" "seen p' \<subseteq> seen p \<union> set (created_names msg)"
      by (rule simulatesE [OF sim p(1)])
    moreover have "pool_of (record_call CancelRoot e) p' = pool_of e p'" by (simp add: pool_of_def)
    ultimately show "\<exists>p. pool_of (engine_handle w') p \<and> seen p \<subseteq> set (names_so_far initial w')"
      using p(2) by (intro exI [of _ p']) (auto simp: w'(1) n)
  qed
qed

lemma pooled_step:
  assumes "manager_step w w'" "manager_inv w" "pooled initial w"
  shows "pooled initial w'"
  using assms
proof (induction rule: manager_step.induct)
  case (fire w i)
  then have "\<forall>t \<in> set (timers w). is_expiry t" by (simp add: manager_inv_def)
  from pooled_settles [OF settles_timer_fire [OF this]] fire show ?case by simp
next
  case (turn w w')
  then show ?case using pooled_turn by blast
next
  case (tick w t)
  from pooled_settles [OF settles_jobs(7) [of "[]"]] tick show ?case by simp
qed (auto intro: pooled_settles settles_attach_request settles_attach_await
    settles_release_request settles_release_await settles_drop_receiver settles_end_session
    settles_timer_stop settles_creation_worker_turn settles_creation_job_turn settles_cleanup_worker_turn
    settles_cleanup_job_turn settles_shutdown)

interpretation pooling: relative_invariant manager_step manager_inv "pooled initial" for initial
  by unfold_locales (rule pooled_step)

lemma pooled_started:
  assumes "WorkerEngineManager_start cl pcfg cfg = Inr (Inr w)"
  shows "pooled (batch_names (start_results cl (pg_client w) cfg)) w"
  unfolding pooled_def
proof
  let ?rs = "start_results cl (pg_client w) cfg"
  note st = started_cases [OF assms]
  assume "distinct (names_so_far (batch_names ?rs) w)"
  then have d: "distinct [n. (i, Inr n) \<leftarrow> ?rs]"
    using st(3) by (simp add: names_so_far_def batch_names_def fresh_manager_def)
  have "pool_of (engine_handle w) (initial_pool (set [n. (i, Inr n) \<leftarrow> ?rs]))"
    using pool_of_try_init [where create = "\<lambda>n. ?rs", OF st(5) refl st(7)] d by simp
  then show "\<exists>p. pool_of (engine_handle w) p \<and> seen p \<subseteq> set (names_so_far (batch_names ?rs) w)"
    by (intro exI) (auto simp: names_so_far_def batch_names_def)
qed

text \<open>Two sessions the engine has handed out share a database exactly when they share a generation.\<close>

lemma logged_sessions_isolated:
  assumes "manager_inv w" "pooled initial w" "distinct (names_so_far initial w)"
    and "session_logged (calls (engine_handle w)) x" "session_logged (calls (engine_handle w)) y"
  shows "session_database_name x = session_database_name y \<longleftrightarrow>
           session_lease_id x = session_lease_id y \<and> session_generation x = session_generation y"
proof -
  obtain p where p: "pool_of (engine_handle w) p" using assms(2,3) by (auto simp: pooled_def)
  have "(session_database_name x, session_generation x) \<in> handed p"
    "(session_database_name y, session_generation y) \<in> handed p"
    using p session_logged_attached(2) [OF assms(4)] session_logged_attached(2) [OF assms(5)]
    by (simp_all add: pool_of_def)
  moreover have "pool_inv p" using p by (simp add: pool_of_def)
  ultimately have "session_database_name x = session_database_name y \<longleftrightarrow> session_generation x = session_generation y"
    using pool_inv_isolated pool_inv_one_name by metis
  with logged_session_lease [OF assms(1,4,5)] show ?thesis by blast
qed

text \<open>
  C2: over any interleaving of clients, engine, timers and workers in which no database name is
  created twice, two sessions that exist work on the same database exactly when they belong to the
  same generation of the same lease. Tests of different leases never see each other's data.
\<close>

theorem sessions_isolated:
  assumes "WorkerEngineManager_start cl pcfg cfg = Inr (Inr w0)" "manager_step\<^sup>*\<^sup>* w0 w"
    and "distinct (names_so_far (batch_names (start_results cl (pg_client w0) cfg)) w)"
    and "x \<in> set (live_sessions w)" "y \<in> set (live_sessions w)"
  shows "session_database_name x = session_database_name y \<longleftrightarrow>
           session_lease_id x = session_lease_id y \<and> session_generation x = session_generation y"
proof -
  have inv0: "manager_inv w0" by (rule manager_inv_start [OF assms(1)])
  have inv: "manager_inv w" by (rule manager_inv_run [OF assms(2) inv0])
  have "session_logged (calls (engine_handle w)) x" "session_logged (calls (engine_handle w)) y"
    using inv assms(4,5) by (auto simp: manager_inv_def)
  from logged_sessions_isolated [OF inv pooling.extra_run [OF assms(2) inv0 pooled_started [OF assms(1)]] assms(3) this]
  show ?thesis .
qed

section \<open>A concrete run\<close>

text \<open>Two slots, two leases, one connection each.\<close>

definition calm_cluster :: "string cluster" where
  "calm_cluster = \<lparr>checks = server16 [''app''] (\<lambda>pat s. True), cleanup_connection = Inr (),
     database_list = (\<lambda>pat. Inr []), creation_connection = (\<lambda>i. Inr ()), answer_to = (\<lambda>q. Inr ()),
     completes = (\<lambda>k xs. 0), draws = (\<lambda>i j. i), display = (\<lambda>e. e)\<rparr>"

definition app_config :: PostgresConfig where
  "app_config = \<lparr>pgtest_pg_host = ''localhost'', pgtest_pg_port = 5432, pgtest_pg_user = ''postgres'',
     pgtest_pg_database = ''app'', pgtest_pg_creation_pool_connection = 1,
     pgtest_pg_cleanup_pool_connection = 1\<rparr>"

definition two_slots :: WorkerEngineConfig where
  "two_slots = \<lparr>initial_slots = 2, starvation_threshold = 0, grow_batch_size = 0,
     lease_claim_timeout_ms = 0, max_lease_records = 10\<rparr>"

definition app_client :: PostgresManager where
  "app_client = \<lparr>version = 16, host = ''localhost'', port = 5432,
     template_database_name = PostgresDatabaseName_new (\<lambda>j. 0) ''app'', creation_concurrency = 1\<rparr>"

definition app_name :: "nat \<Rightarrow> ReadString" where
  "app_name i = generate_database_name (\<lambda>j. i) (PostgresDatabaseName_new (\<lambda>j. 0) ''app'')"

lemma app_names_differ: "app_name 0 \<noteq> app_name (Suc 0)"
  by code_simp

definition booted_engine :: "ConsumerWorker WorkerEngine" where
  "booted_engine = (WorkerEngine_new two_slots)\<lparr>inventory :=
     \<lparr>next_database_id = 2, creating = {||},
      ready = [\<lparr>db_id = DatabaseId 1, db_name = app_name 0\<rparr>, \<lparr>db_id = DatabaseId 2, db_name = app_name 1\<rparr>],
      retiring = fmempty\<rparr>\<rparr>"

definition booted_manager :: WorkerEngineManager where
  "booted_manager = \<lparr>worker_inbox = [], pg_client = app_client, lease_claim_timeout = 0,
     engine_handle = booted_engine, engine_running = True, unread = [], receivers = fmempty,
     next_channel = 0, sessions = [], creation_channel = [], creation_worker = True,
     cleanup_channel = [], cleanup_worker = True, timers = [], creation_jobs = [], cleanup_jobs = [],
     shutdown_token = False, clock = 0, handled = []\<rparr>"

lemma start_app: "fst (start_manager (server16 [''app''] (\<lambda>pat s. True)) (\<lambda>j. 0) app_config) = Inr app_client"
  by (simp add: start_manager_def connect_pool_def database_exists_def is_valid_version_def server16_def
      app_config_def app_client_def MIN_SERVER_VERSION_NUM_def signed_divide_int_def)

lemma app_results:
  "create_databases (\<lambda>k xs. 0) (\<lambda>e. e) app_client (\<lambda>i j. i) (\<lambda>i. Inr ()) (\<lambda>q. Inr ()) 2 =
     Inr [(0, Inr (app_name 0)), (1, Inr (app_name 1))]"
  by (simp add: create_databases_def create_ddl_databases_def run_bounded_def create_ddl_database_def
      create_on_connection_def app_name_def window_run.simps remove_at_def app_client_def upt_rec)

lemma app_started: "WorkerEngineManager_start calm_cluster app_config two_slots = Inr (Inr booted_manager)"
proof -
  obtain ev where "start_manager (server16 [''app''] (\<lambda>pat s. True)) (\<lambda>j. 0) app_config = (Inr app_client, ev)"
    using start_app by (metis prod.collapse)
  then show ?thesis
    using app_results
    by (simp add: WorkerEngineManager_start_def prepare_postgres_def start_workers_def calm_cluster_def
        two_slots_def booted_manager_def booted_engine_def engine_eval
        split: prod.splits sum.splits)
qed

definition client_of :: "nat \<Rightarrow> string \<Rightarrow> ConsumerWorker" where
  "client_of ch l = \<lparr>oneshot_channel = ch, attachment = Some (LeaseId l)\<rparr>"

definition session_of :: "nat \<Rightarrow> string \<Rightarrow> u64 \<Rightarrow> LeaseSession" where
  "session_of i l g = LeaseSession_new (app_name i) (LeaseId l) g (ChildToken g)"

definition lease_of :: "nat \<Rightarrow> u64 \<Rightarrow> LeaseEntry" where
  "lease_of i g = \<lparr>database = \<lparr>db_id = DatabaseId g, db_name = app_name i\<rparr>, conns = 1, generation = g,
     cancellation = ChildToken g\<rparr>"

definition engine_a :: "ConsumerWorker WorkerEngine" where
  "engine_a = booted_engine
     \<lparr>leases := fmupd (LeaseId ''a'') (lease_of 0 1) fmempty,
      lease_records := fmupd (LeaseId ''a'') Open fmempty, next_generation := 1,
      inventory := \<lparr>next_database_id = 2, creating = {||},
        ready = [\<lparr>db_id = DatabaseId 2, db_name = app_name 1\<rparr>], retiring = fmempty\<rparr>,
      calls := [Reply (client_of 0 ''a'') (Attached (app_name 0) 1 (ChildToken 1)) True]\<rparr>"

definition engine_ab :: "ConsumerWorker WorkerEngine" where
  "engine_ab = engine_a
     \<lparr>leases := fmupd (LeaseId ''b'') (lease_of 1 2) (fmupd (LeaseId ''a'') (lease_of 0 1) fmempty),
      lease_records := fmupd (LeaseId ''b'') Open (fmupd (LeaseId ''a'') Open fmempty), next_generation := 2,
      inventory := \<lparr>next_database_id = 2, creating = {||}, ready = [], retiring = fmempty\<rparr>,
      calls := [Reply (client_of 0 ''a'') (Attached (app_name 0) 1 (ChildToken 1)) True,
                Reply (client_of 1 ''b'') (Attached (app_name 1) 2 (ChildToken 2)) True]\<rparr>"

definition manager_a :: WorkerEngineManager where
  "manager_a = booted_manager\<lparr>engine_handle := engine_a, next_channel := 1,
     receivers := fmupd 0 0 fmempty, unread := [(0, ManagerAttached (session_of 0 ''a'' 1))],
     handled := [AttachOrJoin (LeaseId ''a'') (client_of 0 ''a'') 0]\<rparr>"

definition manager_ab :: WorkerEngineManager where
  "manager_ab = booted_manager\<lparr>engine_handle := engine_ab, next_channel := 2,
     receivers := fmupd 1 0 (fmupd 0 0 fmempty),
     unread := [(0, ManagerAttached (session_of 0 ''a'' 1)), (1, ManagerAttached (session_of 1 ''b'' 2))],
     handled := [AttachOrJoin (LeaseId ''a'') (client_of 0 ''a'') 0, AttachOrJoin (LeaseId ''b'') (client_of 1 ''b'') 0]\<rparr>"

lemmas manager_eval = attach_request_def send_message_def post_def engine_turn_def env_of_def
  request_creation_def request_cleanup_def perform_Reply LeaseSession_new_def client_of_def session_of_def lease_of_def
  PostgresDatabaseName_new_def app_client_def booted_manager_def booted_engine_def two_slots_def

lemma run_a: "manager_step\<^sup>*\<^sup>* booted_manager manager_a"
proof -
  have "engine_turn (snd (attach_request ''app'' (LeaseId ''a'') booted_manager)) = Inr manager_a"
    by (simp add: manager_eval engine_eval manager_a_def engine_a_def)
  then show ?thesis by (meson attach turn rtranclp.rtrancl_into_rtrancl rtranclp.rtrancl_refl)
qed

lemma run_ab: "manager_step\<^sup>*\<^sup>* booted_manager manager_ab"
proof -
  have "engine_turn (snd (attach_request ''app'' (LeaseId ''b'') manager_a)) = Inr manager_ab"
    by (simp add: manager_eval engine_eval manager_a_def engine_a_def manager_ab_def engine_ab_def)
  then show ?thesis using run_a by (meson attach turn rtranclp.rtrancl_into_rtrancl)
qed

lemma manager_run_ab: "manager_run calm_cluster app_config two_slots manager_ab"
  using app_started run_ab by (auto simp: manager_run_def)

theorem sessions_accounted_witness:
  "live manager_ab (LeaseId ''b'') 2 + detaching (worker_inbox manager_ab) (LeaseId ''b'') 2 = 1"
  using sessions_accounted [OF manager_run_ab, of "LeaseId ''b''" "lease_of 1 2"]
  by (simp add: manager_ab_def booted_manager_def engine_ab_def lease_of_def)

theorem attached_session_current_witness:
  "\<exists>e. fmlookup (leases engine_ab) (LeaseId ''b'') = Some e \<and> generation e = 2 \<and> db_name (database e) = app_name 1"
proof -
  have e: "engine_handle manager_ab = engine_ab" "engine_running manager_ab"
    by (simp_all add: manager_ab_def booted_manager_def)
  have "fst (attach_await 1 manager_ab) = Ready (Inr (session_of 1 ''b'' 2))"
    by (simp add: attach_await_def poll_receiver_def manager_ab_def booted_manager_def is_cancelled_def take_reply_def
        drop_receiver_def post_def engine_ab_def session_of_def LeaseSession_new_def Let_def)
  then obtain w' where "attach_await 1 manager_ab = (Ready (Inr (session_of 1 ''b'' 2)), w')"
    by (metis prod.collapse)
  from attached_session_current [OF manager_run_ab e(2) this] show ?thesis
    by (auto simp: e session_of_def LeaseSession_new_def)
qed

theorem sessions_isolated_witness: "app_name 0 \<noteq> app_name 1"
proof -
  have names: "distinct (names_so_far (batch_names (start_results calm_cluster (pg_client booted_manager) two_slots)) manager_ab)"
    using app_results app_names_differ
    by (simp add: names_so_far_def batch_names_def start_results_def calm_cluster_def two_slots_def booted_manager_def
        manager_ab_def created_names_def)
  have "session_of 0 ''a'' 1 \<in> set (live_sessions manager_ab)" "session_of 1 ''b'' 2 \<in> set (live_sessions manager_ab)"
    by (simp_all add: live_sessions_def manager_ab_def booted_manager_def)
  from sessions_isolated [OF app_started run_ab names this] show ?thesis
    by (simp add: session_of_def LeaseSession_new_def)
qed

section \<open>Tasks\<close>

fun job_turns :: "nat \<Rightarrow> nat \<Rightarrow> WorkerEngineManager \<Rightarrow> panic + WorkerEngineManager" where
  "job_turns 0 i w = Inr w"
| "job_turns (Suc n) i w = bind_res (creation_job_turn i w) (job_turns n i)"

definition creation_report :: "CreateDatabases \<Rightarrow> nat \<times> (PostgresDDLClientError + ReadString) \<Rightarrow> ConsumerWorker EngineMessage" where
  "creation_report request = (\<lambda>(index, result). DatabaseWorker (CreationFinished (batch_id request index) result))"

lemma creation_job_report:
  assumes "\<not> shutdown_token w" "i < length (creation_jobs w)"
    and "creation_jobs w ! i = \<lparr>job_request = request, job_results = (index, result) # rs\<rparr>"
    and "batch_fits request" "index < amount request"
  shows "creation_job_turn i w = Inr (post [creation_report request (index, result)]
           (w\<lparr>creation_jobs := (creation_jobs w)[i := \<lparr>job_request = request, job_results = rs\<rparr>]\<rparr>))"
  using assms database_id_Inr [OF assms(4,5)] by (simp add: creation_job_turn_def creation_report_def)

text \<open>
  A creation task of a request whose identities fit in 64 bits runs without a panic and sends
  the engine one result for every index that the PostgreSQL client reports, under the identity that
  the inventory has reserved for it, in the order of the reports.
\<close>

lemma creation_task_reports:
  assumes "engine_running w" "\<not> shutdown_token w" "i < length (creation_jobs w)"
    and "creation_jobs w ! i = \<lparr>job_request = request, job_results = rs\<rparr>"
    and "batch_fits request" "\<forall>r \<in> set rs. fst r < amount request"
  shows "job_turns (length rs) i w =
           Inr (w\<lparr>worker_inbox := worker_inbox w @ map (creation_report request) rs,
                  creation_jobs := (creation_jobs w)[i := \<lparr>job_request = request, job_results = []\<rparr>]\<rparr>)"
  using assms
proof (induction rs arbitrary: w)
  case Nil
  then have "(creation_jobs w)[i := \<lparr>job_request = request, job_results = []\<rparr>] = creation_jobs w"
    by (metis list_update_id)
  then show ?case by simp
next
  case (Cons r rs)
  obtain index result where r: "r = (index, result)" by (cases r)
  let ?w = "post [creation_report request r]
      (w\<lparr>creation_jobs := (creation_jobs w)[i := \<lparr>job_request = request, job_results = rs\<rparr>]\<rparr>)"
  have "creation_job_turn i w = Inr ?w"
    using creation_job_report [OF Cons.prems(2,3) _ Cons.prems(5)] Cons.prems(4,6) by (simp add: r)
  moreover have "job_turns (length rs) i ?w = Inr (?w\<lparr>worker_inbox := worker_inbox ?w @ map (creation_report request) rs,
      creation_jobs := (creation_jobs ?w)[i := \<lparr>job_request = request, job_results = []\<rparr>]\<rparr>)"
    by (rule Cons.IH) (use Cons.prems in \<open>simp_all add: post_def\<close>)
  ultimately show ?case using Cons.prems(1) by (simp add: post_def)
qed

lemma creation_task_reports_witness:
  "job_turns 1 0 (booted_manager\<lparr>creation_jobs := [\<lparr>job_request = \<lparr>first_database_id = DatabaseId 3, amount = 1\<rparr>,
       job_results = [(0, Inr ''d'')]\<rparr>]\<rparr>) =
     Inr (booted_manager\<lparr>worker_inbox := [DatabaseWorker (CreationFinished (DatabaseId 3) (Inr ''d''))],
       creation_jobs := [\<lparr>job_request = \<lparr>first_database_id = DatabaseId 3, amount = 1\<rparr>, job_results = []\<rparr>]\<rparr>)"
  using creation_task_reports [of "booted_manager\<lparr>creation_jobs :=
      [\<lparr>job_request = \<lparr>first_database_id = DatabaseId 3, amount = 1\<rparr>, job_results = [(0, Inr ''d'')]\<rparr>]\<rparr>" 0
      "\<lparr>first_database_id = DatabaseId 3, amount = 1\<rparr>" "[(0, Inr ''d'')]"]
  by (simp add: booted_manager_def batch_fits_def creation_report_def batch_id_def)

text \<open>The steps that bring the tracked tasks to their end once the token is cancelled.\<close>

definition tasks :: "WorkerEngineManager \<Rightarrow> nat" where
  "tasks w = length (timers w) + length (creation_jobs w) + length (cleanup_jobs w) +
     (if creation_worker w then 1 else 0) + (if cleanup_worker w then 1 else 0)"

definition calm_step :: "WorkerEngineManager \<Rightarrow> WorkerEngineManager \<Rightarrow> bool" where
  "calm_step w w' \<longleftrightarrow> manager_step w w' \<and> tasks w' < tasks w \<and> shutdown_token w' \<and>
     worker_inbox w' = worker_inbox w \<and> engine_handle w' = engine_handle w \<and> engine_running w' = engine_running w"

lemma length_remove_first: "xs \<noteq> [] \<Longrightarrow> length (remove_at 0 xs) < length xs"
  by (cases xs) (simp_all add: remove_at_def)

lemma task_ends:
  assumes "shutdown_token w" "\<not> tracker_empty w"
  obtains w' where "calm_step w w'"
proof -
  consider "creation_worker w" | "cleanup_worker w" | "timers w \<noteq> []" | "creation_jobs w \<noteq> []" | "cleanup_jobs w \<noteq> []"
    using assms(2) by (auto simp: tracker_empty_def)
  then show thesis
  proof cases
    case 1
    have "reports_once n (map (\<lambda>i. (i, r)) [0..<n])" for n and r :: "PostgresDDLClientError + ReadString"
      by (simp add: reports_once_def comp_def image_image atLeast0LessThan)
    then have "manager_step w (creation_worker_turn (\<lambda>q. map (\<lambda>i. (i, Inr [])) [0..<amount q]) w)"
      by (intro manager_step.create) simp
    with 1 assms(1) show thesis
      by (intro that [of "w\<lparr>creation_worker := False, creation_channel := []\<rparr>"])
        (simp add: calm_step_def creation_worker_turn_def tasks_def)
  next
    case 2
    with assms(1) manager_step.cleanup [of w] show thesis
      by (intro that [of "cleanup_worker_turn w"]) (simp add: calm_step_def cleanup_worker_turn_def tasks_def)
  next
    case 3
    with assms(1) manager_step.stop [of w 0] length_remove_first [OF 3] show thesis
      by (intro that [of "timer_stop 0 w"]) (simp add: calm_step_def timer_stop_def timer_cancelled_def tasks_def)
  next
    case 4
    then have "creation_job_turn 0 w = Inr (w\<lparr>creation_jobs := remove_at 0 (creation_jobs w)\<rparr>)"
      using assms(1) by (simp add: creation_job_turn_def Let_def)
    from manager_step.created [OF this] assms(1) length_remove_first [OF 4] show thesis
      by (intro that [of "w\<lparr>creation_jobs := remove_at 0 (creation_jobs w)\<rparr>"]) (simp add: calm_step_def tasks_def)
  next
    case 5
    with assms(1) manager_step.cleaned [of w "\<lambda>n. Inr ()" 0] length_remove_first [OF 5] show thesis
      by (intro that [of "cleanup_job_turn (\<lambda>n. Inr ()) 0 w"]) (simp add: calm_step_def cleanup_job_turn_def tasks_def Let_def)
  qed
qed

text \<open>
  C7: once the shutdown token is cancelled, every tracked task can end without sending anything
  more to the engine: from every state there are steps to one where the tracker is empty, the
  inbox and the engine are untouched, and the shutdown message goes out. Neither a timer nor a
  statement that never returns can hold up the shutdown.
\<close>

theorem shutdown_completes:
  assumes "shutdown_token w" "engine_running w"
  shows "\<exists>w'. manager_step\<^sup>*\<^sup>* w w' \<and> tracker_empty w' \<and> engine_handle w' = engine_handle w \<and>
           worker_inbox w' = worker_inbox w \<and>
           worker_inbox (finish_shutdown w') = worker_inbox w @ [Shutdown]"
  using assms
proof (induction "tasks w" arbitrary: w rule: less_induct)
  case less
  show ?case
  proof (cases "tracker_empty w")
    case True
    with less.prems show ?thesis by (intro exI [of _ w]) (simp add: finish_shutdown_def post_def)
  next
    case False
    then obtain w1 where w1: "calm_step w w1" using task_ends less.prems(1) by blast
    then have "\<exists>w'. manager_step\<^sup>*\<^sup>* w1 w' \<and> tracker_empty w' \<and> engine_handle w' = engine_handle w1 \<and>
        worker_inbox w' = worker_inbox w1 \<and> worker_inbox (finish_shutdown w') = worker_inbox w1 @ [Shutdown]"
      using less.prems(2) by (intro less.hyps) (auto simp: calm_step_def)
    with w1 show ?thesis unfolding calm_step_def by (metis converse_rtranclp_into_rtranclp)
  qed
qed

theorem shutdown_completes_witness:
  "\<exists>w'. manager_step\<^sup>*\<^sup>* (booted_manager\<lparr>shutdown_token := True\<rparr>) w' \<and> tracker_empty w' \<and>
     worker_inbox (finish_shutdown w') = [Shutdown]"
  using shutdown_completes [of "booted_manager\<lparr>shutdown_token := True\<rparr>"] by (auto simp: booted_manager_def)

end
