(* ===== verification/Engine_Clients.thy ===== *)
theory Engine_Clients
  imports Engine_Properties "HOL-Library.Multiset"
begin

text \<open>
  No client of the engine is forgotten and none is answered twice. The clients the engine has to deal
  with are kept as multisets: those who asked, those who were answered, those who wait, and those
  whose claim ran out while they waited.
\<close>

section \<open>Clients\<close>

definition clients_of :: "('c \<times> Instant) list \<Rightarrow> 'c multiset" where
  "clients_of cs = image_mset fst (mset cs)"

definition group_clients :: "(LeaseId, ('c \<times> Instant) list) fmap \<Rightarrow> LeaseId \<Rightarrow> 'c multiset" where
  "group_clients gw l = (case fmlookup gw l of None \<Rightarrow> {#} | Some cs \<Rightarrow> clients_of cs)"

definition waiting_clients :: "(LeaseId, ('c \<times> Instant) list) fmap \<Rightarrow> 'c multiset" where
  "waiting_clients gw = (\<Sum>l \<in> fset (fmdom gw). group_clients gw l)"

definition call_clients :: "'c call \<Rightarrow> 'c multiset" where
  "call_clients k = (case k of Reply c msg ok \<Rightarrow> {#c#} | _ \<Rightarrow> {#})"

definition answered_clients :: "'c call list \<Rightarrow> 'c multiset" where
  "answered_clients log = (\<Sum>k \<leftarrow> log. call_clients k)"

definition requesting :: "'c EngineMessage \<Rightarrow> 'c multiset" where
  "requesting msg = (case msg of AttachOrJoin l c t \<Rightarrow> {#c#} | ReleaseLease l c \<Rightarrow> {#c#} | _ \<Rightarrow> {#})"

lemma clients_of_simps [simp]:
  "clients_of [] = {#}" "clients_of ((c, t) # cs) = add_mset c (clients_of cs)"
  "clients_of (cs @ ds) = clients_of cs + clients_of ds"
  by (simp_all add: clients_of_def)

lemma call_clients_simps [simp]:
  "call_clients (Reply c msg ok) = {#c#}" "call_clients (RequestCreation cr ok) = {#}"
  "call_clients (RequestCleanup cl ok) = {#}" "call_clients (SendDelayed l g d tk ok) = {#}"
  "call_clients (CancelToken tk) = {#}" "call_clients CancelRoot = {#}"
  by (simp_all add: call_clients_def)

lemma answered_clients_simps [simp]:
  "answered_clients [] = {#}" "answered_clients (log @ log') = answered_clients log + answered_clients log'"
  "answered_clients (k # log) = call_clients k + answered_clients log"
  by (simp_all add: answered_clients_def)

lemma answered_rejections [simp]:
  "answered_clients (map (\<lambda>(c, t). Reply c msg (f c)) cs) = clients_of cs"
  by (induction cs) auto

lemma waiting_clients_empty [simp]: "waiting_clients fmempty = {#}"
  by (simp add: waiting_clients_def)

lemma group_clients_absent: "l |\<notin>| fmdom gw \<Longrightarrow> group_clients gw l = {#}"
  by (simp add: group_clients_def fmlookup_fmdom)

lemma waiting_clients_drop:
  "waiting_clients (fmdrop l gw) + group_clients gw l = waiting_clients gw"
proof (cases "l |\<in>| fmdom gw")
  case True
  have "waiting_clients (fmdrop l gw) = (\<Sum>k \<in> fset (fmdom gw) - {l}. group_clients gw k)"
    unfolding waiting_clients_def by (intro sum.cong) (auto simp: group_clients_def)
  moreover have "waiting_clients gw = group_clients gw l + (\<Sum>k \<in> fset (fmdom gw) - {l}. group_clients gw k)"
    unfolding waiting_clients_def using True by (intro sum.remove) simp_all
  ultimately show ?thesis by simp
next
  case False
  then have "fmdrop l gw = gw" by (intro fmap_ext) (auto simp: fmlookup_fmdom)
  with False show ?thesis by (simp add: group_clients_absent)
qed

lemma waiting_clients_upd:
  "waiting_clients (fmupd l cs gw) = waiting_clients (fmdrop l gw) + clients_of cs"
proof -
  have "fmdrop l (fmupd l cs gw) = fmdrop l gw" by (rule fmap_ext) simp
  with waiting_clients_drop [of l "fmupd l cs gw"] show ?thesis by (simp add: group_clients_def)
qed

section \<open>Answers\<close>

text \<open>
  The clients an engine accounts for. A step that is given the clients \<open>R\<close> answers them, queues them
  or counts them as timed out; \<open>E\<close> are those of the last kind.
\<close>

definition clients :: "'c WorkerEngine \<Rightarrow> 'c multiset" where
  "clients s = answered_clients (calls s) + waiting_clients (group_waiters s)"

definition answers :: "'c multiset \<Rightarrow> 'c WorkerEngine \<Rightarrow> 'c WorkerEngine \<Rightarrow> bool" where
  "answers R s s' \<longleftrightarrow> (\<exists>E. clients s' + E = clients s + R \<and>
     waiter_timeouts (counters s') = waiter_timeouts (counters s) + of_nat (size E))"

lemma answersI:
  "clients s' = clients s + R \<Longrightarrow> waiter_timeouts (counters s') = waiter_timeouts (counters s) \<Longrightarrow> answers R s s'"
  by (auto simp: answers_def intro: exI [of _ "{#}"])

lemma answers_refl [simp]: "answers {#} s s"
  by (simp add: answersI)

lemma answers_trans: "answers R s s1 \<Longrightarrow> answers R' s1 s2 \<Longrightarrow> answers (R + R') s s2"
proof -
  assume "answers R s s1" "answers R' s1 s2"
  then obtain E E' where "clients s1 + E = clients s + R" "clients s2 + E' = clients s1 + R'"
    "waiter_timeouts (counters s1) = waiter_timeouts (counters s) + of_nat (size E)"
    "waiter_timeouts (counters s2) = waiter_timeouts (counters s1) + of_nat (size E')"
    by (auto simp: answers_def)
  then show ?thesis unfolding answers_def
    by (intro exI [of _ "E + E'"]) (simp add: ac_simps, metis add.assoc add.left_commute)
qed

lemmas answers_then = answers_trans [where R' = "{#}", simplified]
lemmas answers_after = answers_trans [where R = "{#}", simplified]

text \<open>What only changes leases, records, the inventory or the order of waiting leases is no answer.\<close>

lemma clients_update [simp]:
  "clients (s\<lparr>leases := a\<rparr>) = clients s" "clients (s\<lparr>lease_records := b\<rparr>) = clients s"
  "clients (s\<lparr>next_generation := c\<rparr>) = clients s" "clients (s\<lparr>waiters := d\<rparr>) = clients s"
  "clients (s\<lparr>counters := e\<rparr>) = clients s" "clients (s\<lparr>inventory := f\<rparr>) = clients s"
  "clients (s\<lparr>calls := calls s @ log\<rparr>) = clients s + answered_clients log"
  by (simp_all add: clients_def ac_simps)

lemma clients_record_call [simp]: "clients (record_call k s) = clients s + call_clients k"
  by (simp add: record_call_def clients_def ac_simps)

lemma clients_drop_group:
  "clients (s\<lparr>group_waiters := fmdrop l (group_waiters s)\<rparr>) + group_clients (group_waiters s) l = clients s"
  using waiting_clients_drop [of l "group_waiters s"] by (simp add: clients_def add.assoc)

lemma answers_send_reply: "answers {#c#} s (snd (send_reply env c msg s))"
  by (rule answersI) (simp_all add: send_reply_def record_call_def clients_def)

lemma answers_reject_all: "answers (clients_of cs) s (reject_all env e cs s)"
  by (rule answersI) (simp_all add: reject_all_eq)

lemma answers_grow: "grow env s = Inr s' \<Longrightarrow> answers {#} s s'"
  by (cases "unat (grow_batch_size (config s)) = 0 \<or> growth_deficit env s = 0")
    (auto simp: grow_unfold Let_def intro!: answersI elim!: bind_resE split: option.splits if_splits)

lemma answers_restore: "restore_unclaimed_database l s = Inr (b, s') \<Longrightarrow> answers {#} s s'"
  by (auto simp: restore_unclaimed_database_def Let_def record_call_def clients_def intro!: answersI
      split: if_splits option.splits)

lemma answers_retire_lease: "retire_lease env l s = Inr s' \<Longrightarrow> answers {#} s s'"
proof (cases "fmlookup (leases s) l")
  case (Some e)
  assume "retire_lease env l s = Inr s'"
  then have "answers {#} (retired_state env l e s) s'" using answers_grow by (simp add: retire_lease_eq [OF Some])
  moreover have "answers {#} s (retired_state env l e s)" by (rule answersI) (simp_all add: retired_state_def Let_def clients_def)
  ultimately show ?thesis by (metis answers_then)
qed (simp add: retire_lease_def)

lemma answers_admit: "admit_lease l s = (r, s') \<Longrightarrow> answers {#} s s'"
  by (auto simp: admit_lease_def intro!: answersI split: option.splits if_splits)

lemma answers_reply_attached: "reply_attached env l n c s = Inr s' \<Longrightarrow> answers {#c#} s s'"
  by (auto simp: reply_attached_def send_reply_def record_call_def Let_def clients_def intro!: answersI
      split: option.splits if_splits)

lemma answers_assign_database: "assign_database env l db s = Inr (n, s') \<Longrightarrow> answers {#} s s'"
  by (auto simp: assign_database_def record_call_def Let_def clients_def intro!: answersI split: option.splits if_splits)

lemma answers_expired:
  "answers {#c#} s (s\<lparr>counters := (counters s)\<lparr>waiter_timeouts := waiter_timeouts (counters s) + 1\<rparr>\<rparr>)"
  unfolding answers_def by (rule exI [of _ "{#c#}"]) simp

lemma answers_dispatch_replies: "dispatch_replies env l cs s = Inr s' \<Longrightarrow> answers (clients_of cs) s s'"
proof (induction env l cs s rule: dispatch_replies.induct)
  case (2 env lease c t rest s)
  show ?case
  proof (cases "lease_claim_timeout_ms (config s) > 0 \<and> elapsed_ms env t > unat (lease_claim_timeout_ms (config s))")
    case True
    let ?s = "s\<lparr>counters := (counters s)\<lparr>waiter_timeouts := waiter_timeouts (counters s) + 1\<rparr>\<rparr>"
    have "answers (clients_of rest) ?s s'" using "2.IH"(1) [OF True] "2.prems" True by simp
    from answers_trans [OF answers_expired this, of c] show ?thesis by simp
  next
    case False
    obtain p where p: "(case fmlookup (leases s) lease of
             Some entry \<Rightarrow> Inr (db_name (database entry), s)
           | None \<Rightarrow>
               (case take_ready (inventory s) of
                  (None, iv) \<Rightarrow> Inl DispatchRequiresReady
                | (Some db, iv) \<Rightarrow> assign_database env lease db (s\<lparr>inventory := iv\<rparr>))) = Inr p"
      and b: "(case p of (name, s1) \<Rightarrow> bind_res (reply_attached env lease name c s1) (dispatch_replies env lease rest)) = Inr s'"
      using "2.prems" unfolding dispatch_replies.simps if_not_P [OF False] by (rule bind_resE)
    obtain name s1 where ps: "p = (name, s1)" by (cases p)
    have inv: "answers {#} s (s\<lparr>inventory := iv\<rparr>)" for iv by (rule answersI) simp_all
    have s1: "answers {#} s s1"
      using p by (auto simp: ps intro: answers_then [OF inv answers_assign_database] split: option.splits prod.splits)
    from b obtain s2 where s2: "reply_attached env lease name c s1 = Inr s2"
      and r: "dispatch_replies env lease rest s2 = Inr s'"
      unfolding ps prod.case by (rule bind_resE)
    have "answers (clients_of rest) s2 s'" using "2.IH"(2) [OF False p ps [symmetric] s2] r by simp
    from answers_trans [OF answers_after [OF s1 answers_reply_attached [OF s2]] this] show ?thesis by simp
  qed
qed simp

text \<open>Taking a group out of the queue and dealing with its clients.\<close>

lemma answers_group:
  assumes "fmlookup (group_waiters s) l = Some cs"
    and "answers (clients_of cs) (s\<lparr>group_waiters := fmdrop l (group_waiters s)\<rparr>) s'"
  shows "answers {#} s s'"
proof -
  let ?s = "s\<lparr>group_waiters := fmdrop l (group_waiters s)\<rparr>"
  obtain E where E: "clients s' + E = clients ?s + clients_of cs"
    "waiter_timeouts (counters s') = waiter_timeouts (counters s) + of_nat (size E)"
    using assms(2) by (auto simp: answers_def)
  moreover have "clients ?s + clients_of cs = clients s"
    using clients_drop_group [of l s] assms(1) by (simp add: group_clients_def)
  ultimately show ?thesis by (auto simp: answers_def)
qed

lemma answers_dispatch_waiters: "dispatch_waiters env s = Inr s' \<Longrightarrow> answers {#} s s'"
proof (induction "length (waiters s)" arbitrary: s rule: less_induct)
  case less
  note step = less.prems [unfolded dispatch_waiters.simps [of env s]]
  show ?case
  proof (cases "ready (inventory s) = [] \<or> waiters s = []")
    case True
    with step show ?thesis by (auto split: if_splits)
  next
    case False
    then obtain l rest where q: "ready (inventory s) \<noteq> []" "waiters s = l # rest" by (cases "waiters s") auto
    let ?s1 = "s\<lparr>waiters := rest\<rparr>"
    have s1: "answers {#} s ?s1" by (rule answersI) simp_all
    show ?thesis
    proof (cases "fmlookup (group_waiters s) l")
      case None
      with less.hyps [of ?s1] step q answers_then [OF s1] show ?thesis by simp
    next
      case (Some ps)
      let ?s2 = "?s1\<lparr>group_waiters := fmdrop l (group_waiters s)\<rparr>"
      have group: "answers {#} s s3" if "answers (clients_of ps) ?s2 s3" for s3
        using answers_then [OF s1] answers_group [of ?s1 l ps s3] Some that by simp
      show ?thesis
      proof (cases "fmlookup (lease_records s) l = Some Closed")
        case True
        with less.hyps [of "reject_all env LeaseClosed ps ?s2"] step q Some show ?thesis
          using answers_then [OF group [OF answers_reject_all]] by simp
      next
        case open_lease: False
        have "bind_res (dispatch_replies env l ps ?s2) (\<lambda>s3.
                bind_res (if l |\<in>| fmdom (leases ?s2) then Inr (False, s3) else restore_unclaimed_database l s3)
                  (\<lambda>(restored, s4). dispatch_waiters env s4)) = Inr s'"
          using step q Some open_lease by (simp add: Let_def)
        then obtain s3 b s4 where s3: "dispatch_replies env l ps ?s2 = Inr s3"
          and s4: "(if l |\<in>| fmdom (leases ?s2) then Inr (False, s3) else restore_unclaimed_database l s3) = Inr (b, s4)"
          and d: "dispatch_waiters env s4 = Inr s'"
          by (elim bind_resE bind_res_pairE)
        have "waiters s4 = rest" "answers {#} s3 s4"
          using s4 waiters_dispatch_replies [OF s3] by (auto dest: waiters_restore answers_restore split: if_splits)
        with less.hyps [OF _ d] group [OF answers_dispatch_replies [OF s3]] q show ?thesis
          by (auto intro: answers_then)
      qed
    qed
  qed
qed

section \<open>Messages\<close>

lemma answers_enqueue_waiter: "answers {#c#} s (enqueue_waiter l c t s)"
proof -
  let ?group = "case fmlookup (group_waiters s) l of None \<Rightarrow> [] | Some cs \<Rightarrow> cs"
  have gw: "group_waiters (enqueue_waiter l c t s) = fmupd l (?group @ [(c, t)]) (group_waiters s)"
    "calls (enqueue_waiter l c t s) = calls s" "counters (enqueue_waiter l c t s) = counters s"
    by (simp_all add: enqueue_waiter_def Let_def)
  have "clients_of ?group = group_clients (group_waiters s) l" by (simp add: group_clients_def split: option.splits)
  then have "waiting_clients (group_waiters (enqueue_waiter l c t s)) = waiting_clients (group_waiters s) + {#c#}"
    unfolding gw waiting_clients_upd using waiting_clients_drop [of l "group_waiters s"] by simp
  then show ?thesis by (intro answersI) (simp_all add: clients_def gw)
qed

lemma answers_attach_or_join: "attach_or_join env l c t s = Inr s' \<Longrightarrow> answers {#c#} s s'"
proof -
  assume attach: "attach_or_join env l c t s = Inr s'"
  obtain r s1 where a: "admit_lease l s = (r, s1)" by (cases "admit_lease l s")
  have "answers {#c#} s1 s'"
  proof (cases "r = Inr Open")
    case False
    with a attach show ?thesis
      by (auto simp: attach_or_join_def answers_send_reply split: sum.splits LeaseStatus.splits)
  next
    case True
    note eq = attach [unfolded attach_or_join_eq [OF a [unfolded True], of env c t]]
    show ?thesis
    proof (cases "fmlookup (leases s1) l")
      case (Some e)
      with eq show ?thesis by (simp add: answers_reply_attached)
    next
      case None
      obtain db iv where t: "take_ready (inventory s1) = (db, iv)" by (cases "take_ready (inventory s1)")
      have inv: "answers {#} s1 (s1\<lparr>inventory := iv\<rparr>)" by (rule answersI) simp_all
      show ?thesis
      proof (cases db)
        case dbN: None
        with eq None t have "grow env (enqueue_waiter l c t s1) = Inr s'" by simp
        from answers_then [OF answers_enqueue_waiter answers_grow [OF this]] show ?thesis .
      next
        case (Some d)
        obtain name s2 s3 b s4 s5 where
          a2: "assign_database env l d (s1\<lparr>inventory := iv\<rparr>) = Inr (name, s2)"
          and a3: "reply_attached env l name c s2 = Inr s3"
          and a4: "restore_unclaimed_database l s3 = Inr (b, s4)"
          and a5: "(if b then dispatch_waiters env s4 else Inr s4) = Inr s5" and a6: "grow env s5 = Inr s'"
          using eq None t Some by (auto simp: attach_fresh_def bind_res_eq_Inr)
        have "answers {#} s4 s5" using a5 answers_dispatch_waiters by (auto split: if_splits)
        from answers_then [OF answers_then [OF answers_restore [OF a4] this] answers_grow [OF a6]]
        have "answers {#} s3 s'" .
        from answers_then [OF answers_reply_attached [OF a3] this] have "answers {#c#} s2 s'" .
        from answers_after [OF answers_then [OF inv answers_assign_database [OF a2]] this] show ?thesis .
      qed
    qed
  qed
  from answers_after [OF answers_admit [OF a] this] show ?thesis .
qed

lemma answers_release_lease: "release_lease env l s = Inr (r, s') \<Longrightarrow> answers {#} s s'"
proof -
  assume release: "release_lease env l s = Inr (r, s')"
  obtain a s1 where a: "admit_lease l s = (a, s1)" by (cases "admit_lease l s")
  have "clients (closed_state env l s1) = clients s1"
    using waiting_clients_drop [of l "group_waiters s1"]
    by (auto simp: closed_state_def clients_def group_clients_def Let_def ac_simps split: option.splits)
  then have "answers {#} s1 (closed_state env l s1)"
    by (intro answersI) (simp_all add: closed_state_def Let_def)
  moreover have "s' = s1 \<or> retire_lease env l (closed_state env l s1) = Inr s'"
    using release a by (auto simp: release_lease_eq bind_res_eq_Inr split: sum.splits LeaseStatus.splits)
  ultimately have "answers {#} s1 s'" using answers_retire_lease answers_then by (metis answers_refl)
  from answers_after [OF answers_admit [OF a] this] show ?thesis .
qed

lemma answers_worker_message: "handle_database_worker_message env m s = Inr s' \<Longrightarrow> answers {#} s s'"
proof -
  assume h: "handle_database_worker_message env m s = Inr s'"
  show ?thesis
  proof (cases "\<exists>iv. s' = s\<lparr>inventory := iv\<rparr>")
    case True
    then show ?thesis by (auto intro: answersI)
  next
    case False
    have pre: "answers {#} s (s\<lparr>inventory := iv\<rparr>)"
      "answers {#} s (s\<lparr>inventory := iv, counters := (counters s)\<lparr>template_create_failures := k\<rparr>\<rparr>)" for iv k
      by (auto intro!: answersI)
    obtain s1 s2 where s: "answers {#} s s1" "dispatch_waiters env s1 = Inr s2" "grow env s2 = Inr s'"
      using h False
      by (auto simp: handle_database_worker_message_def Let_def bind_res_eq_Inr intro: that [OF pre(1)] that [OF pre(2)]
          split: DatabaseWorkerMessages.splits option.splits prod.splits sum.splits)
    from answers_then [OF answers_then [OF s(1) answers_dispatch_waiters [OF s(2)]] answers_grow [OF s(3)]]
    show ?thesis .
  qed
qed

lemma answers_handle_message:
  assumes "handle_message env msg s = Inr (go, s')"
  shows "answers (requesting msg) s s'"
proof (cases msg)
  case (AttachOrJoin l c t)
  with assms show ?thesis by (auto simp: handle_message_def requesting_def bind_res_eq_Inr answers_attach_or_join)
next
  case (ReleaseLease l c)
  with assms obtain r s1 where "release_lease env l s = Inr (r, s1)"
    "s' = snd (send_reply env c (ReleaseResult r) s1)"
    by (auto simp: handle_message_def bind_res_eq_Inr)
  with answers_after [OF answers_release_lease answers_send_reply] ReleaseLease show ?thesis
    by (simp add: requesting_def)
next
  case (Detach l g)
  with assms show ?thesis
    by (auto simp: handle_message_def handle_detach_def requesting_def intro!: answersI split: option.splits)
next
  case (LeaseMaxTimeReached l g)
  let ?s = "s\<lparr>counters := (counters s)\<lparr>rejected_attach_max_lifetime := rejected_attach_max_lifetime (counters s) + 1\<rparr>\<rparr>"
  have "s' = s \<or> retire_lease env l ?s = Inr s'"
    using assms LeaseMaxTimeReached
    by (auto simp: handle_message_def handle_max_time_def bind_res_eq_Inr split: option.splits if_splits)
  moreover have "answers {#} s ?s" by (rule answersI) simp_all
  ultimately show ?thesis
    using LeaseMaxTimeReached by (auto simp: requesting_def intro: answers_then [OF _ answers_retire_lease])
next
  case (DatabaseWorker m)
  with assms show ?thesis
    by (auto simp: handle_message_def requesting_def bind_res_eq_Inr answers_worker_message)
next
  case Shutdown
  with assms show ?thesis by (auto simp: handle_message_def requesting_def intro: answersI)
qed

section \<open>Runs\<close>

text \<open>The messages a run has handled: everything up to the first shutdown.\<close>

fun handled_messages :: "('c env \<times> 'c EngineMessage) list \<Rightarrow> 'c EngineMessage list" where
  "handled_messages [] = []"
| "handled_messages ((env, msg) # rest) = (if msg = Shutdown then [msg] else msg # handled_messages rest)"

definition requests :: "'c EngineMessage list \<Rightarrow> 'c multiset" where
  "requests msgs = (\<Sum>m \<leftarrow> msgs. requesting m)"

lemma handle_message_continue: "handle_message env msg s = Inr (go, s') \<Longrightarrow> go \<longleftrightarrow> msg \<noteq> Shutdown"
  by (cases msg) (auto simp: handle_message_def bind_res_eq_Inr)

lemma answers_process_messages:
  "process_messages inbox s = Inr s' \<Longrightarrow> answers (requests (handled_messages inbox)) s s'"
proof (induction inbox arbitrary: s)
  case (Cons m rest)
  obtain env msg where m: "m = (env, msg)" by (cases m)
  from Cons.prems obtain go s1 where h: "handle_message env msg s = Inr (go, s1)"
    and r: "(if go then process_messages rest s1 else Inr s1) = Inr s'"
    unfolding m process_messages.simps by (rule bind_res_pairE)
  note first = answers_handle_message [OF h]
  show ?case
  proof (cases "msg = Shutdown")
    case True
    with first r handle_message_continue [OF h] show ?thesis by (simp add: m requests_def)
  next
    case False
    with r handle_message_continue [OF h] Cons.IH have "answers (requests (handled_messages rest)) s1 s'" by simp
    from answers_trans [OF first this] False show ?thesis by (simp add: m requests_def)
  qed
qed (simp add: requests_def)

lemma clients_booted:
  assumes "try_init create (WorkerEngine_new cfg) = Inr (r, s)"
  shows "clients s = {#}" "waiter_timeouts (counters s) = 0"
  using assms unfolding try_init_def
  by (auto simp: clients_def WorkerEngine_new_def EngineCounters_default_def elim!: bind_res_pairE split: option.splits)

text \<open>
  C12: no client is forgotten and none is answered twice. After any run, the clients who asked for an
  attachment or a release are exactly those to whom a reply was sent, those who still wait for a
  database, and those whose claim ran out while they waited, of whom the engine keeps the number;
  each of them is counted once. When every client asks once, nobody gets a second reply.
\<close>

theorem clients_accounted:
  assumes "try_init create (WorkerEngine_new cfg) = Inr (r, s0)" "process_messages inbox s0 = Inr s"
  shows "(\<exists>expired. requests (handled_messages inbox) =
            answered_clients (calls s) + waiting_clients (group_waiters s) + expired \<and>
            waiter_timeouts (counters s) = of_nat (size expired)) \<and>
         (\<forall>c. count (requests (handled_messages inbox)) c \<le> 1 \<longrightarrow>
            count (answered_clients (calls s)) c + count (waiting_clients (group_waiters s)) c \<le> 1)"
proof -
  from answers_process_messages [OF assms(2)] clients_booted [OF assms(1)] obtain E where
    E: "requests (handled_messages inbox) = answered_clients (calls s) + waiting_clients (group_waiters s) + E"
    "waiter_timeouts (counters s) = of_nat (size E)"
    by (auto simp: answers_def clients_def dest: sym)
  have "count (answered_clients (calls s)) c + count (waiting_clients (group_waiters s)) c \<le> 1"
    if "count (requests (handled_messages inbox)) c \<le> 1" for c
    using that unfolding E(1) by simp
  with E show ?thesis by blast
qed

theorem clients_accounted_witness:
  "(\<exists>expired. {#0, 7#} = answered_clients (calls two_leases) + waiting_clients (group_waiters two_leases) + expired \<and>
      waiter_timeouts (counters two_leases) = of_nat (size expired)) \<and>
   count (answered_clients (calls two_leases)) 7 + count (waiting_clients (group_waiters two_leases)) 7 \<le> 1"
proof -
  let ?inbox = "[(calm_env, AttachOrJoin (LeaseId ''a'') 0 0), (calm_env, AttachOrJoin (LeaseId ''b'') 7 0)]"
  have "process_messages ?inbox small_engine = Inr two_leases" by (simp add: small_attach_a small_attach_b)
  moreover have "requests (handled_messages ?inbox) = {#0, 7#}"
    by (simp add: requests_def requesting_def)
  ultimately show ?thesis
    using clients_accounted [OF small_init, of ?inbox two_leases] by simp
qed

end
