(* ===== verification/Client_Channels.thy ===== *)
theory Client_Channels
  imports Manager_Properties Engine_Clients
begin

text \<open>
  The channels of the clients over a run of the manager: which steps create them, and that the reply
  on a channel answers the request that was sent with it. A session that a client receives belongs to
  the lease the client asked for.
\<close>

section \<open>Steps that send no request\<close>

text \<open>A step outside the engine that sends no request.\<close>

definition silent :: "WorkerEngineManager \<Rightarrow> WorkerEngineManager \<Rightarrow> bool" where
  "silent w w' \<longleftrightarrow>
     engine_handle w' = engine_handle w \<and> next_channel w \<le> next_channel w' \<and>
     set (unread w') \<subseteq> set (unread w) \<and>
     (\<forall>m \<in> set (worker_inbox w'). message_channel m \<noteq> None \<longrightarrow> m \<in> set (worker_inbox w))"

lemma silent_refl [simp]: "silent w w"
  by (simp add: silent_def)

lemma silent_trans: "silent w w1 \<Longrightarrow> silent w1 w2 \<Longrightarrow> silent w w2"
  by (auto simp: silent_def)

lemma silent_update [simp]:
  "silent w (w'\<lparr>receivers := a\<rparr>) = silent w w'" "silent w (w'\<lparr>sessions := b\<rparr>) = silent w w'"
  "silent w (w'\<lparr>timers := c\<rparr>) = silent w w'" "silent w (w'\<lparr>creation_jobs := d\<rparr>) = silent w w'"
  "silent w (w'\<lparr>cleanup_jobs := e\<rparr>) = silent w w'" "silent w (w'\<lparr>creation_channel := f\<rparr>) = silent w w'"
  "silent w (w'\<lparr>cleanup_channel := g\<rparr>) = silent w w'" "silent w (w'\<lparr>creation_worker := h\<rparr>) = silent w w'"
  "silent w (w'\<lparr>cleanup_worker := i\<rparr>) = silent w w'" "silent w (w'\<lparr>shutdown_token := j\<rparr>) = silent w w'"
  "silent w (w'\<lparr>clock := k\<rparr>) = silent w w'"
  by (simp_all add: silent_def)

lemma silent_post: "silent w w' \<Longrightarrow> \<forall>m \<in> set msgs. message_channel m = None \<Longrightarrow> silent w (post msgs w')"
  by (auto simp: silent_def post_def)

lemma silent_unread: "set rs \<subseteq> set (unread w) \<Longrightarrow> silent w (w\<lparr>unread := rs\<rparr>)"
  by (simp add: silent_def)

lemma no_request_drops:
  "m \<in> set (drop_session x) \<Longrightarrow> message_channel m = None" "m \<in> set (drop_reply r) \<Longrightarrow> message_channel m = None"
  by (auto simp: drop_session_def drop_reply_def message_channel_def split: ManagerReply.splits if_splits)

lemma silent_drop_receiver: "silent w (drop_receiver ch w)"
  unfolding drop_receiver_def by (intro silent_post) (auto intro: silent_unread no_request_drops)

lemma silent_take_reply: "silent w (take_reply ch w)"
proof -
  have "silent w (w\<lparr>unread := remove1 p (unread w)\<rparr>)" for p by (rule silent_unread) (rule set_remove1_subset)
  then show ?thesis
    by (auto simp: take_reply_def intro: silent_drop_receiver silent_trans [OF _ silent_drop_receiver] split: list.splits)
qed

lemma silent_attach_await: "silent w (snd (attach_await ch w))"
  by (auto simp: attach_await_def Let_def intro: silent_drop_receiver silent_take_reply silent_post no_request_drops
      split: poll.splits sum.splits ManagerReply.splits ConsumerReply.splits)

lemma silent_release_await: "silent w (snd (release_await ch w))"
  by (auto simp: release_await_def intro: silent_drop_receiver silent_take_reply silent_post no_request_drops
      split: poll.splits sum.splits ManagerReply.splits ConsumerReply.splits)

lemma silent_end_session: "silent w (end_session i w)"
  by (auto simp: end_session_def intro: silent_post no_request_drops)

lemma silent_timer_fire: "\<forall>t \<in> set (timers w). is_expiry t \<Longrightarrow> silent w (timer_fire i w)"
  by (auto simp: timer_fire_def is_expiry_def message_channel_def intro!: silent_post dest!: nth_mem split: EngineMessage.splits)

lemma silent_tasks:
  "silent w (timer_stop i w)" "silent w (creation_worker_turn create w)" "silent w (cleanup_worker_turn w)"
  "silent w (cleanup_job_turn answer i w)" "silent w (begin_shutdown w)" "silent w (finish_shutdown w)"
  by (auto simp: timer_stop_def creation_worker_turn_def cleanup_worker_turn_def cleanup_job_turn_def
      begin_shutdown_def finish_shutdown_def Let_def message_channel_def intro: silent_post split: list.splits)

lemma silent_creation_job_turn: "creation_job_turn i w = Inr w' \<Longrightarrow> silent w w'"
  by (auto simp: creation_job_turn_def Let_def bind_res_eq_Inr message_channel_def intro: silent_post split: if_splits prod.splits)

lemma turn_prefix:
  assumes "manager_inv w" "engine_running w" "worker_inbox w = msg # rest"
    and "handle_message (env_of w) msg (engine_handle w) = Inr (go, e)"
  shows "calls e = calls (engine_handle w) @ drop (length (calls (engine_handle w))) (calls e)"
proof -
  let ?e = "engine_handle w"
  obtain D where D: "accounted attachment D [] ?e" "balanced D w"
    using assms(1,2) by (auto simp: manager_inv_def)
  have "well_addressed msg" using assms(1,3) by (simp add: manager_inv_def)
  moreover have "D l g < attached_to attachment (calls ?e) l g" if "msg = Detach l g" for l g
    using D(2) assms(3) that by (simp add: balanced_def)
  moreover have "accounted attachment D (calls ?e) ?e" using D(1) by (simp add: accounted_def)
  ultimately have "accounted attachment (case msg of Detach l g \<Rightarrow> count_detach l g D | _ \<Rightarrow> D) (calls ?e) e"
    by (intro accounted_handle_message [OF _ assms(4)]) (auto simp: well_addressed_def)
  then show ?thesis by (auto simp: accounted_def prefix_def)
qed

text \<open>The four kinds of steps, as far as channels are concerned.\<close>

lemma manager_step_kinds:
  assumes "manager_step w w'" "manager_inv w"
  obtains (silent) "silent w w'"
  | (attach) n l where "w' = snd (attach_request n l w)"
  | (release) l where "w' = snd (release_request l w)"
  | (turn) "engine_turn w = Inr w'"
  using assms
proof (induction rule: manager_step.induct)
  case (fire w i)
  then show ?case using silent_timer_fire [of w i] by (auto simp: manager_inv_def)
qed (auto intro: silent_attach_await silent_release_await silent_drop_receiver silent_end_session silent_tasks
    silent_creation_job_turn)

section \<open>Consumers\<close>

text \<open>Everyone who has asked the engine for something: answered, waiting, or not yet heard.\<close>

definition consumers :: "WorkerEngineManager \<Rightarrow> ConsumerWorker set" where
  "consumers w = set_mset (clients (engine_handle w)) \<union> set_mset (requests (worker_inbox w))"

text \<open>A session in a channel was sent to the consumer of the channel, for the lease it asked for.\<close>

definition request_step :: "WorkerEngineManager \<Rightarrow> WorkerEngineManager \<Rightarrow> bool" where
  "request_step w w' \<longleftrightarrow>
     next_channel w \<le> next_channel w' \<and>
     (\<forall>c \<in> consumers w'. c \<in> consumers w \<or> next_channel w \<le> oneshot_channel c \<and> oneshot_channel c < next_channel w') \<and>
     (\<forall>ch x. (ch, ManagerAttached x) \<in> set (unread w') \<longrightarrow> (ch, ManagerAttached x) \<in> set (unread w) \<or>
        (\<exists>c \<in> consumers w. oneshot_channel c = ch \<and> attachment c = Some (session_lease_id x)))"

lemma next_channel_perform [simp]: "next_channel (fold perform ks w) = next_channel w"
proof (induction ks arbitrary: w)
  case (Cons k ks)
  moreover have "next_channel (perform k w) = next_channel w"
    by (cases k) (auto simp: perform_Reply, auto simp: perform_def request_creation_def request_cleanup_def
        send_delayed_message_def)
  ultimately show ?case by simp
qed simp

lemma set_requests: "c \<in># requests msgs \<longleftrightarrow> (\<exists>m \<in> set msgs. c \<in># requesting m)"
  by (induction msgs) (auto simp: requests_def)

lemma requesting_channel: "c \<in># requesting m \<Longrightarrow> message_channel m = Some (oneshot_channel c)"
  by (auto simp: requesting_def message_channel_def split: EngineMessage.splits)

lemma request_step_silent: "silent w w' \<Longrightarrow> request_step w w'"
  by (fastforce simp: silent_def request_step_def consumers_def set_requests dest: requesting_channel)

lemma request_step_attach: "request_step w (snd (attach_request n l w))"
  by (auto simp: attach_request_def send_message_def Let_def request_step_def post_def consumers_def
      set_requests requesting_def)

lemma request_step_release: "request_step w (snd (release_request l w))"
  by (auto simp: release_request_def send_message_def Let_def request_step_def post_def consumers_def
      set_requests requesting_def ConsumerWorker_new_def)

lemma unread_session_perform:
  assumes "(ch, ManagerAttached x) \<in> set (unread (fold perform ks w))"
  shows "(ch, ManagerAttached x) \<in> set (unread w) \<or>
    (\<exists>c msg ok. Reply c msg ok \<in> set ks \<and> oneshot_channel c = ch \<and> attachment c = Some (session_lease_id x))"
  using assms
proof (induction ks arbitrary: w)
  case (Cons k ks)
  have "(ch, ManagerAttached x) \<in> set (unread (perform k w)) \<Longrightarrow>
      (ch, ManagerAttached x) \<in> set (unread w) \<or>
      (\<exists>c msg ok. k = Reply c msg ok \<and> oneshot_channel c = ch \<and> attachment c = Some (session_lease_id x))"
  proof (cases k)
    case (Reply c msg ok)
    then show "(ch, ManagerAttached x) \<in> set (unread (perform k w)) \<Longrightarrow> ?thesis"
      by (auto simp: perform_Reply LeaseSession_new_def split: if_splits option.splits ConsumerReply.splits)
  qed (auto simp: perform_def request_creation_def request_cleanup_def send_delayed_message_def split: if_splits)
  moreover from Cons.prems have "(ch, ManagerAttached x) \<in> set (unread (fold perform ks (perform k w)))" by simp
  from Cons.IH [OF this] have "(ch, ManagerAttached x) \<in> set (unread (perform k w)) \<or>
      (\<exists>c msg ok. Reply c msg ok \<in> set ks \<and> oneshot_channel c = ch \<and> attachment c = Some (session_lease_id x))" .
  ultimately show ?case by (metis list.set_intros)
qed simp

lemma answered_reply: "Reply c msg ok \<in> set log \<Longrightarrow> c \<in># answered_clients log"
  by (induction log) auto

lemma request_step_turn:
  assumes "manager_inv w" "engine_turn w = Inr w'"
  shows "request_step w w'"
  using assms(2)
proof (cases rule: engine_turn_cases)
  case idle
  then show ?thesis by (simp add: request_step_silent)
next
  case (turn msg rest go e log w1)
  have "answers (requesting msg) (engine_handle w) e" by (rule answers_handle_message [OF turn(3)])
  then have "set_mset (clients e) \<subseteq> set_mset (clients (engine_handle w)) \<union> set_mset (requesting msg)"
    unfolding answers_def by (metis set_mset_union Un_upper1)
  moreover have "clients (record_call CancelRoot e) = clients e" by (simp add: clients_def)
  moreover have "next_channel w' = next_channel w" "unread w' = unread w1" "engine_handle w1 = e" "worker_inbox w1 = rest"
    using turn(5-7) by (auto simp: carried_def)
  moreover from this have "clients (engine_handle w') = clients e" "set (worker_inbox w') \<subseteq> set rest"
    using turn(6) \<open>clients (record_call CancelRoot e) = clients e\<close> by auto
  moreover have "requesting msg \<subseteq># requests (worker_inbox w)" by (simp add: turn(2) requests_def)
  ultimately have known: "set_mset (clients e) \<subseteq> consumers w" "consumers w' \<subseteq> consumers w"
    unfolding consumers_def by (auto simp: set_requests turn(2) subset_iff)
  have "c \<in> consumers w" if "Reply c m ok \<in> set log" for c m ok
  proof -
    have "Reply c m ok \<in> set (calls e)" using that turn(4) by (auto dest: in_set_dropD)
    then show ?thesis using known(1) answered_reply [of c m ok "calls e"] by (auto simp: clients_def)
  qed
  then have "(ch, ManagerAttached x) \<in> set (unread w) \<or>
      (\<exists>c \<in> consumers w. oneshot_channel c = ch \<and> attachment c = Some (session_lease_id x))"
    if "(ch, ManagerAttached x) \<in> set (unread w1)" for ch x
    using unread_session_perform [OF that [unfolded turn(7)]] by auto
  with known(2) \<open>next_channel w' = next_channel w\<close> \<open>unread w' = unread w1\<close> show ?thesis
    by (auto simp: request_step_def)
qed

lemma request_step_step:
  assumes "manager_step w w'" "manager_inv w"
  shows "request_step w w'"
  by (cases rule: manager_step_kinds [OF assms])
    (auto intro: request_step_silent request_step_attach request_step_release request_step_turn [OF assms(2)])

section \<open>Following one attachment\<close>

definition known_channels :: "WorkerEngineManager \<Rightarrow> bool" where
  "known_channels w \<longleftrightarrow>
     (\<forall>c \<in> consumers w. oneshot_channel c < next_channel w) \<and>
     (\<forall>ch x. (ch, ManagerAttached x) \<in> set (unread w) \<longrightarrow> ch < next_channel w)"

text \<open>The channel \<open>ch\<close> belongs to an attachment to \<open>l\<close>.\<close>

definition attaching :: "nat \<Rightarrow> LeaseId \<Rightarrow> WorkerEngineManager \<Rightarrow> bool" where
  "attaching ch l w \<longleftrightarrow> ch < next_channel w \<and>
     (\<forall>c \<in> consumers w. oneshot_channel c = ch \<longrightarrow> attachment c = Some l) \<and>
     (\<forall>x. (ch, ManagerAttached x) \<in> set (unread w) \<longrightarrow> session_lease_id x = l)"

lemma known_channels_step:
  assumes "request_step w w'" "known_channels w"
  shows "known_channels w'"
proof -
  have s: "next_channel w \<le> next_channel w'"
    "\<And>c. c \<in> consumers w' \<Longrightarrow> c \<in> consumers w \<or> oneshot_channel c < next_channel w'"
    "\<And>ch x. (ch, ManagerAttached x) \<in> set (unread w') \<Longrightarrow> (ch, ManagerAttached x) \<in> set (unread w) \<or>
        (\<exists>c \<in> consumers w. oneshot_channel c = ch)"
    using assms(1) by (auto simp: request_step_def)
  have k: "\<And>c. c \<in> consumers w \<Longrightarrow> oneshot_channel c < next_channel w"
    "\<And>ch x. (ch, ManagerAttached x) \<in> set (unread w) \<Longrightarrow> ch < next_channel w"
    using assms(2) by (auto simp: known_channels_def)
  have "oneshot_channel c < next_channel w'" if "c \<in> consumers w'" for c
    using s(2) [OF that] k(1) [of c] s(1) by linarith
  moreover have "ch < next_channel w'" if "(ch, ManagerAttached x) \<in> set (unread w')" for ch x
    using s(3) [OF that] k s(1) order_less_le_trans by blast
  ultimately show ?thesis by (auto simp: known_channels_def)
qed

lemma attaching_step:
  assumes "request_step w w'" "attaching ch l w"
  shows "attaching ch l w'"
proof -
  have s: "next_channel w \<le> next_channel w'"
    "\<And>c. c \<in> consumers w' \<Longrightarrow> c \<in> consumers w \<or> next_channel w \<le> oneshot_channel c"
    "\<And>x. (ch, ManagerAttached x) \<in> set (unread w') \<Longrightarrow> (ch, ManagerAttached x) \<in> set (unread w) \<or>
        (\<exists>c \<in> consumers w. oneshot_channel c = ch \<and> attachment c = Some (session_lease_id x))"
    using assms(1) by (auto simp: request_step_def)
  have a: "ch < next_channel w" "\<And>c. c \<in> consumers w \<Longrightarrow> oneshot_channel c = ch \<Longrightarrow> attachment c = Some l"
    "\<And>x. (ch, ManagerAttached x) \<in> set (unread w) \<Longrightarrow> session_lease_id x = l"
    using assms(2) by (auto simp: attaching_def)
  have "attachment c = Some l" if "c \<in> consumers w'" "oneshot_channel c = ch" for c
    using s(2) [OF that(1)] a(1,2) that(2) by auto
  moreover have "session_lease_id x = l" if "(ch, ManagerAttached x) \<in> set (unread w')" for x
    using s(3) [OF that] a(2,3) by auto
  ultimately show ?thesis using a(1) s(1) by (auto simp: attaching_def)
qed

interpretation channels: relative_invariant manager_step manager_inv known_channels
  by unfold_locales (rule known_channels_step [OF request_step_step])

interpretation attachments: relative_invariant manager_step manager_inv "attaching ch l" for ch l
  by unfold_locales (rule attaching_step [OF request_step_step])

lemma known_channels_started:
  assumes "WorkerEngineManager_start cl pcfg cfg = Inr (Inr w)"
  shows "known_channels w"
proof -
  note st = started_cases [OF assms]
  have "clients (engine_handle w) = {#}" by (rule clients_booted(1) [OF st(7)])
  with st(3) show ?thesis by (simp add: known_channels_def consumers_def fresh_manager_def requests_def)
qed

lemma attaching_request:
  assumes "known_channels w" "attach_request n l w = (Inr ch, w')"
  shows "attaching ch l w'"
proof -
  have w': "ch = next_channel w" "next_channel w' = Suc ch" "unread w' = unread w" "engine_handle w' = engine_handle w"
    "worker_inbox w' = worker_inbox w @ [AttachOrJoin l \<lparr>oneshot_channel = ch, attachment = Some l\<rparr> (clock w)]"
    using assms(2) by (auto simp: attach_request_def send_message_def Let_def post_def split: if_splits)
  have "consumers w' \<subseteq> insert \<lparr>oneshot_channel = ch, attachment = Some l\<rparr> (consumers w)"
    by (auto simp: consumers_def w'(4,5) set_requests requesting_def)
  then show ?thesis using assms(1) by (fastforce simp: attaching_def known_channels_def w'(1-3))
qed

lemma attach_await_Ok:
  assumes "attach_await ch w = (Ready (Inr x), w')"
  shows "(ch, ManagerAttached x) \<in> set (unread w)"
proof (cases "filter (\<lambda>p. fst p = ch) (unread w)")
  case Nil
  with assms show ?thesis
    by (auto simp: attach_await_def poll_receiver_def split: option.splits if_splits)
next
  case (Cons p ps)
  then have "p \<in> set (unread w)" "fst p = ch" by (auto simp: filter_eq_Cons_iff)
  moreover have "snd p = ManagerAttached x"
    using assms Cons
    by (auto simp: attach_await_def poll_receiver_def Let_def split: ManagerReply.splits ConsumerReply.splits if_splits)
  ultimately show ?thesis by (metis prod.collapse)
qed

end
