(* ===== verification/Control_Statement.thy ===== *)
theory Control_Statement
  imports Prelude
begin

text \<open>
  The statements of the control panel (crates/pgtest-wire/src/control_panel/statement.rs and
  grammar.pest). The grammar is a parsing expression grammar: choices are ordered, repetitions are
  greedy and nothing is retried after a choice has succeeded. Each rule is a function from the input
  to what is left of it. The grammar has no implicit white space; its literals are ASCII, so that
  working on bytes or on characters makes no difference.
\<close>

section \<open>Statements\<close>

datatype LeaseArgument = Literal string | Parameter nat

datatype PgTestQueryTypeControlStatement = Release LeaseArgument | Ping

datatype InvalidControlQuery = InvalidControlQuery

section \<open>The grammar\<close>

definition QUOTE :: char where
  "QUOTE = CHR 0x27"

definition ws :: "char \<Rightarrow> bool" where
  "ws c \<longleftrightarrow> c = CHR '' '' \<or> c = CHR 0x09 \<or> c = CHR 0x0D \<or> c = CHR 0x0A"

definition skip_ws :: "string \<Rightarrow> string" where
  "skip_ws s = dropWhile ws s"

definition ws1 :: "string \<Rightarrow> string option" where
  "ws1 s = (if s \<noteq> [] \<and> ws (hd s) then Some (skip_ws s) else None)"

definition lower :: "char \<Rightarrow> char" where
  "lower c = (if 65 \<le> (of_char c :: nat) \<and> (of_char c :: nat) \<le> 90 then char_of ((of_char c :: nat) + 32) else c)"

definition tok :: "string \<Rightarrow> string \<Rightarrow> string option" where
  "tok p s = (if take (length p) s = p then Some (drop (length p) s) else None)"

definition tok_ci :: "string \<Rightarrow> string \<Rightarrow> string option" where
  "tok_ci p s =
     (if length p \<le> length s \<and> map lower (take (length p) s) = map lower p
      then Some (drop (length p) s) else None)"

text \<open>Rule \<open>ping\<close>.\<close>

definition ping_rule :: "string \<Rightarrow> string option" where
  "ping_rule s = Option.bind (tok_ci ''SELECT'' s) (\<lambda>s1. Option.bind (ws1 s1) (tok ''1''))"

text \<open>Rule \<open>text_literal\<close>: the repetition, then the rule; the matched text comes first.\<close>

fun literal_body :: "string \<Rightarrow> string \<times> string" where
  "literal_body [] = ([], [])"
| "literal_body (c # s) =
     (if c \<noteq> QUOTE then (let (body, rest) = literal_body s in (c # body, rest))
      else case s of
             [] \<Rightarrow> ([], [c])
           | d # t \<Rightarrow> if d = QUOTE then (let (body, rest) = literal_body t in (c # d # body, rest))
                      else ([], c # s))"

definition text_literal :: "string \<Rightarrow> (string \<times> string) option" where
  "text_literal s =
     Option.bind (tok [QUOTE] s) (\<lambda>s1.
       let (body, s2) = literal_body s1 in
       Option.bind (tok [QUOTE] s2) (\<lambda>rest. Some (QUOTE # body @ [QUOTE], rest)))"

text \<open>Rule \<open>parameter\<close>: the cast is optional.\<close>

definition cast_rule :: "string \<Rightarrow> string option" where
  "cast_rule s = Option.bind (tok ''::'' (skip_ws s)) (\<lambda>s1. tok_ci ''text'' (skip_ws s1))"

definition parameter_rule :: "string \<Rightarrow> string option" where
  "parameter_rule s =
     Option.bind (tok ''$1'' s) (\<lambda>s1. Some (case cast_rule s1 of None \<Rightarrow> s1 | Some s2 \<Rightarrow> s2))"

text \<open>The choice in \<open>release\<close>: the text of a literal, or a parameter.\<close>

definition argument_rule :: "string \<Rightarrow> (string option \<times> string) option" where
  "argument_rule s =
     (case text_literal s of
        Some (raw, rest) \<Rightarrow> Some (Some raw, rest)
      | None \<Rightarrow> Option.bind (parameter_rule s) (\<lambda>rest. Some (None, rest)))"

definition release_rule :: "string \<Rightarrow> (string option \<times> string) option" where
  "release_rule s =
     Option.bind (tok_ci ''SELECT'' s) (\<lambda>s1.
     Option.bind (ws1 s1) (\<lambda>s2.
     Option.bind (tok_ci ''pgtest_release'' s2) (\<lambda>s3.
     Option.bind (tok ''('' (skip_ws s3)) (\<lambda>s4.
     Option.bind (argument_rule (skip_ws s4)) (\<lambda>(arg, s5).
     Option.bind (tok '')'' (skip_ws s5)) (\<lambda>s6. Some (arg, s6)))))))"

text \<open>The end of rule \<open>query\<close>: an optional semicolon and nothing after it.\<close>

definition query_end :: "string \<Rightarrow> bool" where
  "query_end s \<longleftrightarrow>
     (case tok '';'' (skip_ws s) of None \<Rightarrow> skip_ws s = [] | Some s1 \<Rightarrow> skip_ws s1 = [])"

section \<open>Parsing\<close>

text \<open>\<open>str::replace\<close> of two quotes by one.\<close>

fun replace_quotes :: "string \<Rightarrow> string" where
  "replace_quotes (c # d # s) =
     (if c = QUOTE \<and> d = QUOTE then QUOTE # replace_quotes s else c # replace_quotes (d # s))"
| "replace_quotes s = s"

definition strip_prefix :: "char \<Rightarrow> string \<Rightarrow> string option" where
  "strip_prefix c s = (if s \<noteq> [] \<and> hd s = c then Some (tl s) else None)"

definition strip_suffix :: "char \<Rightarrow> string \<Rightarrow> string option" where
  "strip_suffix c s = (if s \<noteq> [] \<and> last s = c then Some (butlast s) else None)"

definition parse_control :: "string \<Rightarrow> InvalidControlQuery + PgTestQueryTypeControlStatement" where
  "parse_control query =
     (let s = skip_ws query in
      case ping_rule s of
        Some rest \<Rightarrow> if query_end rest then Inr Ping else Inl InvalidControlQuery
      | None \<Rightarrow>
          (case release_rule s of
             None \<Rightarrow> Inl InvalidControlQuery
           | Some (arg, rest) \<Rightarrow>
               if \<not> query_end rest then Inl InvalidControlQuery
               else case arg of
                      None \<Rightarrow> Inr (Release (Parameter 0))
                    | Some raw \<Rightarrow>
                        (case Option.bind (strip_prefix QUOTE raw) (strip_suffix QUOTE) of
                           None \<Rightarrow> Inl InvalidControlQuery
                         | Some unquoted \<Rightarrow> Inr (Release (Literal (replace_quotes unquoted))))))"

section \<open>The language\<close>

text \<open>The queries the grammar describes, each with its statement; \<open>escape\<close> doubles the quotes.\<close>

definition blank :: "string \<Rightarrow> bool" where
  "blank w \<longleftrightarrow> list_all ws w"

definition ci :: "string \<Rightarrow> string \<Rightarrow> bool" where
  "ci k p \<longleftrightarrow> map lower k = map lower p"

definition escape :: "string \<Rightarrow> string" where
  "escape v = concat (map (\<lambda>c. if c = QUOTE then [QUOTE, QUOTE] else [c]) v)"

definition closing :: "string \<Rightarrow> bool" where
  "closing s \<longleftrightarrow> blank s \<or> (\<exists>w w'. blank w \<and> blank w' \<and> s = w @ '';'' @ w')"

definition argument_text :: "LeaseArgument \<Rightarrow> string \<Rightarrow> bool" where
  "argument_text arg s \<longleftrightarrow>
     (case arg of
        Literal v \<Rightarrow> s = QUOTE # escape v @ [QUOTE]
      | Parameter i \<Rightarrow> i = 0 \<and>
          (s = ''$1'' \<or> (\<exists>w w' k. blank w \<and> blank w' \<and> ci k ''text'' \<and> s = ''$1'' @ w @ ''::'' @ w' @ k)))"

inductive control_query :: "PgTestQueryTypeControlStatement \<Rightarrow> string \<Rightarrow> bool" where
  ping_query: "blank w0 \<Longrightarrow> ci k ''SELECT'' \<Longrightarrow> blank w1 \<Longrightarrow> w1 \<noteq> [] \<Longrightarrow> closing e \<Longrightarrow>
     control_query Ping (w0 @ k @ w1 @ ''1'' @ e)"
| release_query: "blank w0 \<Longrightarrow> ci k ''SELECT'' \<Longrightarrow> blank w1 \<Longrightarrow> w1 \<noteq> [] \<Longrightarrow> ci f ''pgtest_release'' \<Longrightarrow>
     blank w2 \<Longrightarrow> blank w3 \<Longrightarrow> argument_text arg a \<Longrightarrow> blank w4 \<Longrightarrow> closing e \<Longrightarrow>
     control_query (Release arg) (w0 @ k @ w1 @ f @ w2 @ ''('' @ w3 @ a @ w4 @ '')'' @ e)"

section \<open>Terminals\<close>

lemma tok_Some: "tok p s = Some r \<longleftrightarrow> s = p @ r"
  by (metis (no_types, lifting) append_eq_conv_conj append_take_drop_id option.distinct(1) option.inject tok_def)

lemma tok_ci_Some: "tok_ci p s = Some r \<longleftrightarrow> (\<exists>k. s = k @ r \<and> ci k p)"
proof
  assume "tok_ci p s = Some r"
  then show "\<exists>k. s = k @ r \<and> ci k p"
    by (intro exI [of _ "take (length p) s"]) (auto simp: tok_ci_def ci_def split: if_splits)
next
  assume "\<exists>k. s = k @ r \<and> ci k p"
  then obtain k where "s = k @ r" "ci k p" by blast
  moreover have "length k = length p" using \<open>ci k p\<close> unfolding ci_def by (metis length_map)
  ultimately show "tok_ci p s = Some r" by (simp add: tok_ci_def ci_def)
qed

lemma skip_ws_split: "\<exists>w. blank w \<and> s = w @ skip_ws s"
  unfolding skip_ws_def blank_def list_all_iff
  by (metis set_takeWhileD takeWhile_dropWhile_id)

lemma skip_ws_blank [simp]: "blank w \<Longrightarrow> skip_ws (w @ s) = skip_ws s"
  by (simp add: skip_ws_def blank_def list_all_iff dropWhile_append)

lemma skip_ws_all [simp]: "skip_ws s = [] \<longleftrightarrow> blank s"
  by (simp add: skip_ws_def blank_def list_all_iff)

lemma skip_ws_start: "s \<noteq> [] \<Longrightarrow> \<not> ws (hd s) \<Longrightarrow> skip_ws s = s"
  by (cases s) (simp_all add: skip_ws_def)

lemma ws1_Some: "ws1 s = Some r \<longleftrightarrow> s \<noteq> [] \<and> ws (hd s) \<and> r = skip_ws s"
  by (auto simp: ws1_def)

lemma ws1_split:
  assumes "ws1 s = Some r"
  obtains w where "blank w" "w \<noteq> []" "s = w @ r" "skip_ws r = r"
proof -
  from assms have s: "s \<noteq> []" "ws (hd s)" "r = skip_ws s" by (simp_all add: ws1_Some)
  from skip_ws_split [of s] obtain w where w: "blank w" "s = w @ skip_ws s" by blast
  have "skip_ws r = r" using s(3) by (simp add: skip_ws_def)
  moreover have "w \<noteq> []" using w(2) s unfolding skip_ws_def
    by (metis append_Nil hd_dropWhile)
  ultimately show thesis using that w s(3) by simp
qed

lemma ws1_blank: "blank w \<Longrightarrow> w \<noteq> [] \<Longrightarrow> ws1 (w @ s) = Some (skip_ws s)"
  by (cases w) (simp_all add: ws1_Some blank_def, simp add: skip_ws_def list_all_iff dropWhile_append)

lemma query_end_iff: "query_end s \<longleftrightarrow> closing s"
proof
  assume "query_end s"
  moreover obtain w where "blank w" "s = w @ skip_ws s" using skip_ws_split by blast
  ultimately show "closing s"
    by (auto simp: query_end_def closing_def tok_Some split: option.splits)
next
  assume "closing s"
  then show "query_end s"
  proof (unfold closing_def, elim disjE exE conjE)
    assume "blank s"
    then have e: "skip_ws s = []" by simp
    show ?thesis unfolding query_end_def e by (simp add: tok_def)
  next
    fix w w' assume "blank w" "blank w'" "s = w @ '';'' @ w'"
    moreover have "skip_ws ('';'' @ w') = '';'' @ w'" by (rule skip_ws_start) (simp_all add: ws_def)
    ultimately show ?thesis by (simp add: query_end_def tok_def)
  qed
qed

section \<open>Literals\<close>

lemma escape_simps [simp]:
  "escape [] = []"
  "escape (c # v) = (if c = QUOTE then [QUOTE, QUOTE] else [c]) @ escape v"
  by (simp_all add: escape_def)

lemma replace_escape: "replace_quotes (escape v) = v"
proof (induction v)
  case (Cons c v)
  show ?case
  proof (cases "c = QUOTE")
    case True
    with Cons show ?thesis by simp
  next
    case False
    have "replace_quotes (c # t) = c # replace_quotes t" for t using False by (cases t) simp_all
    with Cons False show ?thesis by simp
  qed
qed simp

lemma literal_body_split:
  "literal_body s = (body, rest) \<Longrightarrow>
     \<exists>v. body = escape v \<and> s = body @ rest \<and> (rest = [] \<or> (\<exists>t. rest = QUOTE # t \<and> (t = [] \<or> hd t \<noteq> QUOTE)))"
proof (induction s arbitrary: body rest rule: literal_body.induct)
  case 1
  then show ?case by (auto intro: exI [of _ "[]"])
next
  case (2 c s)
  show ?case
  proof (cases "c = QUOTE")
    case False
    obtain b r where br: "literal_body s = (b, r)" by (cases "literal_body s")
    with 2(3) False have eq: "body = c # b" "rest = r" by auto
    from 2(1) [OF False br] obtain v where "b = escape v" "s = b @ r"
      "r = [] \<or> (\<exists>t. r = QUOTE # t \<and> (t = [] \<or> hd t \<noteq> QUOTE))" by blast
    with eq False show ?thesis by (intro exI [of _ "c # v"]) auto
  next
    case True
    show ?thesis
    proof (cases s)
      case Nil
      with 2(3) True show ?thesis by (auto intro: exI [of _ "[]"])
    next
      case (Cons d t)
      show ?thesis
      proof (cases "d = QUOTE")
        case False
        with 2(3) True Cons show ?thesis by (auto intro: exI [of _ "[]"])
      next
        case dq: True
        obtain b r where br: "literal_body t = (b, r)" by (cases "literal_body t")
        with 2(3) True Cons dq have eq: "body = c # d # b" "rest = r" by auto
        from 2(2) [OF _ Cons dq br] True obtain v where "b = escape v" "t = b @ r"
          "r = [] \<or> (\<exists>t. r = QUOTE # t \<and> (t = [] \<or> hd t \<noteq> QUOTE))" by blast
        with eq True dq Cons show ?thesis by (intro exI [of _ "QUOTE # v"]) auto
      qed
    qed
  qed
qed

lemma literal_body_escape:
  assumes "t = [] \<or> hd t \<noteq> QUOTE"
  shows "literal_body (escape v @ QUOTE # t) = (escape v, QUOTE # t)"
proof (induction v)
  case Nil
  from assms show ?case by (cases t) simp_all
qed simp

lemma text_literal_Some:
  "text_literal s = Some (raw, rest) \<longleftrightarrow>
     (\<exists>v. raw = QUOTE # escape v @ [QUOTE] \<and> s = raw @ rest \<and> (rest = [] \<or> hd rest \<noteq> QUOTE))"
proof
  assume "text_literal s = Some (raw, rest)"
  then obtain s1 where s1: "s = QUOTE # s1" "snd (literal_body s1) = QUOTE # rest"
    "raw = QUOTE # fst (literal_body s1) @ [QUOTE]"
    by (auto simp: text_literal_def bind_eq_Some_conv tok_Some case_prod_beta Let_def)
  then obtain body s2 where s: "s = QUOTE # s1" "literal_body s1 = (body, s2)" "s2 = QUOTE # rest"
    "raw = QUOTE # body @ [QUOTE]"
    by (metis prod.collapse)
  with literal_body_split [OF s(2)] show "\<exists>v. raw = QUOTE # escape v @ [QUOTE] \<and> s = raw @ rest \<and>
      (rest = [] \<or> hd rest \<noteq> QUOTE)"
    by auto
next
  assume "\<exists>v. raw = QUOTE # escape v @ [QUOTE] \<and> s = raw @ rest \<and> (rest = [] \<or> hd rest \<noteq> QUOTE)"
  then obtain v where v: "raw = QUOTE # escape v @ [QUOTE]" "s = raw @ rest" "rest = [] \<or> hd rest \<noteq> QUOTE"
    by blast
  have "tok [QUOTE] s = Some (escape v @ QUOTE # rest)" "tok [QUOTE] (QUOTE # rest) = Some rest"
    using v(1,2) by (simp_all add: tok_Some)
  with literal_body_escape [OF v(3), of v] v(1) show "text_literal s = Some (raw, rest)"
    by (simp add: text_literal_def)
qed

section \<open>Arguments\<close>

lemma ws_lower: "ws c \<Longrightarrow> lower c = c"
  by (auto simp: ws_def lower_def)

lemma lower_letters:
  "lower CHR ''S'' = CHR ''s''" "lower CHR ''p'' = CHR ''p''" "lower CHR ''t'' = CHR ''t''"
  "lower CHR ''1'' = CHR ''1''"
  by code_simp+

lemma not_ws_letters: "\<not> ws CHR ''s''" "\<not> ws CHR ''p''" "\<not> ws CHR ''t''"
  by (simp_all add: ws_def)

lemma ci_start:
  assumes "ci k (c # p)" "\<not> ws (lower c)"
  shows "k \<noteq> []" "\<not> ws (hd k)" "lower (hd k) = lower c"
proof -
  from assms(1) show k: "k \<noteq> []" by (auto simp: ci_def)
  with assms(1) show h: "lower (hd k) = lower c" by (cases k) (simp_all add: ci_def)
  show "\<not> ws (hd k)" using h assms(2) ws_lower by metis
qed

lemma skip_ws_word: "ci k (c # p) \<Longrightarrow> \<not> ws (lower c) \<Longrightarrow> skip_ws (k @ s) = k @ s"
  using ci_start [of k c p] by (intro skip_ws_start) simp_all

lemma ci_select: "ci k ''SELECT'' \<Longrightarrow> skip_ws (k @ s) = k @ s"
  by (rule skip_ws_word, assumption) (simp add: lower_letters not_ws_letters)

lemma ci_text: "ci k ''text'' \<Longrightarrow> skip_ws (k @ s) = k @ s"
  by (rule skip_ws_word, assumption) (simp add: lower_letters not_ws_letters)

lemma ci_release:
  assumes "ci f ''pgtest_release''"
  shows "skip_ws (f @ s) = f @ s" "tok ''1'' (f @ s) = None"
proof -
  have f: "f \<noteq> []" "lower (hd f) = CHR ''p''"
    using ci_start [OF assms] by (simp_all add: lower_letters not_ws_letters)
  show "skip_ws (f @ s) = f @ s"
    by (rule skip_ws_word [OF assms]) (simp add: lower_letters not_ws_letters)
  have "hd f \<noteq> CHR ''1''" using f(2) lower_letters(4) by auto
  with f(1) show "tok ''1'' (f @ s) = None" by (cases f) (simp_all add: tok_def)
qed

text \<open>What the rule for the argument leaves for the decoding.\<close>

definition raw_of :: "LeaseArgument \<Rightarrow> string option" where
  "raw_of arg = (case arg of Literal v \<Rightarrow> Some (QUOTE # escape v @ [QUOTE]) | Parameter i \<Rightarrow> None)"

lemma cast_rule_sound:
  assumes "cast_rule s = Some rest"
  shows "\<exists>w w' k. blank w \<and> blank w' \<and> ci k ''text'' \<and> s = w @ ''::'' @ w' @ k @ rest"
proof -
  from assms obtain s1 where s1: "skip_ws s = ''::'' @ s1" "tok_ci ''text'' (skip_ws s1) = Some rest"
    by (auto simp: cast_rule_def bind_eq_Some_conv tok_Some)
  then obtain k where k: "skip_ws s1 = k @ rest" "ci k ''text''" by (auto simp: tok_ci_Some)
  obtain w w' where "blank w" "s = w @ skip_ws s" "blank w'" "s1 = w' @ skip_ws s1"
    using skip_ws_split by metis
  with s1(1) k show ?thesis by metis
qed

lemma argument_rule_sound:
  assumes "argument_rule s = Some (raw, rest)"
  shows "\<exists>arg a. s = a @ rest \<and> argument_text arg a \<and> raw = raw_of arg"
proof (cases "text_literal s")
  case (Some p)
  then obtain r t where p: "text_literal s = Some (r, t)" by (cases p) auto
  with assms have eq: "raw = Some r" "rest = t" by (simp_all add: argument_rule_def)
  from p obtain v where "r = QUOTE # escape v @ [QUOTE]" "s = r @ t" by (auto simp: text_literal_Some)
  with eq show ?thesis by (intro exI [of _ "Literal v"] exI [of _ r]) (simp add: argument_text_def raw_of_def)
next
  case None
  with assms have raw: "raw = None" and "parameter_rule s = Some rest"
    by (auto simp: argument_rule_def bind_eq_Some_conv)
  then obtain s1 where s1: "s = ''$1'' @ s1" "rest = (case cast_rule s1 of None \<Rightarrow> s1 | Some s2 \<Rightarrow> s2)"
    by (auto simp: parameter_rule_def bind_eq_Some_conv tok_Some)
  show ?thesis
  proof (cases "cast_rule s1")
    case None
    with s1 raw show ?thesis
      by (intro exI [of _ "Parameter 0"] exI [of _ "''$1''"]) (simp add: argument_text_def raw_of_def)
  next
    case (Some s2)
    with cast_rule_sound [OF Some] s1 obtain w w' k where
      "blank w" "blank w'" "ci k ''text''" "s1 = w @ ''::'' @ w' @ k @ rest" by auto
    with s1(1) raw show ?thesis
      by (intro exI [of _ "Parameter 0"] exI [of _ "''$1'' @ w @ ''::'' @ w' @ k"])
        (auto simp: argument_text_def raw_of_def)
  qed
qed

lemma argument_rule_complete:
  assumes "argument_text arg a" "blank w"
  shows "argument_rule (a @ w @ '')'' @ e) = Some (raw_of arg, w @ '')'' @ e)"
proof (cases arg)
  case (Literal v)
  have "hd (w @ '')'' @ e) \<noteq> QUOTE"
    using assms(2) by (cases w) (auto simp: QUOTE_def blank_def ws_def)
  then have "text_literal (a @ w @ '')'' @ e) = Some (a, w @ '')'' @ e)"
    using assms(1) Literal by (auto simp: text_literal_Some argument_text_def)
  with assms(1) Literal show ?thesis by (simp add: argument_rule_def raw_of_def argument_text_def)
next
  case (Parameter i)
  let ?rest = "w @ '')'' @ e"
  have close: "skip_ws ?rest = '')'' @ e"
    using assms(2) skip_ws_start [of "'')'' @ e"] by (simp add: ws_def)
  have "parameter_rule (a @ ?rest) = Some ?rest"
  proof (cases "a = ''$1''")
    case True
    have "cast_rule ?rest = None" unfolding cast_rule_def close by (simp add: tok_def)
    with True show ?thesis by (simp add: parameter_rule_def tok_def)
  next
    case False
    then obtain u u' k where u: "blank u" "blank u'" "ci k ''text''" "a = ''$1'' @ u @ ''::'' @ u' @ k"
      using assms(1) Parameter by (auto simp: argument_text_def)
    have "skip_ws (u @ ''::'' @ u' @ k @ ?rest) = ''::'' @ u' @ k @ ?rest"
      using u(1) skip_ws_start [of "''::'' @ u' @ k @ ?rest"] by (simp add: ws_def)
    moreover have "skip_ws (u' @ k @ ?rest) = k @ ?rest" using u(2) ci_text [OF u(3)] by simp
    moreover have "tok_ci ''text'' (k @ ?rest) = Some ?rest" using u(3) by (auto simp: tok_ci_Some)
    ultimately have "cast_rule (u @ ''::'' @ u' @ k @ ?rest) = Some ?rest"
      by (simp add: cast_rule_def tok_def)
    moreover have "tok ''$1'' (a @ ?rest) = Some (u @ ''::'' @ u' @ k @ ?rest)" using u(4) by (simp add: tok_Some)
    ultimately show ?thesis by (simp add: parameter_rule_def)
  qed
  moreover have "text_literal (a @ ?rest) = None"
    using assms(1) Parameter by (auto simp: text_literal_def tok_def QUOTE_def argument_text_def)
  ultimately show ?thesis using Parameter by (simp add: argument_rule_def raw_of_def)
qed

section \<open>Queries\<close>

lemma ping_rule_Some:
  "ping_rule s = Some r \<longleftrightarrow> (\<exists>k w. ci k ''SELECT'' \<and> blank w \<and> w \<noteq> [] \<and> s = k @ w @ ''1'' @ r)"
proof
  assume "ping_rule s = Some r"
  then obtain k s1 where "s = k @ s1" "ci k ''SELECT''" "ws1 s1 = Some (''1'' @ r)"
    by (auto simp: ping_rule_def bind_eq_Some_conv tok_Some tok_ci_Some)
  with ws1_split show "\<exists>k w. ci k ''SELECT'' \<and> blank w \<and> w \<noteq> [] \<and> s = k @ w @ ''1'' @ r" by metis
next
  assume "\<exists>k w. ci k ''SELECT'' \<and> blank w \<and> w \<noteq> [] \<and> s = k @ w @ ''1'' @ r"
  then obtain k w where s: "ci k ''SELECT''" "blank w" "w \<noteq> []" "s = k @ w @ ''1'' @ r" by blast
  have "tok_ci ''SELECT'' s = Some (w @ ''1'' @ r)" using s by (auto simp: tok_ci_Some)
  moreover have "ws1 (w @ ''1'' @ r) = Some (''1'' @ r)"
    using ws1_blank [OF s(2,3)] skip_ws_start [of "''1'' @ r"] by (simp add: ws_def)
  ultimately show "ping_rule s = Some r" by (simp add: ping_rule_def tok_def)
qed

lemma release_rule_sound:
  assumes "release_rule s = Some (raw, rest)"
  shows "\<exists>k w1 f w2 w3 arg a w4. ci k ''SELECT'' \<and> blank w1 \<and> w1 \<noteq> [] \<and> ci f ''pgtest_release'' \<and> blank w2 \<and>
     blank w3 \<and> argument_text arg a \<and> blank w4 \<and> raw = raw_of arg \<and>
     s = k @ w1 @ f @ w2 @ ''('' @ w3 @ a @ w4 @ '')'' @ rest"
proof -
  from assms obtain s1 s2 s3 s4 s5 where st: "tok_ci ''SELECT'' s = Some s1" "ws1 s1 = Some s2"
    "tok_ci ''pgtest_release'' s2 = Some s3" "skip_ws s3 = ''('' @ s4"
    "argument_rule (skip_ws s4) = Some (raw, s5)" "skip_ws s5 = '')'' @ rest"
    by (auto simp: release_rule_def bind_eq_Some_conv tok_Some)
  obtain k f where s: "s = k @ s1" "ci k ''SELECT''" "s2 = f @ s3" "ci f ''pgtest_release''"
    using st(1,3) by (auto simp: tok_ci_Some)
  obtain w1 where w1: "blank w1" "w1 \<noteq> []" "s1 = w1 @ s2" using st(2) by (rule ws1_split)
  obtain arg a where a: "skip_ws s4 = a @ s5" "argument_text arg a" "raw = raw_of arg"
    using argument_rule_sound [OF st(5)] by blast
  obtain w2 where w2: "blank w2" "s3 = w2 @ ''('' @ s4" using skip_ws_split [of s3] st(4) by metis
  obtain w3 where w3: "blank w3" "s4 = w3 @ a @ s5" using skip_ws_split [of s4] a(1) by metis
  obtain w4 where w4: "blank w4" "s5 = w4 @ '')'' @ rest" using skip_ws_split [of s5] st(6) by metis
  have "s = k @ w1 @ f @ w2 @ ''('' @ w3 @ a @ w4 @ '')'' @ rest"
    by (simp add: s w1(3) w2(2) w3(2) w4(2))
  with s w1 w2 w3 w4 a show ?thesis by blast
qed

lemma release_rule_complete:
  assumes "ci k ''SELECT''" "blank w1" "w1 \<noteq> []" "ci f ''pgtest_release''" "blank w2" "blank w3"
    and "argument_text arg a" "blank w4"
  shows "release_rule (k @ w1 @ f @ w2 @ ''('' @ w3 @ a @ w4 @ '')'' @ e) = Some (raw_of arg, e)"
    and "ping_rule (k @ w1 @ f @ w2 @ ''('' @ w3 @ a @ w4 @ '')'' @ e) = None"
proof -
  let ?s6 = "a @ w4 @ '')'' @ e"
  let ?s3 = "w2 @ ''('' @ w3 @ ?s6"
  have select: "tok_ci ''SELECT'' (k @ w1 @ f @ ?s3) = Some (w1 @ f @ ?s3)" using assms(1) by (auto simp: tok_ci_Some)
  have blanks: "ws1 (w1 @ f @ ?s3) = Some (f @ ?s3)"
    using ws1_blank [OF assms(2,3)] ci_release(1) [OF assms(4)] by simp
  have fn: "tok_ci ''pgtest_release'' (f @ ?s3) = Some ?s3" using assms(4) by (auto simp: tok_ci_Some)
  have paren: "skip_ws ?s3 = ''('' @ w3 @ ?s6"
    using assms(5) skip_ws_start [of "''('' @ w3 @ ?s6"] by (simp add: ws_def)
  have "?s6 \<noteq> []" "\<not> ws (hd ?s6)"
    using assms(7) by (auto simp: argument_text_def ws_def QUOTE_def split: LeaseArgument.splits)
  then have arg: "skip_ws (w3 @ ?s6) = ?s6" using assms(6) skip_ws_start by simp
  have close: "skip_ws (w4 @ '')'' @ e) = '')'' @ e"
    using assms(8) skip_ws_start [of "'')'' @ e"] by (simp add: ws_def)
  have "tok ''('' (''('' @ w3 @ ?s6) = Some (w3 @ ?s6)" "tok '')'' ('')'' @ e) = Some e" by (simp_all add: tok_Some)
  then show "release_rule (k @ w1 @ f @ w2 @ ''('' @ w3 @ a @ w4 @ '')'' @ e) = Some (raw_of arg, e)"
    using argument_rule_complete [OF assms(7,8), of e]
    unfolding release_rule_def select bind.bind_lunit blanks fn paren
    using arg close by simp
  show "ping_rule (k @ w1 @ f @ w2 @ ''('' @ w3 @ a @ w4 @ '')'' @ e) = None"
    unfolding ping_rule_def select bind.bind_lunit blanks by (rule ci_release(2) [OF assms(4)])
qed

lemma decode_raw:
  "Option.bind (strip_prefix QUOTE (QUOTE # escape v @ [QUOTE])) (strip_suffix QUOTE) = Some (escape v)"
  by (simp add: strip_prefix_def strip_suffix_def)

lemma argument_text_parameter: "argument_text (Parameter i) a \<Longrightarrow> i = 0"
  by (simp add: argument_text_def)

lemma parse_control_iff: "parse_control q = Inr st \<longleftrightarrow> control_query st q"
proof
  assume p: "parse_control q = Inr st"
  obtain w0 where w0: "blank w0" "q = w0 @ skip_ws q" using skip_ws_split by blast
  show "control_query st q"
  proof (cases "ping_rule (skip_ws q)")
    case (Some rest)
    then obtain k w where "ci k ''SELECT''" "blank w" "w \<noteq> []" "skip_ws q = k @ w @ ''1'' @ rest"
      by (auto simp: ping_rule_Some)
    moreover from p Some have "st = Ping" "closing rest"
      by (auto simp: parse_control_def query_end_iff split: if_splits)
    ultimately show ?thesis using w0 ping_query [of w0 k w rest] by metis
  next
    case None
    with p obtain raw rest where r: "release_rule (skip_ws q) = Some (raw, rest)"
      by (auto simp: parse_control_def Let_def split: option.splits)
    from release_rule_sound [OF r] obtain k w1 f w2 w3 arg a w4 where
      f: "ci k ''SELECT''" "blank w1" "w1 \<noteq> []" "ci f ''pgtest_release''" "blank w2" "blank w3"
        "argument_text arg a" "blank w4" "raw = raw_of arg"
        "skip_ws q = k @ w1 @ f @ w2 @ ''('' @ w3 @ a @ w4 @ '')'' @ rest" by blast
    have st: "st = Release arg" "closing rest"
      using p None r f(9) argument_text_parameter f(7)
      by (cases arg; auto simp: parse_control_def Let_def query_end_iff raw_of_def decode_raw replace_escape
          split: if_splits)+
    show ?thesis
      using release_query [OF w0(1) f(1-8) st(2)] w0(2) f(10) st(1) by simp
  qed
next
  assume "control_query st q"
  then show "parse_control q = Inr st"
  proof cases
    case (ping_query w0 k w1 e)
    have "skip_ws q = k @ w1 @ ''1'' @ e" using ping_query ci_select by simp
    then have "ping_rule (skip_ws q) = Some e" using ping_query by (auto simp: ping_rule_Some)
    with ping_query show ?thesis by (simp add: parse_control_def query_end_iff)
  next
    case (release_query w0 k w1 f w2 w3 arg a w4 e)
    have s: "skip_ws q = k @ w1 @ f @ w2 @ ''('' @ w3 @ a @ w4 @ '')'' @ e"
      using release_query ci_select by simp
    note r = release_rule_complete [OF release_query(4-11), of e]
    show ?thesis
      using r release_query(12) argument_text_parameter release_query(1,10)
      unfolding parse_control_def s Let_def
      by (cases arg) (auto simp: query_end_iff raw_of_def decode_raw replace_escape)
  qed
qed

text \<open>
  C30: the parser accepts exactly the queries of the control language and returns their statement:
  optional blanks, the keyword in any case, then either the digit one, or the function name in any
  case with one argument in parentheses, which is a string literal with its quotes doubled or the
  first parameter with an optional cast to text, and at the end at most one semicolon. In
  particular every lease identifier, whatever quotes it has, is read back from its escaped literal.
\<close>

theorem parse_control_correct: "parse_control q = Inr st \<longleftrightarrow> control_query st q"
  by (rule parse_control_iff)

end
