(* ===== verification/Control_Panel.thy ===== *)
theory Control_Panel
  imports Worker_Io Control_Statement
begin

text \<open>
  The control panel (crates/pgtest-wire/src/control_panel.rs with control_panel/protocol.rs and
  response.rs): the queries \<open>SELECT 1\<close> and \<open>SELECT pgtest_release(...)\<close> over the simple and the
  extended protocol of PostgreSQL. What belongs to the crate pgwire (the portal store, the decoding
  of parameters, the encoding of rows, the dispatch of messages) is a parameter. A release waits for
  the engine, so that a query either ends at once or leaves a receiver to be polled.
\<close>

section \<open>The vocabulary of the protocol\<close>

datatype pg_type = BOOL | INT4 | TEXT | OtherType u32

datatype FieldFormat = TextFormat | BinaryFormat

record FieldInfo =
  field_name :: string
  field_type :: pg_type
  field_format :: FieldFormat

datatype Response = QueryResponse "FieldInfo list" "u8 list list"

datatype 'e PgWireError =
    UserError string string string
  | StatementNotFound string
  | PgWireOther 'e

record StoredStatement =
  stored_id :: string
  stored_statement :: PgTestQueryTypeControlStatement
  stored_parameter_types :: "pg_type option list"

text \<open>A portal by what its methods return.\<close>

record 'e Portal =
  portal_name :: string
  portal_statement :: StoredStatement
  portal_parameter :: "nat \<Rightarrow> pg_type \<Rightarrow> 'e PgWireError + string option"
  parameter_len :: nat
  result_column_format :: "nat \<Rightarrow> FieldFormat"

datatype 'a Entry = EntryValue 'a | EntryEmpty

record Parse =
  parse_name :: "string option"
  parse_query :: string
  type_oids :: "u32 list"

record Bind =
  bind_portal_name :: "string option"
  bind_statement_name :: "string option"
  parameter_format_codes :: "u16 list"
  bind_parameters :: "u8 list option list"
  result_column_format_codes :: "u16 list"

datatype backend_message = ParseComplete | BindComplete

text \<open>
  What the panel calls of pgwire. \<open>'s\<close> is the portal store of a client. \<open>debug_str\<close> is the quoted
  form of a string in a message.
\<close>

record ('e, 's) pgwire =
  text_oid :: u32
  DEFAULT_NAME :: string
  debug_str :: "string \<Rightarrow> string"
  StoredStatement_parse ::
    "(string \<Rightarrow> pg_type option list \<Rightarrow> 'e PgWireError + PgTestQueryTypeControlStatement option) \<Rightarrow> Parse
       \<Rightarrow> 'e PgWireError + StoredStatement option"
  Portal_try_new :: "Bind \<Rightarrow> StoredStatement \<Rightarrow> 'e PgWireError + 'e Portal"
  encode_i32 :: "FieldInfo list \<Rightarrow> int \<Rightarrow> 'e PgWireError + u8 list"
  encode_bool :: "FieldInfo list \<Rightarrow> bool \<Rightarrow> 'e PgWireError + u8 list"
  get_statement :: "'s \<Rightarrow> string \<Rightarrow> StoredStatement Entry option"
  put_statement :: "StoredStatement \<Rightarrow> 's \<Rightarrow> 's"
  put_empty_statement :: "string \<Rightarrow> 's \<Rightarrow> 's"
  get_portal :: "'s \<Rightarrow> string \<Rightarrow> 'e Portal Entry option"
  put_portal :: "'e Portal \<Rightarrow> 's \<Rightarrow> 's"
  put_empty_portal :: "string \<Rightarrow> 's \<Rightarrow> 's"

section \<open>Responses\<close>

definition ping_schema :: "FieldFormat \<Rightarrow> FieldInfo list" where
  "ping_schema format = [\<lparr>field_name = ''?column?'', field_type = INT4, field_format = format\<rparr>]"

definition release_schema :: "FieldFormat \<Rightarrow> FieldInfo list" where
  "release_schema format = [\<lparr>field_name = ''pgtest_release'', field_type = BOOL, field_format = format\<rparr>]"

definition result_schema :: "PgTestQueryTypeControlStatement \<Rightarrow> FieldFormat \<Rightarrow> FieldInfo list" where
  "result_schema statement format =
     (case statement of Ping \<Rightarrow> ping_schema format | Release a \<Rightarrow> release_schema format)"

definition ping :: "('e, 's) pgwire \<Rightarrow> FieldFormat \<Rightarrow> 'e PgWireError + Response" where
  "ping pg format =
     (let schema = ping_schema format in
      bind_res (encode_i32 pg schema 1) (\<lambda>row. Inr (QueryResponse schema [row])))"

definition released :: "('e, 's) pgwire \<Rightarrow> FieldFormat \<Rightarrow> 'e PgWireError + Response" where
  "released pg format =
     (let schema = release_schema format in
      bind_res (encode_bool pg schema True) (\<lambda>row. Inr (QueryResponse schema [row])))"

definition user_error :: "string \<Rightarrow> string \<Rightarrow> 'e PgWireError" where
  "user_error code message = UserError ''ERROR'' code message"

definition unsupported_command :: "'e PgWireError" where
  "unsupported_command = user_error ''0A000'' ''command not support by the control panel''"

definition release_message :: "ReleaseError \<Rightarrow> string" where
  "release_message e =
     (case e of
        ReleaseInvalidLeaseId \<Rightarrow>
          ''lease ID must contain 1 to 256 UTF-8 bytes and cannot contain '' @
            [QUOTE, CHR ''/'', QUOTE] @ '' or NUL''
      | ReleaseLeaseRecordLimitReached \<Rightarrow> ''the lease record limit has been reached''
      | ReleaseEngineUnavailable \<Rightarrow> ''the worker engine is unavailable''
      | ReplyTimedOut \<Rightarrow> ''release acknowledgement timed out; retrying the same lease ID is safe''
      | UnexpectedReply \<Rightarrow> ''the worker engine returned an unexpected release reply'')"

definition release_error :: "ReleaseError \<Rightarrow> 'e PgWireError" where
  "release_error e =
     user_error
       (case e of
          ReleaseInvalidLeaseId \<Rightarrow> ''22023''
        | ReleaseLeaseRecordLimitReached \<Rightarrow> ''53400''
        | ReleaseEngineUnavailable \<Rightarrow> ''08006''
        | ReplyTimedOut \<Rightarrow> ''57014''
        | UnexpectedReply \<Rightarrow> ''XX000'')
       (release_message e)"

section \<open>Statements and their parameters\<close>

definition get_parameter_types :: "PgTestQueryTypeControlStatement \<Rightarrow> pg_type list" where
  "get_parameter_types statement =
     (case statement of Release (Parameter i) \<Rightarrow> [TEXT] | _ \<Rightarrow> [])"

definition get_result_schema ::
  "PgTestQueryTypeControlStatement \<Rightarrow> (nat \<Rightarrow> FieldFormat) option \<Rightarrow> FieldInfo list" where
  "get_result_schema statement column_format =
     result_schema statement (case column_format of None \<Rightarrow> TextFormat | Some f \<Rightarrow> f 0)"

definition parse_sql ::
  "string \<Rightarrow> pg_type option list \<Rightarrow> 'e PgWireError + PgTestQueryTypeControlStatement option" where
  "parse_sql sql types =
     (case parse_control sql of
        Inl e \<Rightarrow> Inl unsupported_command
      | Inr statement \<Rightarrow>
          (case statement of
             Release (Parameter index) \<Rightarrow>
               (let expected = length (get_parameter_types statement) in
                if length types > expected
                then Inl (user_error ''0A000'' (''Expected '' @ show_nat expected @
                       '' bound parameters, received '' @ show_nat (length types)))
                else if index < length types \<and> types ! index \<noteq> None \<and> types ! index \<noteq> Some TEXT
                then Inl (user_error ''42804'' ''pgtest_release expected text argument'')
                else Inr (Some statement))
           | _ \<Rightarrow>
               if types \<noteq> [] then Inl (user_error ''42804'' ''Parameters not expect for ping command'')
               else Inr (Some statement)))"

definition parse_lease_id :: "string \<Rightarrow> 'e PgWireError + LeaseId" where
  "parse_lease_id lease =
     (case LeaseId_new lease of Inl e \<Rightarrow> Inl (release_error ReleaseInvalidLeaseId) | Inr l \<Rightarrow> Inr l)"

definition resolve_lease_id :: "LeaseArgument \<Rightarrow> 'e Portal \<Rightarrow> 'e PgWireError + LeaseId" where
  "resolve_lease_id argument portal =
     bind_res
       (case argument of
          Literal literal \<Rightarrow> Inr literal
        | Parameter index \<Rightarrow>
            bind_res (portal_parameter portal index TEXT) (\<lambda>v. case v of
              None \<Rightarrow> Inl (user_error ''22004'' ''Lease ID cannot be NULL'')
            | Some s \<Rightarrow> Inr s))
       parse_lease_id"

definition validate_format_codes :: "u16 list \<Rightarrow> string \<Rightarrow> 'e PgWireError + unit" where
  "validate_format_codes codes kind =
     (if length codes > 1
      then Inl (user_error ''08P01'' (''Expected 1 or 0 '' @ kind @ '' format codes, received '' @ show_nat (length codes)))
      else if codes \<noteq> [] \<and> hd codes \<noteq> 0 \<and> hd codes \<noteq> 1
      then Inl (user_error ''08P01'' (''Expected '' @ kind @ '' format code to be text or binary''))
      else Inr ())"

section \<open>Queries\<close>

text \<open>A query that has ended, or one that waits on a receiver for the release.\<close>

datatype ('e, 'a) query_state = Finished "'e PgWireError + 'a" | AwaitRelease nat FieldFormat

text \<open>The two halves of \<open>release\<close>, around its suspension.\<close>

definition panel_release ::
  "LeaseId \<Rightarrow> FieldFormat \<Rightarrow> WorkerEngineManager \<Rightarrow> ('e, 'a) query_state \<times> WorkerEngineManager" where
  "panel_release lease format w =
     (case release_request lease w of
        (Inl e, w') \<Rightarrow> (Finished (Inl (release_error e)), w')
      | (Inr ch, w') \<Rightarrow> (AwaitRelease ch format, w'))"

definition panel_resume ::
  "('e, 's) pgwire \<Rightarrow> (Response \<Rightarrow> 'a) \<Rightarrow> nat \<Rightarrow> FieldFormat \<Rightarrow> WorkerEngineManager
     \<Rightarrow> ('e, 'a) query_state \<times> WorkerEngineManager" where
  "panel_resume pg k ch format w =
     (case release_await ch w of
        (Pending, w') \<Rightarrow> (AwaitRelease ch format, w')
      | (Ready (Inl e), w') \<Rightarrow> (Finished (Inl (release_error e)), w')
      | (Ready (Inr u), w') \<Rightarrow> (Finished (bind_res (released pg format) (\<lambda>r. Inr (k r))), w'))"

definition simple_do_query ::
  "('e, 's) pgwire \<Rightarrow> string \<Rightarrow> WorkerEngineManager \<Rightarrow> ('e, Response list) query_state \<times> WorkerEngineManager" where
  "simple_do_query pg query w =
     (case parse_control query of
        Inl e \<Rightarrow> (Finished (Inl unsupported_command), w)
      | Inr Ping \<Rightarrow> (Finished (bind_res (ping pg TextFormat) (\<lambda>r. Inr [r])), w)
      | Inr (Release (Literal lease)) \<Rightarrow>
          (case parse_lease_id lease of
             Inl e \<Rightarrow> (Finished (Inl e), w)
           | Inr l \<Rightarrow> panel_release l TextFormat w)
      | Inr (Release (Parameter i)) \<Rightarrow>
          (Finished (Inl (user_error ''42P02'' ''parameters require the extended query protocol'')), w))"

definition extended_do_query ::
  "('e, 's) pgwire \<Rightarrow> 'e Portal \<Rightarrow> WorkerEngineManager \<Rightarrow> ('e, Response) query_state \<times> WorkerEngineManager" where
  "extended_do_query pg portal w =
     (let statement = stored_statement (portal_statement portal);
          expected = length (get_parameter_types statement) in
      if parameter_len portal \<noteq> expected
      then (Finished (Inl (user_error ''08P01'' (''Expected '' @ show_nat expected @
              '' bound parameters, received '' @ show_nat (parameter_len portal)))), w)
      else
        let format = result_column_format portal 0 in
        case statement of
          Ping \<Rightarrow> (Finished (ping pg format), w)
        | Release argument \<Rightarrow>
            (case resolve_lease_id argument portal of
               Inl e \<Rightarrow> (Finished (Inl e), w)
             | Inr l \<Rightarrow> panel_release l format w))"

section \<open>Parse and Bind\<close>

text \<open>The store after the message, the acknowledgement sent last; \<open>send\<close> says whether sending works.\<close>

definition on_parse ::
  "('e, 's) pgwire \<Rightarrow> (backend_message \<Rightarrow> 'e PgWireError + unit) \<Rightarrow> Parse \<Rightarrow> 's
     \<Rightarrow> ('e PgWireError + unit) \<times> 's" where
  "on_parse pg send message store =
     (if list_ex (\<lambda>oid. oid \<noteq> 0 \<and> oid \<noteq> text_oid pg) (type_oids message)
      then (Inl (user_error ''42804'' ''pgtest_release requires a TEXT parameter''), store)
      else
        let name = (case parse_name message of None \<Rightarrow> DEFAULT_NAME pg | Some n \<Rightarrow> n) in
        case StoredStatement_parse pg parse_sql message of
          Inl e \<Rightarrow> (Inl e, store)
        | Inr (Some statement) \<Rightarrow> (send ParseComplete, put_statement pg statement store)
        | Inr None \<Rightarrow> (send ParseComplete, put_empty_statement pg name store))"

definition on_bind ::
  "('e, 's) pgwire \<Rightarrow> (backend_message \<Rightarrow> 'e PgWireError + unit) \<Rightarrow> Bind \<Rightarrow> 's
     \<Rightarrow> ('e PgWireError + unit) \<times> 's" where
  "on_bind pg send message store =
     (case validate_format_codes (parameter_format_codes message) ''parameter'' of
        Inl e \<Rightarrow> (Inl e, store)
      | Inr u \<Rightarrow>
     (case validate_format_codes (result_column_format_codes message) ''result column'' of
        Inl e \<Rightarrow> (Inl e, store)
      | Inr u \<Rightarrow>
     (let statement_name = (case bind_statement_name message of None \<Rightarrow> DEFAULT_NAME pg | Some n \<Rightarrow> n);
          portal_name = (case bind_portal_name message of None \<Rightarrow> DEFAULT_NAME pg | Some n \<Rightarrow> n);
          received = length (bind_parameters message) in
      case get_statement pg store statement_name of
        Some (EntryValue statement) \<Rightarrow>
          (let expected = length (get_parameter_types (stored_statement statement)) in
           if received \<noteq> expected
           then (Inl (user_error ''08P01'' (''Expected '' @ show_nat expected @
                   '' bind parameters, received '' @ show_nat received)), store)
           else case Portal_try_new pg message statement of
                  Inl e \<Rightarrow> (Inl e, store)
                | Inr portal \<Rightarrow>
                    (case (case stored_statement statement of
                             Release argument \<Rightarrow> bind_res (resolve_lease_id argument portal) (\<lambda>l. Inr ())
                           | Ping \<Rightarrow> Inr ()) of
                       Inl e \<Rightarrow> (Inl e, store)
                     | Inr u \<Rightarrow> (send BindComplete, put_portal pg portal store)))
      | Some EntryEmpty \<Rightarrow>
          if bind_parameters message \<noteq> []
          then (Inl (user_error ''08P01'' (''bind message supplies '' @ show_nat received @
                  '' parameters, but prepared statement '' @ debug_str pg statement_name @ '' requires 0'')), store)
          else (send BindComplete, put_empty_portal pg portal_name store)
      | None \<Rightarrow> (Inl (StatementNotFound statement_name), store))))"

section \<open>The service loop\<close>

text \<open>What the loop calls of pgwire: \<open>'c\<close> is the connection, \<open>'m\<close> a message of the client.\<close>

record ('x, 'io, 'm, 'c) panel_io =
  on_startup :: "'c \<Rightarrow> ('x + unit) \<times> 'c"
  process_message :: "'m \<Rightarrow> 'c \<Rightarrow> ('x + unit) \<times> 'c"
  process_error :: "'x \<Rightarrow> bool \<Rightarrow> 'c \<Rightarrow> ('io + unit) \<times> 'c"
  is_terminate :: "'m \<Rightarrow> bool"
  is_extended_query :: "'m \<Rightarrow> bool"

fun serve_messages ::
  "('x, 'io, 'm, 'c) panel_io \<Rightarrow> ('io + 'm) list \<Rightarrow> 'c \<Rightarrow> ('io + unit) \<times> 'c" where
  "serve_messages io [] c = (Inr (), c)"
| "serve_messages io (Inl e # rest) c = (Inl e, c)"
| "serve_messages io (Inr m # rest) c =
     (if is_terminate io m then (Inr (), c)
      else case process_message io m c of
             (Inr u, c1) \<Rightarrow> serve_messages io rest c1
           | (Inl e, c1) \<Rightarrow>
               (case process_error io e (is_extended_query io m) c1 of
                  (Inl x, c2) \<Rightarrow> (Inl x, c2)
                | (Inr u, c2) \<Rightarrow> serve_messages io rest c2))"

definition serve :: "('x, 'io, 'm, 'c) panel_io \<Rightarrow> ('io + 'm) list \<Rightarrow> 'c \<Rightarrow> ('io + unit) \<times> 'c" where
  "serve io messages c =
     (case on_startup io c of
        (Inl e, c1) \<Rightarrow>
          (case process_error io e False c1 of (Inl x, c2) \<Rightarrow> (Inl x, c2) | (Inr u, c2) \<Rightarrow> (Inr (), c2))
      | (Inr u, c1) \<Rightarrow> serve_messages io messages c1)"

text \<open>Nothing behind a Terminate message or a broken connection is handled.\<close>

lemma serve_messages_stops:
  "isl x \<or> is_terminate io (projr x) \<Longrightarrow>
     serve_messages io (pre @ x # later) c = serve_messages io (pre @ [x]) c"
  by (induction io pre c rule: serve_messages.induct) (cases x; auto split: prod.splits sum.splits)+

section \<open>Sessions of the extended protocol\<close>

text \<open>
  The documented behaviour of pgwire on which the panel relies: storing a statement leaves the
  portals alone, a portal is found as it was stored, and a portal keeps the statement and the number
  of parameters it was bound with.
\<close>

definition store_laws :: "('e, 's) pgwire \<Rightarrow> bool" where
  "store_laws pg \<longleftrightarrow>
     (\<forall>st s. get_portal pg (put_statement pg st s) = get_portal pg s) \<and>
     (\<forall>n s. get_portal pg (put_empty_statement pg n s) = get_portal pg s) \<and>
     (\<forall>p n s. get_portal pg (put_portal pg p s) n = Some (EntryValue p) \<or>
        get_portal pg (put_portal pg p s) n = get_portal pg s n) \<and>
     (\<forall>m n s. get_portal pg (put_empty_portal pg m s) n = Some EntryEmpty \<or>
        get_portal pg (put_empty_portal pg m s) n = get_portal pg s n) \<and>
     (\<forall>m st p. Portal_try_new pg m st = Inr p \<longrightarrow>
        portal_statement p = st \<and> parameter_len p = length (bind_parameters m))"

text \<open>
  The stores of a client: Parse and Bind messages in any order, and whatever else pgwire does, which
  only removes portals (Close, Sync and the simple query).
\<close>

inductive panel_store :: "('e, 's) pgwire \<Rightarrow> 's \<Rightarrow> bool" for pg where
  empty_store: "(\<And>n. get_portal pg s n = None) \<Longrightarrow> panel_store pg s"
| parse_step: "panel_store pg s \<Longrightarrow> panel_store pg (snd (on_parse pg send m s))"
| bind_step: "panel_store pg s \<Longrightarrow> panel_store pg (snd (on_bind pg send m s))"
| close_step: "panel_store pg s \<Longrightarrow> (\<And>n p. get_portal pg s' n = Some p \<Longrightarrow> get_portal pg s n = Some p)
     \<Longrightarrow> panel_store pg s'"

definition portal_ok :: "'e Portal \<Rightarrow> bool" where
  "portal_ok p \<longleftrightarrow>
     parameter_len p = length (get_parameter_types (stored_statement (portal_statement p))) \<and>
     (case stored_statement (portal_statement p) of
        Ping \<Rightarrow> True | Release argument \<Rightarrow> \<not> isl (resolve_lease_id argument p))"

lemma on_parse_portals:
  "store_laws pg \<Longrightarrow> get_portal pg (snd (on_parse pg send m s)) = get_portal pg s"
  by (auto simp: on_parse_def store_laws_def Let_def split: sum.splits option.splits)

lemma on_bind_cases:
  fixes pg :: "('e, 's) pgwire"
  obtains (kept) "snd (on_bind pg send m s) = s"
  | (emptied) k where "snd (on_bind pg send m s) = put_empty_portal pg k s"
  | (bound) q st where "snd (on_bind pg send m s) = put_portal pg q s" "Portal_try_new pg m st = Inr q"
      "length (bind_parameters m) = length (get_parameter_types (stored_statement st))"
      "case stored_statement st of Ping \<Rightarrow> True | Release argument \<Rightarrow> \<not> isl (resolve_lease_id argument q)"
proof (cases "validate_format_codes (parameter_format_codes m) ''parameter'' :: 'e PgWireError + unit")
  case (Inr u)
  note format = this
  show thesis
  proof (cases "validate_format_codes (result_column_format_codes m) ''result column'' :: 'e PgWireError + unit")
    case (Inr u)
    let ?n = "case bind_statement_name m of None \<Rightarrow> DEFAULT_NAME pg | Some n \<Rightarrow> n"
    consider (none) "get_statement pg s ?n = None" | (empty) "get_statement pg s ?n = Some EntryEmpty"
      | (entry) st where "get_statement pg s ?n = Some (EntryValue st)"
      by (metis Entry.exhaust option.exhaust)
    then show thesis
    proof cases
      case none
      with Inr format show thesis by (intro kept) (simp add: on_bind_def Let_def)
    next
      case empty
      with Inr format show thesis by (cases "bind_parameters m") (auto simp: on_bind_def Let_def intro: kept emptied)
    next
      case (entry st)
      show thesis
      proof (cases "length (bind_parameters m) = length (get_parameter_types (stored_statement st)) \<and>
          (\<exists>q. Portal_try_new pg m st = Inr q \<and> (case stored_statement st of Ping \<Rightarrow> True
             | Release argument \<Rightarrow> \<not> isl (resolve_lease_id argument q)))")
        case True
        then obtain q where q: "length (bind_parameters m) = length (get_parameter_types (stored_statement st))"
          "Portal_try_new pg m st = Inr q"
          "case stored_statement st of Ping \<Rightarrow> True | Release argument \<Rightarrow> \<not> isl (resolve_lease_id argument q)"
          by blast
        then have "snd (on_bind pg send m s) = put_portal pg q s"
          using Inr format entry
          by (auto simp: on_bind_def Let_def bind_res_def isl_def
              split: PgTestQueryTypeControlStatement.splits sum.splits)
        with q show thesis by (intro bound) auto
      next
        case False
        then have "snd (on_bind pg send m s) = s"
          using Inr format entry
          by (auto simp: on_bind_def Let_def bind_res_def
              split: PgTestQueryTypeControlStatement.splits sum.splits)
        then show thesis by (rule kept)
      qed
    qed
  qed (use Inr kept in \<open>simp add: on_bind_def\<close>)
qed (use kept in \<open>simp add: on_bind_def\<close>)

lemma on_bind_portals:
  assumes laws: "store_laws pg" and p: "get_portal pg (snd (on_bind pg send m s)) n = Some (EntryValue p)"
  shows "portal_ok p \<or> get_portal pg s n = Some (EntryValue p)"
proof (cases rule: on_bind_cases [of pg send m s])
  case (emptied k)
  with laws p show ?thesis unfolding store_laws_def by (metis Entry.distinct(1) option.inject)
next
  case (bound q st)
  have "portal_statement q = st" "parameter_len q = length (bind_parameters m)"
    using laws bound(2) unfolding store_laws_def by blast+
  with bound have "portal_ok q" by (simp add: portal_ok_def)
  with laws p bound(1) show ?thesis unfolding store_laws_def by (metis Entry.inject option.inject)
qed (use p in simp)

lemma panel_store_portals:
  assumes "store_laws pg" "panel_store pg s" "get_portal pg s n = Some (EntryValue p)"
  shows "portal_ok p"
  using assms(2,3)
proof (induction arbitrary: n p rule: panel_store.induct)
  case (bind_step s send m)
  then show ?case using on_bind_portals [OF assms(1)] by blast
qed (auto simp: on_parse_portals [OF assms(1)])

lemma resolve_lease_id_valid:
  "resolve_lease_id argument p = Inr l \<Longrightarrow> valid_lease_str (lease_str l)"
  by (auto simp: resolve_lease_id_def parse_lease_id_def res_simps split: sum.splits)

text \<open>
  C31: what Bind checks is enough for Execute: however a client mixes Parse, Bind and Close messages,
  executing a portal found in its store never fails on the number, the absence, the decoding or the
  format of its argument. A ping answers its row, and a release reaches the manager with a valid
  lease identifier.
\<close>

theorem stored_portals_execute:
  assumes "store_laws pg" "panel_store pg s" "get_portal pg s n = Some (EntryValue p)"
  shows "(stored_statement (portal_statement p) = Ping \<and>
            extended_do_query pg p w = (Finished (ping pg (result_column_format p 0)), w)) \<or>
         (\<exists>argument l. stored_statement (portal_statement p) = Release argument \<and>
            resolve_lease_id argument p = Inr l \<and> valid_lease_str (lease_str l) \<and>
            extended_do_query pg p w = panel_release l (result_column_format p 0) w)"
proof -
  have ok: "portal_ok p" using assms by (rule panel_store_portals)
  show ?thesis
  proof (cases "stored_statement (portal_statement p)")
    case (Release argument)
    with ok obtain l where l: "resolve_lease_id argument p = Inr l"
      by (cases "resolve_lease_id argument p") (auto simp: portal_ok_def)
    with ok Release show ?thesis
      using resolve_lease_id_valid [OF l] by (simp add: portal_ok_def extended_do_query_def)
  next
    case Ping
    with ok show ?thesis by (simp add: portal_ok_def extended_do_query_def)
  qed
qed

text \<open>A store of two maps, with one release bound to the identifier \<open>a\<close>.\<close>

definition map_pgwire ::
  "(unit, (string \<rightharpoonup> StoredStatement Entry) \<times> (string \<rightharpoonup> unit Portal Entry)) pgwire" where
  "map_pgwire =
     \<lparr>text_oid = 25, DEFAULT_NAME = ''default'', debug_str = (\<lambda>n. n),
      StoredStatement_parse = (\<lambda>parser m.
        bind_res (parser (parse_query m) (map (\<lambda>oid. if oid = 25 then Some TEXT else None) (type_oids m)))
          (\<lambda>st. Inr (map_option (\<lambda>x. \<lparr>stored_id = case parse_name m of None \<Rightarrow> ''default'' | Some n \<Rightarrow> n,
             stored_statement = x, stored_parameter_types = []\<rparr>) st))),
      Portal_try_new = (\<lambda>m st. Inr
        \<lparr>portal_name = case bind_portal_name m of None \<Rightarrow> ''default'' | Some n \<Rightarrow> n, portal_statement = st,
         portal_parameter = (\<lambda>i t. if i < length (bind_parameters m)
            then Inr (map_option (map (\<lambda>b. char_of (unat b))) (bind_parameters m ! i)) else Inl (PgWireOther ())),
         parameter_len = length (bind_parameters m), result_column_format = (\<lambda>i. TextFormat)\<rparr>),
      encode_i32 = (\<lambda>schema n. Inr [49]), encode_bool = (\<lambda>schema b. Inr [116]),
      get_statement = (\<lambda>(ss, ps) n. ss n), put_statement = (\<lambda>st (ss, ps). (ss(stored_id st \<mapsto> EntryValue st), ps)),
      put_empty_statement = (\<lambda>n (ss, ps). (ss(n \<mapsto> EntryEmpty), ps)),
      get_portal = (\<lambda>(ss, ps) n. ps n), put_portal = (\<lambda>p (ss, ps). (ss, ps(portal_name p \<mapsto> EntryValue p))),
      put_empty_portal = (\<lambda>n (ss, ps). (ss, ps(n \<mapsto> EntryEmpty)))\<rparr>"

lemma map_pgwire_laws: "store_laws map_pgwire"
  by (auto simp: store_laws_def map_pgwire_def)

lemma release_parameter_parsed: "parse_control ''SELECT pgtest_release($1)'' = Inr (Release (Parameter 0))"
  by code_simp

theorem stored_portals_execute_witness:
  "\<exists>s p. store_laws map_pgwire \<and> panel_store map_pgwire s \<and>
     get_portal map_pgwire s ''default'' = Some (EntryValue p) \<and>
     (\<forall>w. extended_do_query map_pgwire p w = panel_release (LeaseId ''a'') TextFormat w)"
proof -
  define pg where "pg = map_pgwire"
  define s1 where "s1 = snd (on_parse pg (\<lambda>m. Inr ()) \<lparr>parse_name = None,
    parse_query = ''SELECT pgtest_release($1)'', type_oids = []\<rparr> (Map.empty, Map.empty))"
  define s2 where "s2 = snd (on_bind pg (\<lambda>m. Inr ()) \<lparr>bind_portal_name = None, bind_statement_name = None,
    parameter_format_codes = [], bind_parameters = [Some [97]], result_column_format_codes = []\<rparr> s1)"
  have "panel_store pg (Map.empty, Map.empty)"
    by (rule empty_store) (simp add: pg_def map_pgwire_def)
  then have reach: "panel_store pg s2"
    unfolding s2_def s1_def by (intro panel_store.bind_step panel_store.parse_step)
  obtain p where p: "get_portal pg s2 ''default'' = Some (EntryValue p)"
      "stored_statement (portal_statement p) = Release (Parameter 0)"
      "portal_parameter p 0 TEXT = Inr (Some ''a'')" "result_column_format p 0 = TextFormat"
    by (simp add: s2_def s1_def pg_def map_pgwire_def on_parse_def on_bind_def parse_sql_def
        release_parameter_parsed get_parameter_types_def validate_format_codes_def resolve_lease_id_def
        parse_lease_id_def LeaseId_new_def NUL_def char_of_def Let_def bit_Suc_0_iff)
  have "extended_do_query pg p w = panel_release (LeaseId ''a'') TextFormat w" for w
    using stored_portals_execute [OF map_pgwire_laws [folded pg_def] reach p(1), of w] p(2-)
    by (auto simp: resolve_lease_id_def parse_lease_id_def split: sum.splits)
  with map_pgwire_laws reach p(1) show ?thesis unfolding pg_def by blast
qed

text \<open>
  C33: over the simple protocol only a well-formed release of a valid lease identifier touches the
  manager: it queues one release message for that lease on a fresh channel and waits for the reply,
  or reports at once that the engine is unavailable. Every other query, be it a ping, a release with
  an invalid identifier or with a parameter, or anything else, is answered at once and leaves the
  manager as it was.
\<close>

theorem simple_query_effect:
  assumes "simple_do_query pg q w = (st, w')"
  shows "(w' = w \<and> (\<exists>r. st = Finished r) \<and>
            (\<nexists>v. control_query (Release (Literal v)) q \<and> valid_lease_str v)) \<or>
         (\<exists>v. control_query (Release (Literal v)) q \<and> valid_lease_str v \<and>
            (if engine_running w
             then st = AwaitRelease (next_channel w) TextFormat \<and>
                  w' = w\<lparr>next_channel := Suc (next_channel w),
                         worker_inbox := worker_inbox w @ [ReleaseLease (LeaseId v) (ConsumerWorker_new (next_channel w))],
                         receivers := fmupd (next_channel w) (clock w) (receivers w)\<rparr>
             else st = Finished (Inl (release_error ReleaseEngineUnavailable)) \<and>
                  w' = w\<lparr>next_channel := Suc (next_channel w)\<rparr>))"
proof (cases "\<exists>v. parse_control q = Inr (Release (Literal v)) \<and> valid_lease_str v")
  case True
  then obtain v where v: "parse_control q = Inr (Release (Literal v))" "valid_lease_str v" by blast
  then have "panel_release (LeaseId v) TextFormat w = (st, w')"
    using assms by (auto simp: simple_do_query_def parse_lease_id_def split: sum.splits)
  then have "if engine_running w
      then st = AwaitRelease (next_channel w) TextFormat \<and>
           w' = w\<lparr>next_channel := Suc (next_channel w),
                  worker_inbox := worker_inbox w @ [ReleaseLease (LeaseId v) (ConsumerWorker_new (next_channel w))],
                  receivers := fmupd (next_channel w) (clock w) (receivers w)\<rparr>
      else st = Finished (Inl (release_error ReleaseEngineUnavailable)) \<and>
           w' = w\<lparr>next_channel := Suc (next_channel w)\<rparr>"
    by (auto simp: panel_release_def release_request_def send_message_def post_def Let_def split: if_splits)
  with v show ?thesis by (auto simp: parse_control_iff [symmetric])
next
  case False
  then have "w' = w \<and> (\<exists>r. st = Finished r)"
    using assms by (auto simp: simple_do_query_def parse_lease_id_def
        split: sum.splits PgTestQueryTypeControlStatement.splits LeaseArgument.splits)
  with False show ?thesis by (simp add: parse_control_iff)
qed

theorem simple_query_effect_witness:
  "\<forall>w. \<exists>st w'. simple_do_query map_pgwire (''SELECT pgtest_release('' @ [QUOTE, CHR ''a'', QUOTE] @ '')'') w = (st, w') \<and>
     (if engine_running w then st = AwaitRelease (next_channel w) TextFormat
      else st = Finished (Inl (release_error ReleaseEngineUnavailable)))"
proof
  fix w
  let ?q = "''SELECT pgtest_release('' @ [QUOTE, CHR ''a'', QUOTE] @ '')''"
  obtain st w' where q: "simple_do_query map_pgwire ?q w = (st, w')" by (cases "simple_do_query map_pgwire ?q w")
  have "parse_control ?q = Inr (Release (Literal ''a''))" by code_simp
  moreover have "valid_lease_str ''a''" by (simp add: valid_lease_str_def NUL_def)
  ultimately have "\<exists>v. control_query (Release (Literal v)) ?q \<and> valid_lease_str v"
    unfolding parse_control_iff by blast
  with simple_query_effect [OF q] have "if engine_running w then st = AwaitRelease (next_channel w) TextFormat
      else st = Finished (Inl (release_error ReleaseEngineUnavailable))"
    by (auto split: if_splits)
  with q show "\<exists>st w'. simple_do_query map_pgwire ?q w = (st, w') \<and>
     (if engine_running w then st = AwaitRelease (next_channel w) TextFormat
      else st = Finished (Inl (release_error ReleaseEngineUnavailable)))" by blast
qed

section \<open>Types of responses\<close>

text \<open>
  The results a query can come to: at once, or when the release it waits for is acknowledged, in
  whatever state the manager is by then.
\<close>

definition yields ::
  "('e, 's) pgwire \<Rightarrow> (Response \<Rightarrow> 'a) \<Rightarrow> ('e, 'a) query_state \<Rightarrow> 'a \<Rightarrow> bool" where
  "yields pg k st r \<longleftrightarrow> st = Finished (Inr r) \<or>
     (\<exists>ch f w w'. st = AwaitRelease ch f \<and> panel_resume pg k ch f w = (Finished (Inr r), w'))"

text \<open>One row whose single field was encoded as a value of the type of its column.\<close>

definition response_of :: "('e, 's) pgwire \<Rightarrow> FieldInfo list \<Rightarrow> Response \<Rightarrow> bool" where
  "response_of pg schema r \<longleftrightarrow>
     (\<exists>field row. schema = [field] \<and> r = QueryResponse schema [row] \<and>
        (field_type field = INT4 \<and> encode_i32 pg schema 1 = Inr row \<or>
         field_type field = BOOL \<and> encode_bool pg schema True = Inr row))"

lemma response_of_ping: "ping pg format = Inr r \<Longrightarrow> response_of pg (ping_schema format) r"
  by (auto simp: ping_def response_of_def ping_schema_def Let_def elim!: bind_resE)

lemma response_of_released: "released pg format = Inr r \<Longrightarrow> response_of pg (release_schema format) r"
  by (auto simp: released_def response_of_def release_schema_def Let_def elim!: bind_resE)

lemma yields_release:
  assumes "panel_release l format w = (st, w')" "yields pg k st r"
  shows "\<exists>x. r = k x \<and> response_of pg (release_schema format) x"
proof -
  obtain ch where "st = AwaitRelease ch format"
    using assms by (auto simp: panel_release_def yields_def split: prod.splits sum.splits)
  with assms(2) obtain v v' where "panel_resume pg k ch format v = (Finished (Inr r), v')" by (auto simp: yields_def)
  then obtain x where "released pg format = Inr x" "r = k x"
    unfolding panel_resume_def by (cases "release_await ch v") (auto elim!: bind_resE split: poll.splits sum.splits)
  with response_of_released show ?thesis by blast
qed

text \<open>
  C32: what Describe announces is what Execute returns. The response to a portal, however long its
  release waits, has the schema that the description of the portal gives, in the result format the
  client bound, and one row encoded as a value of the column's type; a simple query returns one such
  response in the text format.
\<close>

theorem responses_as_described:
  "(extended_do_query pg portal w = (st, w1) \<and> yields pg (\<lambda>x. x) st r \<longrightarrow>
      response_of pg (get_result_schema (stored_statement (portal_statement portal)) (Some (result_column_format portal))) r) \<and>
   (simple_do_query pg q w = (st', w1) \<and> yields pg (\<lambda>x. [x]) st' rs \<longrightarrow>
      (\<exists>statement x. parse_control q = Inr statement \<and> rs = [x] \<and> response_of pg (get_result_schema statement None) x))"
proof (intro conjI impI; elim conjE)
  assume run: "extended_do_query pg portal w = (st, w1)" and y: "yields pg (\<lambda>x. x) st r"
  let ?format = "result_column_format portal 0"
  show "response_of pg (get_result_schema (stored_statement (portal_statement portal)) (Some (result_column_format portal))) r"
  proof (cases "stored_statement (portal_statement portal)")
    case Ping
    with run y have "ping pg ?format = Inr r" by (auto simp: extended_do_query_def yields_def Let_def split: if_splits)
    from response_of_ping [OF this] Ping show ?thesis by (simp add: get_result_schema_def result_schema_def)
  next
    case (Release argument)
    with run y obtain l where "panel_release l ?format w = (st, w1)"
      by (auto simp: extended_do_query_def yields_def Let_def split: if_splits sum.splits)
    from yields_release [OF this y] Release show ?thesis by (simp add: get_result_schema_def result_schema_def)
  qed
next
  assume run: "simple_do_query pg q w = (st', w1)" and y: "yields pg (\<lambda>x. [x]) st' rs"
  then obtain statement where p: "parse_control q = Inr statement"
    by (cases "parse_control q") (auto simp: simple_do_query_def yields_def)
  show "\<exists>statement x. parse_control q = Inr statement \<and> rs = [x] \<and> response_of pg (get_result_schema statement None) x"
  proof (cases statement)
    case Ping
    with run y p obtain x where "ping pg TextFormat = Inr x" "rs = [x]"
      by (auto simp: simple_do_query_def yields_def elim!: bind_resE)
    with response_of_ping [OF this(1)] Ping p show ?thesis by (simp add: get_result_schema_def result_schema_def)
  next
    case (Release argument)
    with run y p obtain l where "panel_release l TextFormat w = (st', w1)"
      by (auto simp: simple_do_query_def yields_def split: LeaseArgument.splits sum.splits)
    from yields_release [OF this y] Release p show ?thesis by (auto simp: get_result_schema_def result_schema_def)
  qed
qed

theorem responses_as_described_witness:
  "response_of map_pgwire (get_result_schema Ping None) (QueryResponse (ping_schema TextFormat) [[49]])"
proof -
  have p: "parse_control ''SELECT 1'' = Inr Ping" by code_simp
  have "simple_do_query map_pgwire ''SELECT 1'' w = (Finished (Inr [QueryResponse (ping_schema TextFormat) [[49]]]), w)" for w
    by (simp add: simple_do_query_def p ping_def map_pgwire_def)
  moreover have "yields map_pgwire (\<lambda>x. [x]) (Finished (Inr [QueryResponse (ping_schema TextFormat) [[49]]]))
      [QueryResponse (ping_schema TextFormat) [[49]]]" by (simp add: yields_def)
  ultimately show ?thesis
    using conjunct2 [OF responses_as_described [where pg = map_pgwire and q = "''SELECT 1''"]] p by fastforce
qed

end
