(* ===== verification/Release_Properties.thy ===== *)
theory Release_Properties
  imports Client_Channels Control_Panel
begin

text \<open>
  A release from end to end: from the query on the control panel over the manager and the engine back
  to the row that the client receives. What the client is told is true: the lease is closed, holds no
  database, and the sessions it had are cancelled.
\<close>

section \<open>Acknowledgements in the log of the engine\<close>

lemma acks_retire_lease: "retire_lease env l s = Inr s' \<Longrightarrow> acks s' = acks s"
proof (cases "fmlookup (leases s) l")
  case (Some e)
  assume "retire_lease env l s = Inr s'"
  with acks_grow show ?thesis by (fastforce simp: retire_lease_eq [OF Some])
qed (simp add: retire_lease_def)

lemma acks_release_lease: "release_lease env l s = Inr (r, s') \<Longrightarrow> acks s' = acks s"
proof -
  assume release: "release_lease env l s = Inr (r, s')"
  obtain a s1 where a: "admit_lease l s = (a, s1)" by (cases "admit_lease l s")
  have "s' = s1 \<or> retire_lease env l (closed_state env l s1) = Inr s'"
    using release a by (auto simp: release_lease_eq bind_res_eq_Inr split: sum.splits LeaseStatus.splits)
  with aside_acks [OF aside_admit [OF a]] show ?thesis by (auto dest: acks_retire_lease)
qed

lemma acks_attach_or_join:
  assumes "settled_inv s" "attach_or_join env l c t s = Inr s'"
  shows "acks s' = acks s"
  using assms
proof (cases rule: attach_or_join_cases)
  case (refused s1 e)
  then show ?thesis using aside_send_reply [of c "AttachRejected e" env s1] by (auto dest: aside_acks)
next
  case (joined s1 e)
  with aside_reply_attached [OF joined(3)] show ?thesis by (auto intro: aside_acks)
next
  case (queued s1)
  with acks_grow [OF queued(3)] show ?thesis by auto
next
  case (fresh s1 s2)
  with acks_grow [OF fresh(4)] show ?thesis by (auto dest: aside_acks)
qed

lemma acks_worker_message:
  assumes "settled_inv s" "handle_database_worker_message env m s = Inr s'"
  shows "acks s' = acks s"
  using assms
proof (cases rule: worker_message_cases)
  case (cleaned d r)
  then show ?thesis by (simp add: acks_def)
next
  case (finished d r s1)
  with acks_grow [OF finished(5)] show ?thesis by simp
qed simp

lemma release_lease_Ok:
  assumes "engine_inv s" "release_lease env l s = Inr (Inr u, s')"
  shows "fmlookup (lease_records s') l = Some Closed"
proof -
  obtain a s1 where a: "admit_lease l s = (a, s1)" by (cases "admit_lease l s")
  note adm = engine_inv_admit [OF assms(1) a]
  show ?thesis
  proof (cases "a = Inr Open")
    case True
    with assms(2) a have "retire_lease env l (closed_state env l s1) = Inr s'"
      by (auto simp: release_lease_eq elim!: bind_resE)
    from keeps_retire_lease [OF engine_inv_closed_state [OF adm(1) adm(2) [OF True]] this] show ?thesis
      by (simp add: keeps_def closed_state_def Let_def)
  next
    case False
    with assms(2) a show ?thesis
      by (auto simp: release_lease_eq admit_lease_def split: sum.splits LeaseStatus.splits option.splits if_splits)
  qed
qed

lemma acks_handle_message:
  assumes "settled_inv s" "handle_message env msg s = Inr (go, s')"
  shows "acks s' = acks s \<or> (\<exists>l c r ok. msg = ReleaseLease l c \<and> acks s' = acks s @ [Reply c (ReleaseResult r) ok] \<and>
     (r = Inr () \<longrightarrow> fmlookup (lease_records s') l = Some Closed))"
proof (cases msg)
  case (ReleaseLease l c)
  with assms(2) obtain r s1 where r: "release_lease env l s = Inr (r, s1)"
    "s' = snd (send_reply env c (ReleaseResult r) s1)"
    by (auto simp: handle_message_def elim!: bind_res_pairE)
  with release_lease_Ok [of s env l "()" s1] assms(1) ReleaseLease show ?thesis
    by (auto simp: acks_release_lease acks_send_reply settled_inv_def)
qed (use assms(2) in \<open>auto simp: handle_message_def handle_detach_def handle_max_time_def res_simps
      dest!: acks_attach_or_join [OF assms(1)] acks_worker_message [OF assms(1)] acks_retire_lease split: option.splits if_splits\<close>)

section \<open>Acknowledgements on their way\<close>

lemma unread_perform:
  assumes "(ch, ManagerEngine (ReleaseResult r)) \<in> set (unread (fold perform ks w))"
  shows "(ch, ManagerEngine (ReleaseResult r)) \<in> set (unread w) \<or>
    (\<exists>c. Reply c (ReleaseResult r) True \<in> set ks \<and> oneshot_channel c = ch)"
  using assms
proof (induction ks arbitrary: w)
  case (Cons k ks)
  have "(ch, ManagerEngine (ReleaseResult r)) \<in> set (unread (perform k w)) \<Longrightarrow>
      (ch, ManagerEngine (ReleaseResult r)) \<in> set (unread w) \<or>
      (\<exists>c. k = Reply c (ReleaseResult r) True \<and> oneshot_channel c = ch)"
  proof (cases k)
    case (Reply c msg ok)
    then show "(ch, ManagerEngine (ReleaseResult r)) \<in> set (unread (perform k w)) \<Longrightarrow> ?thesis"
      by (auto simp: perform_Reply split: if_splits option.splits ConsumerReply.splits)
  qed (auto simp: perform_def request_creation_def request_cleanup_def send_delayed_message_def split: if_splits)
  with Cons show ?case by fastforce
qed simp

text \<open>What a step may do to releases under way.\<close>

definition closed_lease :: "LeaseId \<Rightarrow> WorkerEngineManager \<Rightarrow> bool" where
  "closed_lease l w \<longleftrightarrow> fmlookup (lease_records (engine_handle w)) l = Some Closed"

definition release_step :: "WorkerEngineManager \<Rightarrow> WorkerEngineManager \<Rightarrow> bool" where
  "release_step w w' \<longleftrightarrow>
     next_channel w \<le> next_channel w' \<and>
     (\<forall>l c. ReleaseLease l c \<in> set (worker_inbox w') \<longrightarrow> ReleaseLease l c \<in> set (worker_inbox w) \<or>
        next_channel w \<le> oneshot_channel c \<and> oneshot_channel c < next_channel w') \<and>
     (\<forall>ch r. (ch, ManagerEngine (ReleaseResult r)) \<in> set (unread w') \<longrightarrow>
        (ch, ManagerEngine (ReleaseResult r)) \<in> set (unread w) \<or>
        (\<exists>l c. ReleaseLease l c \<in> set (worker_inbox w) \<and> oneshot_channel c = ch \<and>
           (r = Inr () \<longrightarrow> closed_lease l w'))) \<and>
     (\<forall>l. closed_lease l w \<longrightarrow> closed_lease l w')"

lemma silent_release: "silent w w' \<Longrightarrow> ReleaseLease l c \<in> set (worker_inbox w') \<Longrightarrow> ReleaseLease l c \<in> set (worker_inbox w)"
  by (simp add: silent_def message_channel_def split: EngineMessage.splits)

lemma release_step_silent: "silent w w' \<Longrightarrow> release_step w w'"
  using silent_release [of w w'] by (auto simp: silent_def release_step_def closed_lease_def)

lemma release_step_attach: "release_step w (snd (attach_request n l w))"
  by (auto simp: attach_request_def send_message_def Let_def release_step_def post_def closed_lease_def)

lemma release_step_request: "release_step w (snd (release_request l w))"
  by (auto simp: release_request_def send_message_def Let_def release_step_def post_def closed_lease_def
      ConsumerWorker_new_def)

lemma release_step_turn:
  assumes "manager_inv w" "engine_turn w = Inr w'"
  shows "release_step w w'"
  using assms(2)
proof (cases rule: engine_turn_cases)
  case idle
  then show ?thesis by (simp add: release_step_silent)
next
  case (turn msg rest go e log w1)
  have w': "unread w' = unread w1" "next_channel w' = next_channel w" "set (worker_inbox w') \<subseteq> set (worker_inbox w)"
    "closed_lease l w' \<longleftrightarrow> fmlookup (lease_records e) l = Some Closed" for l
    using turn(2,5-7) by (auto simp: carried_def closed_lease_def record_call_def)
  have inv: "settled_inv (engine_handle w)" using assms(1) by (simp add: manager_inv_def)
  have calls: "calls e = calls (engine_handle w) @ log"
    using turn_prefix [OF assms(1) turn(1-3)] turn(4) by simp
  have "filter is_ack log = [] \<or> (\<exists>l c r ok. msg = ReleaseLease l c \<and> filter is_ack log = [Reply c (ReleaseResult r) ok] \<and>
      (r = Inr () \<longrightarrow> closed_lease l w'))"
    using acks_handle_message [OF inv turn(3)] calls by (auto simp: acks_def w'(4))
  moreover have "x \<in> set (filter is_ack log)" if "x \<in> set log" "is_ack x" for x using that by simp
  ultimately have ack: "\<exists>l. msg = ReleaseLease l c \<and> (r = Inr () \<longrightarrow> closed_lease l w')"
    if "Reply c (ReleaseResult r) True \<in> set log" for c r
    using that by fastforce
  have "(ch, ManagerEngine (ReleaseResult r)) \<in> set (unread w) \<or>
      (\<exists>l c. ReleaseLease l c \<in> set (worker_inbox w) \<and> oneshot_channel c = ch \<and> (r = Inr () \<longrightarrow> closed_lease l w'))"
    if new: "(ch, ManagerEngine (ReleaseResult r)) \<in> set (unread w')" for ch r
  proof -
    consider "(ch, ManagerEngine (ReleaseResult r)) \<in> set (unread w)"
      | c where "Reply c (ReleaseResult r) True \<in> set log" "oneshot_channel c = ch"
      using unread_perform [OF new [unfolded w'(1) turn(7)]] by auto
    then show ?thesis
    proof cases
      case (2 c)
      from ack [OF 2(1)] obtain l where "msg = ReleaseLease l c" "r = Inr () \<longrightarrow> closed_lease l w'" by blast
      with 2(2) turn(2) show ?thesis by (intro disjI2 exI [of _ l] exI [of _ c]) simp
    qed simp
  qed
  moreover have "closed_lease l w'" if "closed_lease l w" for l
    using handle_message_closed [OF inv turn(3), of l] that by (simp add: closed_lease_def w'(4) [unfolded closed_lease_def])
  ultimately show ?thesis using w'(2,3) unfolding release_step_def by auto
qed

lemma release_step_step:
  assumes "manager_step w w'" "manager_inv w"
  shows "release_step w w'"
  by (cases rule: manager_step_kinds [OF assms])
    (auto intro: release_step_silent release_step_attach release_step_request release_step_turn [OF assms(2)])

section \<open>Following one release\<close>

definition release_channels :: "WorkerEngineManager \<Rightarrow> bool" where
  "release_channels w \<longleftrightarrow>
     (\<forall>l c. ReleaseLease l c \<in> set (worker_inbox w) \<longrightarrow> oneshot_channel c < next_channel w) \<and>
     (\<forall>ch r. (ch, ManagerEngine (ReleaseResult r)) \<in> set (unread w) \<longrightarrow> ch < next_channel w)"

text \<open>The channel \<open>ch\<close> belongs to a release of \<open>l\<close>.\<close>

definition follows :: "nat \<Rightarrow> LeaseId \<Rightarrow> WorkerEngineManager \<Rightarrow> bool" where
  "follows ch l w \<longleftrightarrow> ch < next_channel w \<and>
     (\<forall>l' c. ReleaseLease l' c \<in> set (worker_inbox w) \<and> oneshot_channel c = ch \<longrightarrow> l' = l) \<and>
     ((ch, ManagerEngine (ReleaseResult (Inr ()))) \<in> set (unread w) \<longrightarrow> closed_lease l w)"

lemma release_stepD:
  assumes "release_step w w'"
  shows "next_channel w \<le> next_channel w'" "closed_lease l w \<Longrightarrow> closed_lease l w'"
    and "ReleaseLease l c \<in> set (worker_inbox w') \<Longrightarrow> ReleaseLease l c \<in> set (worker_inbox w) \<or>
      next_channel w \<le> oneshot_channel c \<and> oneshot_channel c < next_channel w'"
    and "(ch, ManagerEngine (ReleaseResult r)) \<in> set (unread w') \<Longrightarrow>
      (ch, ManagerEngine (ReleaseResult r)) \<in> set (unread w) \<or>
      (\<exists>l c. ReleaseLease l c \<in> set (worker_inbox w) \<and> oneshot_channel c = ch \<and> (r = Inr () \<longrightarrow> closed_lease l w'))"
  using assms by (simp_all add: release_step_def)

lemma release_channels_step:
  assumes "release_step w w'" "release_channels w"
  shows "release_channels w'"
proof -
  note s = release_stepD [OF assms(1)]
  have c: "\<And>l c. ReleaseLease l c \<in> set (worker_inbox w) \<Longrightarrow> oneshot_channel c < next_channel w"
    "\<And>ch r. (ch, ManagerEngine (ReleaseResult r)) \<in> set (unread w) \<Longrightarrow> ch < next_channel w"
    using assms(2) by (auto simp: release_channels_def)
  have "oneshot_channel c < next_channel w'" if "ReleaseLease l c \<in> set (worker_inbox w')" for l c
    using s(3) [OF that] c(1) [of l c] s(1) by linarith
  moreover have "ch < next_channel w'" if r: "(ch, ManagerEngine (ReleaseResult r)) \<in> set (unread w')" for ch r
  proof -
    have "ch < next_channel w" using s(4) [OF r] c by blast
    with s(1) show ?thesis by linarith
  qed
  ultimately show ?thesis by (simp add: release_channels_def)
qed

lemma follows_step:
  assumes "release_step w w'" "follows ch l w"
  shows "follows ch l w'"
proof -
  note s = release_stepD [OF assms(1)]
  have f: "ch < next_channel w" "\<And>l' c. ReleaseLease l' c \<in> set (worker_inbox w) \<Longrightarrow> oneshot_channel c = ch \<Longrightarrow> l' = l"
    "(ch, ManagerEngine (ReleaseResult (Inr ()))) \<in> set (unread w) \<Longrightarrow> closed_lease l w"
    using assms(2) by (auto simp: follows_def)
  have "l' = l" if "ReleaseLease l' c \<in> set (worker_inbox w')" "oneshot_channel c = ch" for l' c
    using s(3) [OF that(1)] f(1,2) that(2) by auto
  moreover have "closed_lease l w'" if "(ch, ManagerEngine (ReleaseResult (Inr ()))) \<in> set (unread w')"
    using s(4) [OF that] s(2) f(2,3) by auto
  ultimately show ?thesis using f(1) s(1) by (auto simp: follows_def)
qed

interpretation released: relative_invariant manager_step manager_inv release_channels
  by unfold_locales (rule release_channels_step [OF release_step_step])

interpretation follow: relative_invariant manager_step manager_inv "follows ch l" for ch l
  by unfold_locales (rule follows_step [OF release_step_step])

lemma release_channels_run:
  assumes "manager_run cl pcfg cfg w"
  shows "release_channels w"
proof -
  obtain w0 where w0: "WorkerEngineManager_start cl pcfg cfg = Inr (Inr w0)" "manager_step\<^sup>*\<^sup>* w0 w"
    using assms by (auto simp: manager_run_def)
  have "fresh_manager (engine_handle w0) w0" by (rule started_cases(3) [OF w0(1)])
  then have base: "release_channels w0" by (simp add: release_channels_def fresh_manager_def)
  have run: "manager_run cl pcfg cfg w0" using w0(1) by (auto simp: manager_run_def)
  from released.extra_run [OF w0(2) manager_run_inv [OF run] base] show ?thesis .
qed

lemma follows_request:
  assumes "release_channels w" "release_request l w = (Inr ch, w')"
  shows "follows ch l w'"
proof -
  have w': "ch = next_channel w" "next_channel w' = Suc ch" "unread w' = unread w"
    "worker_inbox w' = worker_inbox w @ [ReleaseLease l (ConsumerWorker_new ch)]"
    using assms(2) by (auto simp: release_request_def send_message_def Let_def post_def split: if_splits)
  have "oneshot_channel c \<noteq> ch" if "ReleaseLease l' c \<in> set (worker_inbox w)" for l' c
    using assms(1) that unfolding release_channels_def w'(1) by (metis less_irrefl_nat)
  moreover have "(ch, ManagerEngine (ReleaseResult r)) \<notin> set (unread w)" for r
    using assms(1) by (auto simp: w'(1) release_channels_def)
  ultimately show ?thesis unfolding follows_def w'(2-4) by auto
qed

text \<open>A closed lease has no database, and the tokens of its sessions are cancelled.\<close>

lemma closed_lease_sessions:
  assumes "manager_inv w" "closed_lease l w"
  shows "fmlookup (leases (engine_handle w)) l = None"
    and "x \<in> set (live_sessions w) \<Longrightarrow> session_lease_id x = l \<Longrightarrow> is_cancelled (session_cancellation x) w"
proof -
  have inv: "engine_inv (engine_handle w)" using assms(1) by (simp add: manager_inv_def settled_inv_def)
  then have "l |\<notin>| fmdom (leases (engine_handle w))"
    using assms(2) by (auto simp: closed_lease_def engine_inv_def record_inv_def queue_inv_def)
  then show none: "fmlookup (leases (engine_handle w)) l = None" by (simp add: fmlookup_fmdom)
  assume x: "x \<in> set (live_sessions w)" "session_lease_id x = l"
  then have "session_logged (calls (engine_handle w)) x" using assms(1) by (simp add: manager_inv_def)
  from logged_session_current [OF assms(1) this] x(2) none show "is_cancelled (session_cancellation x) w" by auto
qed

section \<open>The answer to the client\<close>

lemma release_await_Ok:
  assumes "release_await ch w = (Ready (Inr u), w')"
  shows "(ch, ManagerEngine (ReleaseResult (Inr ()))) \<in> set (unread w)"
proof (cases "filter (\<lambda>p. fst p = ch) (unread w)")
  case Nil
  with assms show ?thesis
    by (auto simp: release_await_def poll_receiver_def split: option.splits if_splits)
next
  case (Cons p ps)
  then have "p \<in> set (unread w)" "fst p = ch" by (auto simp: filter_eq_Cons_iff)
  moreover have "snd p = ManagerEngine (ReleaseResult (Inr ()))"
    using assms Cons by (auto simp: release_await_def poll_receiver_def split: ManagerReply.splits ConsumerReply.splits)
  ultimately show ?thesis by (metis prod.collapse)
qed

lemma simple_query_release:
  assumes "control_query (Release (Literal v)) q" "simple_do_query pg q w = (AwaitRelease ch f, w1)"
  shows "release_request (LeaseId v) w = (Inr ch, w1)"
proof -
  have "parse_control q = Inr (Release (Literal v))" using assms(1) by (simp add: parse_control_iff)
  with assms(2) show ?thesis
    by (auto simp: simple_do_query_def parse_lease_id_def panel_release_def split: sum.splits prod.splits)
qed

text \<open>
  C3: what the control panel tells a client is true, from end to end: when the row of a release query
  comes back, whatever the engine, the other clients, the timers and the database workers have done
  in the meantime, the lease of the query is closed, it holds no database, and the token of every
  session it still has is cancelled.
\<close>

theorem release_query_closes_lease:
  assumes "manager_run cl pcfg cfg w"
    and "control_query (Release (Literal v)) q" "simple_do_query pg q w = (AwaitRelease ch f, w1)"
    and "manager_step\<^sup>*\<^sup>* w1 w2" "panel_resume pg k ch f w2 = (Finished (Inr rows), w3)"
  shows "fmlookup (lease_records (engine_handle w3)) (LeaseId v) = Some Closed \<and>
         fmlookup (leases (engine_handle w3)) (LeaseId v) = None \<and>
         (\<forall>x. x \<in> set (live_sessions w3) \<and> session_lease_id x = LeaseId v \<longrightarrow>
            is_cancelled (session_cancellation x) w3)"
proof -
  note request = simple_query_release [OF assms(2,3)]
  have inv1: "manager_inv w1"
    using manager_inv_step [OF manager_step.release manager_run_inv [OF assms(1)], of "LeaseId v"] request by simp
  have "follows ch (LeaseId v) w2"
    using follow.extra_run [OF assms(4) inv1 follows_request [OF release_channels_run [OF assms(1)] request]] .
  moreover obtain u where await: "release_await ch w2 = (Ready (Inr u), w3)"
    using assms(5) by (auto simp: panel_resume_def split: poll.splits sum.splits prod.splits)
  ultimately have "closed_lease (LeaseId v) w2" using release_await_Ok by (auto simp: follows_def)
  moreover have "engine_handle w3 = engine_handle w2"
    using settles_release_await [of w2 ch] await by (simp add: settles_def)
  ultimately have closed: "closed_lease (LeaseId v) w3" by (simp add: closed_lease_def)
  have "manager_inv w3"
    using manager_inv_step [OF manager_step.await_release manager_inv_run [OF assms(4) inv1], of ch] await by simp
  from closed_lease_sessions [OF this closed] closed show ?thesis by (auto simp: closed_lease_def)
qed

text \<open>Lease \<open>a\<close> of \<open>manager_ab\<close> is released.\<close>

definition release_a :: string where
  "release_a = ''SELECT pgtest_release('' @ [QUOTE, CHR ''a'', QUOTE] @ '')''"

lemma release_a_query: "control_query (Release (Literal ''a'')) release_a"
  unfolding parse_control_iff [symmetric] by code_simp

theorem release_query_closes_lease_witness:
  "\<exists>ch w1 w2 w3 rows. simple_do_query map_pgwire release_a manager_ab = (AwaitRelease ch TextFormat, w1) \<and>
     engine_turn w1 = Inr w2 \<and>
     panel_resume map_pgwire (\<lambda>r. [r]) ch TextFormat w2 = (Finished (Inr rows), w3) \<and>
     fmlookup (lease_records (engine_handle w3)) (LeaseId ''a'') = Some Closed \<and>
     fmlookup (leases (engine_handle w3)) (LeaseId ''a'') = None"
proof -
  have p: "parse_control release_a = Inr (Release (Literal ''a''))"
    using release_a_query by (simp add: parse_control_iff)
  obtain w1 where w1: "simple_do_query map_pgwire release_a manager_ab = (AwaitRelease 2 TextFormat, w1)"
    "w1 = manager_ab\<lparr>worker_inbox := [ReleaseLease (LeaseId ''a'') (ConsumerWorker_new 2)], next_channel := 3,
       receivers := fmupd 2 0 (receivers manager_ab)\<rparr>"
    by (simp add: simple_do_query_def p parse_lease_id_def LeaseId_new_def NUL_def panel_release_def
        release_request_def send_message_def post_def manager_ab_def booted_manager_def)
  obtain w2 where w2: "engine_turn w1 = Inr w2"
    "filter (\<lambda>p. fst p = 2) (unread w2) = [(2, ManagerEngine (ReleaseResult (Inr ())))]"
    by (simp add: w1(2) manager_eval engine_eval manager_ab_def engine_ab_def engine_a_def ConsumerWorker_new_def
        perform_def retire_def reply_def)
  obtain rows w3 where w3: "panel_resume map_pgwire (\<lambda>r. [r]) 2 TextFormat w2 = (Finished (Inr rows), w3)"
    using w2(2) by (simp add: panel_resume_def release_await_def poll_receiver_def released_def map_pgwire_def)
  have "manager_step\<^sup>*\<^sup>* w1 w2" using w2(1) by (intro r_into_rtranclp manager_step.turn)
  from release_query_closes_lease [OF manager_run_ab release_a_query w1(1) this w3] w1(1) w2(1) w3 show ?thesis by blast
qed

end
