(* ===== verification/Postgres_Upstream.thy ===== *)
theory Postgres_Upstream
  imports Prelude
begin

text \<open>
  The connection to PostgreSQL (crates/pgtest-wire/src/postgres_upstream.rs): the startup message,
  the framing of the answers and the burst of messages up to the first \<open>ReadyForQuery\<close>. What the
  socket delivers is a list of reads, each an I/O error or a chunk of bytes; a read of no bytes and
  the end of the list are the end of the stream. The codec of the crate pgwire is a parameter.
\<close>

section \<open>Errors and data\<close>

datatype io_error = UnexpectedEof | SocketError string

text \<open>An error of pgwire; \<open>'p\<close> are those that the program only passes on.\<close>

datatype 'p ProtocolError = MessageTooLarge nat nat | OtherProtocolError 'p

datatype 'p UpstreamError =
    Io io_error
  | Protocol "'p ProtocolError"
  | UnsupportedAuthentication
  | StartupRejected
  | UnexpectedMessage u8
  | InvalidFrameLength int

type_synonym reads = "(io_error + u8 list) list"

record UpstreamSession =
  upstream_reads :: reads
  session_burst :: "u8 list"

section \<open>Frames\<close>

text \<open>\<open>i32::from_be_bytes\<close>.\<close>

definition from_be_bytes :: "u8 list \<Rightarrow> int" where
  "from_be_bytes b = sint (of_nat (unat (b ! 0) * 16777216 + unat (b ! 1) * 65536 + unat (b ! 2) * 256 + unat (b ! 3)) :: 32 word)"

fun read_until :: "nat \<Rightarrow> u8 list \<Rightarrow> reads \<Rightarrow> (io_error + unit) \<times> u8 list \<times> reads" where
  "read_until n buf [] = (if length buf < n then (Inl UnexpectedEof, buf, []) else (Inr (), buf, []))"
| "read_until n buf (r # rs) =
     (if length buf < n then
        (case r of
           Inl e \<Rightarrow> (Inl e, buf, rs)
         | Inr chunk \<Rightarrow> if chunk = [] then (Inl UnexpectedEof, buf, rs) else read_until n (buf @ chunk) rs)
      else (Inr (), buf, r # rs))"

text \<open>\<open>checked_add\<close> on a \<open>usize\<close> of 64 bits.\<close>

definition read_frame ::
  "nat \<Rightarrow> nat \<Rightarrow> u8 list \<Rightarrow> reads \<Rightarrow> ('p UpstreamError + (u8 \<times> nat)) \<times> u8 list \<times> reads" where
  "read_frame cursor max_length buf rs =
     (case read_until (cursor + 5) buf rs of
        (Inl e, buf1, rs1) \<Rightarrow> (Inl (Io e), buf1, rs1)
      | (Inr u, buf1, rs1) \<Rightarrow>
          let len = from_be_bytes (take 4 (drop (cursor + 1) buf1)) in
          if len < 4 then (Inl (InvalidFrameLength len), buf1, rs1)
          else if nat len > max_length then (Inl (Protocol (MessageTooLarge max_length (nat len))), buf1, rs1)
          else let frame_end = cursor + (1 + nat len) in
               if \<not> frame_end < 2 ^ 64 then (Inl (InvalidFrameLength len), buf1, rs1)
               else case read_until frame_end buf1 rs1 of
                      (Inl e, buf2, rs2) \<Rightarrow> (Inl (Io e), buf2, rs2)
                    | (Inr u, buf2, rs2) \<Rightarrow> (Inr (buf2 ! cursor, frame_end), buf2, rs2))"

text \<open>What is left of the stream, counting the bytes that are already in the buffer.\<close>

definition chunk_bytes :: "reads \<Rightarrow> u8 list" where
  "chunk_bytes rs = concat (map (\<lambda>r. case r of Inl e \<Rightarrow> [] | Inr c \<Rightarrow> c) rs)"

lemma chunk_bytes_simps [simp]:
  "chunk_bytes [] = []" "chunk_bytes (Inl e # rs) = chunk_bytes rs" "chunk_bytes (Inr c # rs) = c @ chunk_bytes rs"
  by (simp_all add: chunk_bytes_def)

lemma read_until_bytes:
  "read_until n buf rs = (r, buf', rs') \<Longrightarrow> buf' @ chunk_bytes rs' = buf @ chunk_bytes rs"
  by (induction n buf rs rule: read_until.induct) (auto split: if_splits sum.splits)

lemma read_until_length: "read_until n buf rs = (Inr u, buf', rs') \<Longrightarrow> n \<le> length buf'"
  by (induction n buf rs rule: read_until.induct) (auto split: if_splits sum.splits)

lemma read_until_grows: "read_until n buf rs = (r, buf', rs') \<Longrightarrow> \<exists>more. buf' = buf @ more"
  by (induction n buf rs rule: read_until.induct) (fastforce split: if_splits sum.splits)+

lemma read_frame_Inr:
  assumes "read_frame cursor max_length buf rs = (Inr (tag, frame_end), buf', rs')"
  shows "cursor + 5 \<le> frame_end" "frame_end \<le> length buf'" "buf' @ chunk_bytes rs' = buf @ chunk_bytes rs"
proof -
  obtain u1 buf1 rs1 u2 where r1: "read_until (cursor + 5) buf rs = (Inr u1, buf1, rs1)"
    and len: "\<not> from_be_bytes (take 4 (drop (cursor + 1) buf1)) < 4"
    and fe: "frame_end = cursor + (1 + nat (from_be_bytes (take 4 (drop (cursor + 1) buf1))))"
    and r2: "read_until frame_end buf1 rs1 = (Inr u2, buf', rs')"
    using assms
    by (auto simp: read_frame_def Let_def split: prod.splits sum.splits if_splits)
  show "cursor + 5 \<le> frame_end" using len fe by linarith
  show "frame_end \<le> length buf'" by (rule read_until_length [OF r2])
  show "buf' @ chunk_bytes rs' = buf @ chunk_bytes rs"
    using read_until_bytes [OF r1] read_until_bytes [OF r2] by simp
qed

lemma read_frame_progress:
  assumes "read_frame cursor max_length buf rs = (Inr (tag, frame_end), buf', rs')"
  shows "length buf' + length (chunk_bytes rs') - frame_end < length buf + length (chunk_bytes rs) - cursor"
proof -
  note r = read_frame_Inr [OF assms]
  have "length buf' + length (chunk_bytes rs') = length buf + length (chunk_bytes rs)"
    using arg_cong [OF r(3), of length] by simp
  with r(1,2) show ?thesis by linarith
qed

section \<open>Waiting for the session\<close>

text \<open>
  Every frame takes at least five bytes of the stream, so the loop ends when the stream does.
\<close>

function wait_frames ::
  "nat \<Rightarrow> u8 list \<Rightarrow> reads \<Rightarrow> ('p UpstreamError + u8 list) \<times> u8 list \<times> reads" where
  "wait_frames cursor buf rs =
     (case read_frame cursor 2147483647 buf rs of
        (Inl e, buf1, rs1) \<Rightarrow> (Inl e, buf1, rs1)
      | (Inr (tag, frame_end), buf1, rs1) \<Rightarrow>
          if tag = 90 \<or> tag = 69 then (Inr (take frame_end buf1), drop frame_end buf1, rs1)
          else wait_frames frame_end buf1 rs1)"
  by pat_completeness auto
termination
  by (relation "measure (\<lambda>(cursor, buf, rs). length buf + length (chunk_bytes rs) - cursor)")
    (auto intro: read_frame_progress [OF sym])

declare wait_frames.simps [simp del]

definition wait_for_ready_for_query ::
  "u8 list \<Rightarrow> reads \<Rightarrow> ('p UpstreamError + u8 list) \<times> u8 list \<times> reads" where
  "wait_for_ready_for_query buf rs = wait_frames 0 buf rs"

section \<open>Startup\<close>

text \<open>Parameters are a map from names to values.\<close>

definition forwardable :: "(string \<rightharpoonup> string) \<Rightarrow> (string \<rightharpoonup> string)" where
  "forwardable client_params = client_params |` (- {''database'', ''replication''})"

text \<open>
  \<open>encode\<close> is the encoder of the startup message, \<open>write\<close> the answer of the socket to a write,
  \<open>decode\<close> the decoder of an authentication message: an error, no message, or whether it is
  \<open>AuthenticationOk\<close>; \<open>max_auth\<close> is the longest such message.
\<close>

record 'p codec =
  encode_startup :: "(string \<rightharpoonup> string) \<Rightarrow> 'p ProtocolError + u8 list"
  decode_authentication :: "u8 list \<Rightarrow> 'p ProtocolError + bool option"
  max_authentication :: nat

definition send_startup ::
  "'p codec \<Rightarrow> (u8 list \<Rightarrow> io_error + unit) \<Rightarrow> string \<Rightarrow> (string \<rightharpoonup> string)
     \<Rightarrow> 'p UpstreamError + u8 list" where
  "send_startup cd write db_name client_params =
     (case encode_startup cd ((forwardable client_params)(''database'' \<mapsto> db_name)) of
        Inl e \<Rightarrow> Inl (Protocol e)
      | Inr out \<Rightarrow> (case write out of Inl e \<Rightarrow> Inl (Io e) | Inr u \<Rightarrow> Inr out))"

definition authenticate ::
  "'p codec \<Rightarrow> (u8 list \<Rightarrow> io_error + unit) \<Rightarrow> string \<Rightarrow> (string \<rightharpoonup> string) \<Rightarrow> reads
     \<Rightarrow> 'p UpstreamError + (u8 list \<times> reads)" where
  "authenticate cd write db_name client_params rs =
     bind_res (send_startup cd write db_name client_params) (\<lambda>out.
       case read_frame 0 (max_authentication cd) [] rs of
         (Inl e, buf, rs1) \<Rightarrow> Inl e
       | (Inr (tag, frame_end), buf, rs1) \<Rightarrow>
           if tag = 82 then
             let len = int frame_end - 1 in
             if len < 8 then Inl (InvalidFrameLength len)
             else let code = from_be_bytes (take 4 (drop 5 buf)) in
                  if code = 5 \<and> len < 12 then Inl (InvalidFrameLength len)
                  else case decode_authentication cd (take frame_end buf) of
                         Inl e \<Rightarrow> Inl (Protocol e)
                       | Inr None \<Rightarrow> Inl (InvalidFrameLength len)
                       | Inr (Some ok) \<Rightarrow>
                           if ok then Inr (drop frame_end buf, rs1) else Inl UnsupportedAuthentication
           else if tag = 69 then Inl StartupRejected
           else Inl (UnexpectedMessage tag))"

text \<open>
  \<open>open_stream\<close> answers the attempt to connect to an address; the path of a Unix socket is built
  from a host that begins with a slash.
\<close>

datatype upstream_address = UnixPath string | TcpAddress string u16

definition upstream_target :: "string \<Rightarrow> u16 \<Rightarrow> upstream_address" where
  "upstream_target host port =
     (if host \<noteq> [] \<and> hd host = CHR ''/''
      then UnixPath (host @ (if last host = CHR ''/'' then [] else ''/'') @ ''.s.PGSQL.'' @ show_nat (unat port))
      else TcpAddress host port)"

definition connect_stream ::
  "(upstream_address \<Rightarrow> io_error + reads) \<Rightarrow> string \<Rightarrow> u16 \<Rightarrow> 'p UpstreamError + reads" where
  "connect_stream open_stream host port =
     (case open_stream (upstream_target host port) of Inl e \<Rightarrow> Inl (Io e) | Inr rs \<Rightarrow> Inr rs)"

definition connect_upstream ::
  "'p codec \<Rightarrow> (upstream_address \<Rightarrow> io_error + reads) \<Rightarrow> (u8 list \<Rightarrow> io_error + unit) \<Rightarrow> string
     \<Rightarrow> (string \<rightharpoonup> string) \<Rightarrow> string \<Rightarrow> u16 \<Rightarrow> 'p UpstreamError + UpstreamSession" where
  "connect_upstream cd open_stream write db_name client_params host port =
     bind_res (connect_stream open_stream host port) (\<lambda>rs.
       bind_res (authenticate cd write db_name client_params rs) (\<lambda>(decode_buffer, rs1).
         case wait_for_ready_for_query decode_buffer rs1 of
           (Inl e, buf, rs2) \<Rightarrow> Inl e
         | (Inr burst, buf, rs2) \<Rightarrow> Inr \<lparr>upstream_reads = rs2, session_burst = burst\<rparr>))"

section \<open>Framing does not depend on the chunks\<close>

text \<open>A message on the wire: its tag, the length of the rest in four bytes, the payload.\<close>

definition be_bytes :: "nat \<Rightarrow> u8 list" where
  "be_bytes n = [of_nat (n div 16777216), of_nat (n div 65536), of_nat (n div 256), of_nat n]"

definition frame :: "u8 \<times> u8 list \<Rightarrow> u8 list" where
  "frame m = fst m # be_bytes (length (snd m) + 4) @ snd m"

definition fits :: "u8 \<times> u8 list \<Rightarrow> bool" where
  "fits m \<longleftrightarrow> length (snd m) + 4 \<le> 2147483647"

definition all_data :: "reads \<Rightarrow> bool" where
  "all_data rs \<longleftrightarrow> list_all (\<lambda>r. case r of Inl e \<Rightarrow> False | Inr c \<Rightarrow> c \<noteq> []) rs"

lemma be_bytes_value:
  assumes "n < 2147483648"
  shows "from_be_bytes (be_bytes n) = int n"
proof -
  have u: "unat (of_nat k :: u8) = k mod 256" for k by (simp add: unat_of_nat)
  define a b c where "a = n div 256" and "b = a div 256" and "c = b div 256"
  have abc: "n div 65536 = b" "n div 16777216 = c"
    by (simp_all add: a_def b_def c_def div_mult2_eq [symmetric])
  have "n = 256 * a + n mod 256" "a = 256 * b + a mod 256" "b = 256 * c + b mod 256"
    by (simp_all add: a_def b_def c_def)
  moreover have "c < 256" using assms by (simp add: c_def b_def a_def div_mult2_eq [symmetric] less_mult_imp_div_less)
  ultimately have "c mod 256 * 16777216 + b mod 256 * 65536 + a mod 256 * 256 + n mod 256 = n" by simp
  then have "from_be_bytes (be_bytes n) = sint (of_nat n :: 32 word)"
    by (simp add: from_be_bytes_def be_bytes_def u abc a_def [symmetric])
  also have "\<dots> = int n"
    using assms by (simp add: signed_of_nat signed_take_bit_int_eq_self)
  finally show ?thesis .
qed

lemma read_until_data:
  assumes "all_data rs" "n \<le> length buf + length (chunk_bytes rs)"
  shows "\<exists>buf' rs'. read_until n buf rs = (Inr (), buf', rs') \<and> all_data rs'"
  using assms
proof (induction n buf rs rule: read_until.induct)
  case (2 n buf r rs)
  then show ?case by (cases r) (auto simp: all_data_def)
qed (simp add: all_data_def)

lemma read_until_take:
  assumes "all_data rs" "buf @ chunk_bytes rs = front @ post" "n = length front"
  obtains buf' rs' more where "read_until n buf rs = (Inr (), buf', rs')" "all_data rs'"
    "buf' = front @ more" "more @ chunk_bytes rs' = post"
proof -
  have "n \<le> length buf + length (chunk_bytes rs)" using arg_cong [OF assms(2), of length] assms(3) by simp
  from read_until_data [OF assms(1) this] obtain buf' rs' where
    r: "read_until n buf rs = (Inr (), buf', rs')" "all_data rs'" by blast
  have e: "buf' @ chunk_bytes rs' = front @ post" using read_until_bytes [OF r(1)] assms(2) by simp
  have "length front \<le> length buf'" using read_until_length [OF r(1)] assms(3) by simp
  with e obtain more where "buf' = front @ more" by (metis append_eq_append_conv_if append_take_drop_id)
  with r e that show thesis by simp
qed

lemma read_frame_data:
  assumes "all_data rs" "buf @ chunk_bytes rs = pre @ frame m @ post" "fits m" "length (snd m) + 4 \<le> max_length"
    and "length (pre @ frame m) < 2 ^ 64"
  obtains buf' rs' more where
    "read_frame (length pre) max_length buf rs = (Inr (fst m, length (pre @ frame m)), buf', rs')"
    "all_data rs'" "buf' = pre @ frame m @ more" "more @ chunk_bytes rs' = post"
proof -
  let ?n = "length (snd m) + 4"
  let ?head = "pre @ fst m # be_bytes ?n"
  have "length (be_bytes ?n) = 4" by (simp add: be_bytes_def)
  then have len: "length pre + 5 = length ?head" "length (pre @ frame m) = length pre + (1 + ?n)"
    by (simp_all add: frame_def)
  have "buf @ chunk_bytes rs = ?head @ snd m @ post" using assms(2) by (simp add: frame_def)
  from read_until_take [OF assms(1) this len(1)] obtain buf1 rs1 m1 where
    r1: "read_until (length pre + 5) buf rs = (Inr (), buf1, rs1)" "all_data rs1" "buf1 = ?head @ m1"
      "m1 @ chunk_bytes rs1 = snd m @ post" .
  have "take 4 (drop (length pre + 1) buf1) = be_bytes ?n" using r1(3) \<open>length (be_bytes ?n) = 4\<close> by simp
  then have size: "from_be_bytes (take 4 (drop (length pre + 1) buf1)) = int ?n"
    using be_bytes_value [of ?n] assms(3) by (simp add: fits_def)
  have "buf1 @ chunk_bytes rs1 = (pre @ frame m) @ post" using r1(3,4) by (simp add: frame_def)
  from read_until_take [OF r1(2) this refl] obtain buf2 rs2 m2 where
    r2: "read_until (length (pre @ frame m)) buf1 rs1 = (Inr (), buf2, rs2)" "all_data rs2"
      "buf2 = (pre @ frame m) @ m2" "m2 @ chunk_bytes rs2 = post" .
  have "buf2 ! length pre = fst m" using r2(3) by (simp add: frame_def)
  then have "read_frame (length pre) max_length buf rs = (Inr (fst m, length (pre @ frame m)), buf2, rs2)"
  proof -
    define n where "n = ?n"
    have "from_be_bytes (take 4 (drop (length pre + 1) buf1)) = int n" "n \<le> max_length" "4 \<le> n"
      "length pre + (1 + n) = length (pre @ frame m)"
      using size assms(4) len(2) by (simp_all add: n_def)
    then show ?thesis
      unfolding read_frame_def r1(1) prod.case sum.case
      using r2(1) assms(5) \<open>buf2 ! length pre = fst m\<close> by (simp add: Let_def)
  qed
  with r2 that show thesis by simp
qed

lemma wait_frames_data:
  assumes "all_data rs" "buf @ chunk_bytes rs = pre @ concat (map frame ms) @ frame z @ post"
    and "\<forall>m \<in> set ms. fits m \<and> fst m \<noteq> 90 \<and> fst m \<noteq> 69" "fits z" "fst z = 90 \<or> fst z = 69"
    and "length (pre @ concat (map frame ms) @ frame z) < 2 ^ 64"
  shows "\<exists>more rs'. (wait_frames (length pre) buf rs :: ('p UpstreamError + u8 list) \<times> u8 list \<times> reads) = (Inr (pre @ concat (map frame ms) @ frame z), more, rs') \<and>
           more @ chunk_bytes rs' = post"
  using assms
proof (induction ms arbitrary: pre buf rs)
  case Nil
  have "buf @ chunk_bytes rs = pre @ frame z @ post" "length (snd z) + 4 \<le> 2147483647" "length (pre @ frame z) < 2 ^ 64"
    using Nil.prems by (simp_all add: fits_def)
  from read_frame_data [OF Nil.prems(1) this(1) Nil.prems(4) this(2,3)] obtain buf' rs' more where
    "(read_frame (length pre) 2147483647 buf rs :: ('p UpstreamError + (u8 \<times> nat)) \<times> u8 list \<times> reads) = (Inr (fst z, length (pre @ frame z)), buf', rs')"
    "buf' = pre @ frame z @ more" "more @ chunk_bytes rs' = post" .
  with Nil.prems(5) show ?case by (subst wait_frames.simps) auto
next
  case (Cons m ms)
  have m: "fits m" "fst m \<noteq> 90" "fst m \<noteq> 69" using Cons.prems(3) by simp_all
  have "buf @ chunk_bytes rs = pre @ frame m @ (concat (map frame ms) @ frame z @ post)"
    "length (snd m) + 4 \<le> 2147483647" "length (pre @ frame m) < 2 ^ 64"
    using Cons.prems(2,6) m(1) by (simp_all add: fits_def)
  from read_frame_data [OF Cons.prems(1) this(1) m(1) this(2,3)] obtain buf' rs' more where
    r: "(read_frame (length pre) 2147483647 buf rs :: ('p UpstreamError + (u8 \<times> nat)) \<times> u8 list \<times> reads) = (Inr (fst m, length (pre @ frame m)), buf', rs')" "all_data rs'"
    "buf' = pre @ frame m @ more" "more @ chunk_bytes rs' = concat (map frame ms) @ frame z @ post" .
  have "\<exists>more rs''. (wait_frames (length (pre @ frame m)) buf' rs' :: ('p UpstreamError + u8 list) \<times> u8 list \<times> reads) =
      (Inr ((pre @ frame m) @ concat (map frame ms) @ frame z), more, rs'') \<and> more @ chunk_bytes rs'' = post"
    by (rule Cons.IH) (use Cons.prems r in auto)
  with r(1) m show ?case by (subst wait_frames.simps) auto
qed

text \<open>
  C36: however the bytes of PostgreSQL are cut into reads, what is forwarded to the client as the
  start of its session is every message after the authentication up to and including the first
  \<open>ReadyForQuery\<close> or \<open>ErrorResponse\<close>, byte for byte; bytes that were read behind it stay in the
  buffer of the handshake.
\<close>

theorem session_burst_complete:
  assumes "all_data rs" "buf @ chunk_bytes rs = concat (map frame ms) @ frame z @ post"
    and "\<forall>m \<in> set ms. fits m \<and> fst m \<noteq> 90 \<and> fst m \<noteq> 69" "fits z" "fst z = 90 \<or> fst z = 69"
    and "length (concat (map frame ms) @ frame z) < 2 ^ 64"
  shows "\<exists>more rs'. wait_for_ready_for_query buf rs = (Inr (concat (map frame ms) @ frame z), more, rs') \<and>
           more @ chunk_bytes rs' = post"
  using wait_frames_data [of rs buf "[]" ms z post] assms by (simp add: wait_for_ready_for_query_def)

theorem session_burst_complete_witness:
  "\<exists>more rs'. wait_for_ready_for_query [75, 0, 0] [Inr [0, 5], Inr [7, 90, 0], Inr [0, 0, 5, 73, 1]] =
     (Inr [75, 0, 0, 0, 5, 7, 90, 0, 0, 0, 5, 73], more, rs') \<and> more @ chunk_bytes rs' = [1]"
proof -
  have f: "frame (75, [7]) = [75, 0, 0, 0, 5, 7]" "frame (90, [73]) = [90, 0, 0, 0, 5, 73]"
    by (simp_all add: frame_def be_bytes_def)
  show ?thesis
    using session_burst_complete [of "[Inr [0, 5], Inr [7, 90, 0], Inr [0, 0, 5, 73, 1]]" "[75, 0, 0]" "[(75, [7])]" "(90, [73])" "[1]"]
    by (simp add: f fits_def all_data_def)
qed

text \<open>
  The startup message asks for the leased database whatever database the client named, never
  asks for replication, and forwards every other parameter of the client unchanged.
\<close>

lemma startup_parameters:
  assumes "send_startup cd write db_name client_params = Inr out"
  shows "\<exists>params. encode_startup cd params = Inr out \<and> params ''database'' = Some db_name \<and>
           params ''replication'' = None \<and>
           (\<forall>k. k \<noteq> ''database'' \<and> k \<noteq> ''replication'' \<longrightarrow> params k = client_params k)"
  using assms
  by (intro exI [of _ "(forwardable client_params)(''database'' \<mapsto> db_name)"])
    (auto simp: send_startup_def forwardable_def restrict_map_def split: sum.splits)

end
