(* ===== verification/Connection.thy ===== *)
theory Connection
  imports Worker_Io Postgres_Upstream
begin

text \<open>
  A client connection (crates/pgtest-wire/src/connection.rs and session_relay.rs): from the startup
  message to the relay between the client and its database. The messages of the client, the codec
  and the sockets are parameters; the handler is the list of what it does, in order.
\<close>

section \<open>The database field\<close>

datatype ConnectionFieldError = InvalidFormat | FieldInvalidLeaseId InvalidLeaseId

definition split_once :: "char \<Rightarrow> string \<Rightarrow> (string \<times> string) option" where
  "split_once c s =
     (if c \<in> set s then Some (takeWhile (\<lambda>x. x \<noteq> c) s, tl (dropWhile (\<lambda>x. x \<noteq> c) s)) else None)"

definition parse_connection_field :: "string \<Rightarrow> ConnectionFieldError + (string \<times> LeaseId)" where
  "parse_connection_field input =
     (case split_once (CHR ''/'') input of
        None \<Rightarrow> Inl InvalidFormat
      | Some (db, lease) \<Rightarrow>
          if db = [] \<or> CHR ''/'' \<in> set lease then Inl InvalidFormat
          else case LeaseId_new lease of
                 Inl e \<Rightarrow> Inl (FieldInvalidLeaseId e)
               | Inr l \<Rightarrow> Inr (db, l))"

lemma split_once_Some: "split_once c s = Some (a, b) \<longleftrightarrow> c \<notin> set a \<and> s = a @ c # b"
proof
  assume "split_once c s = Some (a, b)"
  then have c: "c \<in> set s" "a = takeWhile (\<lambda>x. x \<noteq> c) s" "b = tl (dropWhile (\<lambda>x. x \<noteq> c) s)"
    by (auto simp: split_once_def split: if_splits)
  have "dropWhile (\<lambda>x. x \<noteq> c) s \<noteq> []" using c(1) by auto
  moreover have "hd (dropWhile (\<lambda>x. x \<noteq> c) s) = c" using hd_dropWhile [OF \<open>dropWhile _ _ \<noteq> []\<close>] by simp
  ultimately have "dropWhile (\<lambda>x. x \<noteq> c) s = c # b" using c(3) by (metis list.collapse)
  then show "c \<notin> set a \<and> s = a @ c # b"
    using c(2) by (metis (mono_tags, lifting) set_takeWhileD takeWhile_dropWhile_id)
next
  assume "c \<notin> set a \<and> s = a @ c # b"
  then have "takeWhile (\<lambda>x. x \<noteq> c) s = a" "dropWhile (\<lambda>x. x \<noteq> c) s = c # b" "c \<in> set s"
    by (auto simp: takeWhile_append dropWhile_append)
  then show "split_once c s = Some (a, b)" by (simp add: split_once_def)
qed

lemma parse_connection_field_sound:
  assumes "parse_connection_field s = Inr (db, l)"
  shows "db \<noteq> [] \<and> CHR ''/'' \<notin> set db \<and> valid_lease_str (lease_str l) \<and> s = db @ ''/'' @ lease_str l"
proof -
  obtain lease where "split_once (CHR ''/'') s = Some (db, lease)" "db \<noteq> []" "LeaseId_new lease = Inr l"
    using assms by (auto simp: parse_connection_field_def split: option.splits if_splits sum.splits)
  then show ?thesis by (simp add: split_once_Some)
qed

text \<open>
  C34: the database field of a client is accepted exactly when it is a non-empty template name
  without a slash, one slash, and a valid lease identifier; the two parts are returned unchanged,
  so formatting them again gives the field back.
\<close>

theorem parse_connection_field_roundtrip:
  "parse_connection_field s = Inr (db, l) \<longleftrightarrow>
     db \<noteq> [] \<and> CHR ''/'' \<notin> set db \<and> valid_lease_str (lease_str l) \<and> s = db @ ''/'' @ lease_str l"
proof
  assume v: "db \<noteq> [] \<and> CHR ''/'' \<notin> set db \<and> valid_lease_str (lease_str l) \<and> s = db @ ''/'' @ lease_str l"
  then have "split_once (CHR ''/'') s = Some (db, lease_str l)" by (simp add: split_once_Some)
  moreover have "LeaseId_new (lease_str l) = Inr l" "CHR ''/'' \<notin> set (lease_str l)"
    using v by (simp_all add: valid_lease_str_def)
  ultimately show "parse_connection_field s = Inr (db, l)" using v by (simp add: parse_connection_field_def del: LeaseId_new_Inr)
qed (rule parse_connection_field_sound)

section \<open>Relay\<close>

definition RELAY_BUF :: nat where
  "RELAY_BUF = 16 * 1024"

datatype relay_event = WriteUpstream "u8 list" | WriteClient "u8 list" | CopyBidirectional nat

text \<open>
  Whether each write and the copy succeed, and how many of these events have begun when the lease is
  cancelled, if it is cancelled before the last of them has ended. The cancellation is polled first,
  so that a lease that is cancelled already relays nothing.
\<close>

record relay_env =
  upstream_writes :: "u8 list \<Rightarrow> bool"
  client_writes :: "u8 list \<Rightarrow> bool"
  copy_ends_ok :: bool
  cancelled_after :: "nat option"

definition relay_steps :: "relay_env \<Rightarrow> u8 list \<Rightarrow> u8 list \<Rightarrow> relay_event list \<times> bool" where
  "relay_steps env remaining burst =
     (if remaining \<noteq> [] \<and> \<not> upstream_writes env remaining then ([WriteUpstream remaining], False)
      else let first = (if remaining \<noteq> [] then [WriteUpstream remaining] else []) in
           if \<not> client_writes env burst then (first @ [WriteClient burst], False)
           else (first @ [WriteClient burst, CopyBidirectional RELAY_BUF], copy_ends_ok env))"

definition relay_run :: "relay_env \<Rightarrow> u8 list \<Rightarrow> UpstreamSession \<Rightarrow> relay_event list \<times> bool" where
  "relay_run env remaining upstream_session =
     (let (events, ok) = relay_steps env remaining (session_burst upstream_session) in
      case cancelled_after env of
        Some n \<Rightarrow> if n \<le> length events then (take n events, True) else (events, ok)
      | None \<Rightarrow> (events, ok))"

section \<open>The startup message\<close>

datatype ('t, 'u) ClientStream = TcpStream 't | UnixStream 'u

text \<open>
  What the crate pgwire does with a stream: the negotiation of TLS on a TCP stream, which also frames
  it and may end without a connection; the framing of a Unix stream for a client with an address and
  without TLS; the state of the codec; and the next message of a framed stream, where only the
  startup message is told apart. \<open>'e\<close> are its errors.
\<close>

datatype PgWireConnectionState = AwaitingStartup | OtherConnectionState

datatype PgWireFrontendMessage = StartupMessage "string \<rightharpoonup> string" | OtherFrontendMessage

record ('t, 'u, 'f, 'e) stream_codec =
  negotiate_tls :: "'t \<Rightarrow> 'e + 'f option"
  frame_unix :: "'u \<Rightarrow> u8 list \<times> u16 \<Rightarrow> bool \<Rightarrow> 'f"
  set_state :: "PgWireConnectionState \<Rightarrow> 'f \<Rightarrow> 'f"
  next_message :: "'f \<Rightarrow> ('e + PgWireFrontendMessage) option \<times> 'f"

definition framed_stream :: "('t, 'u, 'f, 'e) stream_codec \<Rightarrow> ('t, 'u) ClientStream \<Rightarrow> 'f option" where
  "framed_stream sc client =
     (case client of
        TcpStream stream \<Rightarrow> (case negotiate_tls sc stream of Inl e \<Rightarrow> None | Inr framed \<Rightarrow> framed)
      | UnixStream stream \<Rightarrow> Some (set_state sc AwaitingStartup (frame_unix sc stream ([127, 0, 0, 1], 0) False)))"

definition ClientStream_startup ::
  "('t, 'u, 'f, 'e) stream_codec \<Rightarrow> ('t, 'u) ClientStream \<Rightarrow> ('f \<times> (string \<rightharpoonup> string)) option" where
  "ClientStream_startup sc client =
     (case framed_stream sc client of
        None \<Rightarrow> None
      | Some framed \<Rightarrow>
          (case next_message sc framed of
             (Some (Inr (StartupMessage params)), framed') \<Rightarrow> Some (framed', params)
           | _ \<Rightarrow> None))"

section \<open>The handler\<close>

datatype conn_action =
    SendError string string string
  | SendAuthenticationOk
  | ServeControlPanel
  | AttachLease string LeaseId
  | RelayEvent relay_event
  | EndSession LeaseSession

definition reject_connection :: "string \<Rightarrow> string \<Rightarrow> conn_action" where
  "reject_connection code message = SendError ''FATAL'' code message"

definition attach_code :: "AttachError \<Rightarrow> string" where
  "attach_code e =
     (case e of
        AttachInvalidLeaseId \<Rightarrow> ''22023''
      | AttachLeaseRecordLimitReached \<Rightarrow> ''53400''
      | LeaseClosed \<Rightarrow> ''55000''
      | TemplateMismatch \<Rightarrow> ''3D000''
      | _ \<Rightarrow> ''08006'')"

definition attach_message :: "AttachError \<Rightarrow> string" where
  "attach_message e =
     (case e of
        AttachInvalidLeaseId \<Rightarrow> ''invalid lease ID''
      | AttachLeaseRecordLimitReached \<Rightarrow> ''the lease record limit has been reached''
      | LeaseClosed \<Rightarrow> ''the lease has been released''
      | TemplateMismatch \<Rightarrow> ''database does not match the configured template''
      | AttachEngineUnavailable \<Rightarrow> ''the worker engine is unavailable''
      | TimedOut \<Rightarrow> ''timed out waiting for a database''
      | Failed \<Rightarrow> ''the worker engine could not attach this lease'')"

text \<open>
  What a connection meets: the parameters of its startup message, if the startup yields one, and
  whether that takes less than a minute; whether the protocol is negotiated and the authentication reply sent; the answer
  to its attachment; whether the lease is cancelled while the upstream connection is made; the
  upstream connection, and the bytes the client has sent ahead.
\<close>

record 'p conn_env =
  client_startup :: "(string \<rightharpoonup> string) option"
  startup_in_time :: bool
  negotiated :: bool
  auth_sent :: bool
  attach_answer :: "string \<Rightarrow> LeaseId \<Rightarrow> AttachError + LeaseSession"
  lease_cancelled :: bool
  upstream :: "ReadString \<Rightarrow> (string \<rightharpoonup> string) \<Rightarrow> 'p UpstreamError + UpstreamSession"
  read_ahead :: "u8 list"
  relay :: relay_env

definition startup_params :: "'p conn_env \<Rightarrow> (string \<rightharpoonup> string) option" where
  "startup_params env = (if startup_in_time env then client_startup env else None)"

text \<open>The session is dropped at the end of every path that has one.\<close>

definition serve_session :: "'p conn_env \<Rightarrow> (string \<rightharpoonup> string) \<Rightarrow> LeaseSession \<Rightarrow> conn_action list" where
  "serve_session env params session =
     (if lease_cancelled env
      then [reject_connection ''55000'' ''lease was closed during connection startup'']
      else case upstream env (session_database_name session) params of
             Inl e \<Rightarrow> [reject_connection ''08006'' ''unable to connect to PostgreSQL'']
           | Inr upstream_session \<Rightarrow>
               map RelayEvent (fst (relay_run (relay env) (read_ahead env) upstream_session)))
     @ [EndSession session]"

definition attach_client :: "'p conn_env \<Rightarrow> (string \<rightharpoonup> string) \<Rightarrow> string \<Rightarrow> conn_action list" where
  "attach_client env params field =
     (case parse_connection_field field of
        Inl e \<Rightarrow> [reject_connection ''22023'' ''expected template/lease-id with a valid lease ID'']
      | Inr (database_name, lease_id) \<Rightarrow>
          AttachLease database_name lease_id #
            (case attach_answer env database_name lease_id of
               Inl e \<Rightarrow> [reject_connection (attach_code e) (attach_message e)]
             | Inr session \<Rightarrow> serve_session env params session))"

definition handle_connection :: "'p conn_env \<Rightarrow> conn_action list" where
  "handle_connection env =
     (case startup_params env of
        None \<Rightarrow> []
      | Some params \<Rightarrow>
          if params ''replication'' \<noteq> None
          then [reject_connection ''0A000'' ''replication connections are not supported'']
          else case params ''database'' of
                 None \<Rightarrow> [reject_connection ''3D000'' ''database is required in the connection URI'']
               | Some field \<Rightarrow>
                   if field = ''pgtest'' then [ServeControlPanel]
                   else if \<not> negotiated env then []
                   else if \<not> auth_sent env then []
                   else SendAuthenticationOk # attach_client env params field)"

text \<open>The four ways a connection can go.\<close>

lemma connection_cases:
  obtains (unattached) "\<forall>a \<in> set (handle_connection env).
       (\<exists>s c m. a = SendError s c m) \<or> a = SendAuthenticationOk \<or> a = ServeControlPanel"
  | (refused) params db l s c m where "startup_params env = Some params" "params ''replication'' = None"
      "params ''database'' = Some (db @ ''/'' @ lease_str l)" "valid_lease_str (lease_str l)"
      "isl (attach_answer env db l)"
      "handle_connection env = [SendAuthenticationOk, AttachLease db l, SendError s c m]"
  | (closed) params db l x s c m where "startup_params env = Some params" "params ''replication'' = None"
      "params ''database'' = Some (db @ ''/'' @ lease_str l)" "valid_lease_str (lease_str l)"
      "attach_answer env db l = Inr x"
      "handle_connection env = [SendAuthenticationOk, AttachLease db l, SendError s c m, EndSession x]"
  | (relayed) params db l x es where "startup_params env = Some params" "params ''replication'' = None"
      "params ''database'' = Some (db @ ''/'' @ lease_str l)" "valid_lease_str (lease_str l)"
      "attach_answer env db l = Inr x"
      "handle_connection env = [SendAuthenticationOk, AttachLease db l] @ map RelayEvent es @ [EndSession x]"
proof (cases "\<exists>params field db l. startup_params env = Some params \<and> params ''replication'' = None \<and>
    params ''database'' = Some field \<and> field \<noteq> ''pgtest'' \<and> negotiated env \<and> auth_sent env \<and>
    parse_connection_field field = Inr (db, l)")
  case False
  have "handle_connection env = [] \<or> (\<exists>s c m. handle_connection env = [SendError s c m]) \<or>
      handle_connection env = [ServeControlPanel] \<or>
      (\<exists>s c m. handle_connection env = [SendAuthenticationOk, SendError s c m])"
  proof (cases "startup_params env")
    case (Some params)
    show ?thesis
    proof (cases "params ''replication'' = None \<and> params ''database'' \<noteq> None")
      case True
      then obtain field where p: "params ''replication'' = None" "params ''database'' = Some field" by auto
      have "isl (parse_connection_field field)" if "field \<noteq> ''pgtest''" "negotiated env" "auth_sent env"
        using False Some p that by (cases "parse_connection_field field") auto
      with Some p show ?thesis
        by (auto simp: handle_connection_def attach_client_def reject_connection_def isl_def)
    qed (use Some in \<open>auto simp: handle_connection_def reject_connection_def\<close>)
  qed (simp add: handle_connection_def)
  then show thesis by (intro unattached) auto
next
  case True
  then obtain params field db l where c: "startup_params env = Some params" "params ''replication'' = None"
    "params ''database'' = Some field" "field \<noteq> ''pgtest''" "negotiated env" "auth_sent env"
    "parse_connection_field field = Inr (db, l)" by blast
  from parse_connection_field_sound [OF c(7)] have f: "valid_lease_str (lease_str l)" "field = db @ ''/'' @ lease_str l"
    by simp_all
  have h: "handle_connection env = SendAuthenticationOk # AttachLease db l #
      (case attach_answer env db l of Inl e \<Rightarrow> [reject_connection (attach_code e) (attach_message e)]
       | Inr x \<Rightarrow> serve_session env params x)"
    using c by (simp add: handle_connection_def attach_client_def)
  note c = c(1,2) c(3) [unfolded f(2)] f(1)
  show thesis
  proof (cases "attach_answer env db l")
    case (Inl e)
    with h show thesis by (intro refused [OF c]) (simp_all add: reject_connection_def)
  next
    case (Inr x)
    show thesis
    proof (cases "lease_cancelled env \<or> isl (upstream env (session_database_name x) params)")
      case True
      then have "\<exists>s c m. serve_session env params x = [SendError s c m, EndSession x]"
        by (auto simp: serve_session_def reject_connection_def isl_def)
      with h Inr show thesis by (auto intro: closed [OF c Inr])
    next
      case False
      then obtain u where "upstream env (session_database_name x) params = Inr u" "\<not> lease_cancelled env"
        by (cases "upstream env (session_database_name x) params") auto
      with h Inr show thesis by (intro relayed [OF c Inr]) (simp add: serve_session_def)
    qed
  qed
qed

text \<open>
  C35: a connection asks for a lease only when its startup message is no replication request and
  names a template and a valid lease; every session it obtains is dropped exactly once, as its last
  action, whether the lease was closed, PostgreSQL refused or the relay ended; and a client that
  receives an error is never relayed to a database.
\<close>

theorem connection_safe:
  "(AttachLease db l \<in> set (handle_connection env) \<longrightarrow>
      (\<exists>params. startup_params env = Some params \<and> params ''replication'' = None \<and>
         params ''database'' = Some (db @ ''/'' @ lease_str l) \<and> valid_lease_str (lease_str l))) \<and>
   (\<forall>x. EndSession x \<in> set (handle_connection env) \<longrightarrow>
      last (handle_connection env) = EndSession x \<and>
      (\<exists>db l. AttachLease db l \<in> set (handle_connection env) \<and> attach_answer env db l = Inr x) \<and>
      length (filter (\<lambda>a. \<exists>y. a = EndSession y) (handle_connection env)) = 1) \<and>
   (\<forall>db l x. AttachLease db l \<in> set (handle_connection env) \<and> attach_answer env db l = Inr x \<longrightarrow>
      EndSession x \<in> set (handle_connection env)) \<and>
   (\<forall>s c m e. SendError s c m \<in> set (handle_connection env) \<longrightarrow> RelayEvent e \<notin> set (handle_connection env))"
proof (cases rule: connection_cases [of env])
  case unattached
  then have "AttachLease d k \<notin> set (handle_connection env)" "EndSession x \<notin> set (handle_connection env)"
    "RelayEvent e \<notin> set (handle_connection env)" for d k x e
    by auto
  then show ?thesis by blast
next
  case (refused params db' l' s c m)
  then show ?thesis by (auto simp: isl_def)
next
  case (closed params db' l' x s c m)
  then show ?thesis by auto
next
  case (relayed params db' l' x es)
  have "filter (\<lambda>a. \<exists>y. a = EndSession y) (map RelayEvent es) = []" by (simp add: filter_empty_conv)
  with relayed show ?thesis by auto
qed

theorem connection_safe_witness:
  "\<exists>env :: string conn_env. \<exists>x.
     handle_connection env = [SendAuthenticationOk, AttachLease ''app'' (LeaseId ''a''),
       reject_connection ''08006'' ''unable to connect to PostgreSQL'', EndSession x] \<and>
     startup_params env = Some [''database'' \<mapsto> ''app/a''] \<and>
     attach_answer env ''app'' (LeaseId ''a'') = Inr x \<and> last (handle_connection env) = EndSession x \<and>
     RelayEvent (WriteClient []) \<notin> set (handle_connection env)"
proof -
  define x where "x = LeaseSession_new ''app_1'' (LeaseId ''a'') 0 (ChildToken 0)"
  define env :: "string conn_env" where
    "env = \<lparr>client_startup = Some [''database'' \<mapsto> ''app/a''], startup_in_time = True, negotiated = True, auth_sent = True,
       attach_answer = (\<lambda>db l. Inr x), lease_cancelled = False,
       upstream = (\<lambda>db params. Inl StartupRejected), read_ahead = [],
       relay = \<lparr>upstream_writes = (\<lambda>b. True), client_writes = (\<lambda>b. True), copy_ends_ok = True,
         cancelled_after = None\<rparr>\<rparr>"
  have h: "handle_connection env = [SendAuthenticationOk, AttachLease ''app'' (LeaseId ''a''),
      reject_connection ''08006'' ''unable to connect to PostgreSQL'', EndSession x]"
    by (simp add: env_def handle_connection_def startup_params_def attach_client_def serve_session_def
        parse_connection_field_def split_once_def LeaseId_new_def NUL_def)
  then have "AttachLease ''app'' (LeaseId ''a'') \<in> set (handle_connection env)"
    "EndSession x \<in> set (handle_connection env)"
    "SendError ''FATAL'' ''08006'' ''unable to connect to PostgreSQL'' \<in> set (handle_connection env)"
    by (simp_all add: reject_connection_def)
  with connection_safe [of "''app''" "LeaseId ''a''" env]
  have "last (handle_connection env) = EndSession x" "RelayEvent (WriteClient []) \<notin> set (handle_connection env)"
    by blast+
  with h show ?thesis by (intro exI [of _ env] exI [of _ x]) (simp add: env_def startup_params_def)
qed

end
