(* ===== verification/Wire_Isolation.thy ===== *)
theory Wire_Isolation
  imports Client_Channels Connection
begin

text \<open>
  Client connections over a running manager. The steps of several connections (request, answer,
  upstream connection, end) are interleaved with each other and with every step of the manager. What
  each connection does in a run is what its handler does, and two clients are relayed to the same
  PostgreSQL database only when they named the same lease.
\<close>

section \<open>Connections and the manager\<close>

text \<open>
  How far a connection has come: it waits for the reply on its channel, it owns a session, or it
  relays between its client and an upstream connection. The environment of a connection holds the
  answers it meets, among them those of the manager and of PostgreSQL.
\<close>

datatype stage =
    Requested string LeaseId nat
  | Holding string LeaseId LeaseSession
  | Relaying string LeaseId LeaseSession UpstreamSession

type_synonym 'p connections = "nat \<rightharpoonup> 'p conn_env \<times> stage"

text \<open>The client has sent a startup message that names the template and the lease.\<close>

definition asks :: "('t, 'u, 'f, 'e) stream_codec \<Rightarrow> 'p conn_env \<Rightarrow> string \<Rightarrow> LeaseId \<Rightarrow> bool" where
  "asks sc env db l \<longleftrightarrow>
     (\<exists>client framed params field. ClientStream_startup sc client = Some (framed, params) \<and>
        startup_params env = Some params \<and> params ''replication'' = None \<and> params ''database'' = Some field \<and>
        field \<noteq> ''pgtest'' \<and> negotiated env \<and> auth_sent env \<and> parse_connection_field field = Inr (db, l))"

inductive wire_step ::
  "('t, 'u, 'f, 'e) stream_codec \<Rightarrow> 'p codec \<Rightarrow> WorkerEngineManager \<times> 'p connections
     \<Rightarrow> WorkerEngineManager \<times> 'p connections \<Rightarrow> bool"
  for sc cd where
  background: "manager_step w w' \<Longrightarrow> wire_step sc cd (w, cs) (w', cs)"
| request: "cs c = None \<Longrightarrow> asks sc env db l \<Longrightarrow> attach_request db l w = (Inr ch, w') \<Longrightarrow>
     wire_step sc cd (w, cs) (w', cs(c \<mapsto> (env, Requested db l ch)))"
| answered: "cs c = Some (env, Requested db l ch) \<Longrightarrow> attach_await ch w = (Ready (Inr x), w') \<Longrightarrow>
     attach_answer env db l = Inr x \<Longrightarrow>
     wire_step sc cd (w, cs) (w', cs(c \<mapsto> (env, Holding db l x)))"
| refused: "cs c = Some (env, Requested db l ch) \<Longrightarrow> attach_await ch w = (Ready (Inl e), w') \<Longrightarrow>
     attach_answer env db l = Inl e \<Longrightarrow>
     wire_step sc cd (w, cs) (w', cs(c := None))"
| connected: "cs c = Some (env, Holding db l x) \<Longrightarrow> \<not> is_cancelled (session_cancellation x) w \<Longrightarrow>
     \<not> lease_cancelled env \<Longrightarrow> startup_params env = Some params \<Longrightarrow>
     upstream env (session_database_name x) params = Inr us \<Longrightarrow>
     connect_upstream cd open_stream write (session_database_name x) params
       (host (pg_client w)) (port (pg_client w)) = Inr us \<Longrightarrow>
     wire_step sc cd (w, cs) (w, cs(c \<mapsto> (env, Relaying db l x us)))"
| ended: "cs c = Some (env, s) \<Longrightarrow> s = Holding db l x \<or> s = Relaying db l x us \<Longrightarrow>
     i < length (sessions w) \<Longrightarrow> sessions w ! i = x \<Longrightarrow>
     wire_step sc cd (w, cs) (end_session i w, cs(c := None))"

section \<open>The log of the engine grows\<close>

lemma calls_step:
  assumes "manager_step w w'" "manager_inv w"
  shows "set (calls (engine_handle w)) \<subseteq> set (calls (engine_handle w'))"
proof (cases rule: manager_step_kinds [OF assms])
  case 4
  then show ?thesis
  proof (cases rule: engine_turn_cases)
    case (turn msg rest go e log w1)
    from turn_prefix [OF assms(2) turn(1-3)] turn(4) have "calls e = calls (engine_handle w) @ log" by simp
    moreover have "set (calls e) \<subseteq> set (calls (engine_handle w'))"
      using turn(5,6) by (auto simp: carried_def record_call_def)
    ultimately show ?thesis by auto
  qed simp
qed (auto simp: silent_def attach_request_def release_request_def send_message_def post_def Let_def)

section \<open>The invariant\<close>

text \<open>The upstream connection was opened with a startup message that names the database of the session.\<close>

definition opened_for :: "'p codec \<Rightarrow> (string \<rightharpoonup> string) \<Rightarrow> ReadString \<Rightarrow> UpstreamSession \<Rightarrow> bool" where
  "opened_for cd params database_name us \<longleftrightarrow>
     (\<exists>open_stream write server_host server_port out.
        connect_upstream cd open_stream write database_name params server_host server_port = Inr us \<and>
        encode_startup cd ((forwardable params)(''database'' \<mapsto> database_name)) = Inr out \<and> write out = Inr ())"

definition holds :: "WorkerEngineManager \<Rightarrow> 'p conn_env \<Rightarrow> string \<Rightarrow> LeaseId \<Rightarrow> LeaseSession \<Rightarrow> bool" where
  "holds w env db l x \<longleftrightarrow>
     attach_answer env db l = Inr x \<and> session_lease_id x = l \<and> session_logged (calls (engine_handle w)) x"

definition stage_ok ::
  "('t, 'u, 'f, 'e) stream_codec \<Rightarrow> 'p codec \<Rightarrow> WorkerEngineManager \<Rightarrow> 'p conn_env \<Rightarrow> stage \<Rightarrow> bool" where
  "stage_ok sc cd w env s \<longleftrightarrow>
     (case s of
        Requested db l ch \<Rightarrow> asks sc env db l \<and> attaching ch l w
      | Holding db l x \<Rightarrow> asks sc env db l \<and> holds w env db l x
      | Relaying db l x us \<Rightarrow> asks sc env db l \<and> holds w env db l x \<and> \<not> lease_cancelled env \<and>
          (\<exists>params. startup_params env = Some params \<and> upstream env (session_database_name x) params = Inr us \<and>
             opened_for cd params (session_database_name x) us))"

lemma stage_ok_simps [simp]:
  "stage_ok sc cd w env (Requested db l ch) \<longleftrightarrow> asks sc env db l \<and> attaching ch l w"
  "stage_ok sc cd w env (Holding db l x) \<longleftrightarrow> asks sc env db l \<and> holds w env db l x"
  "stage_ok sc cd w env (Relaying db l x us) \<longleftrightarrow> asks sc env db l \<and> holds w env db l x \<and> \<not> lease_cancelled env \<and>
     (\<exists>params. startup_params env = Some params \<and> upstream env (session_database_name x) params = Inr us \<and>
        opened_for cd params (session_database_name x) us)"
  by (simp_all add: stage_ok_def)

definition manager_ok :: "ReadString list \<Rightarrow> WorkerEngineManager \<Rightarrow> bool" where
  "manager_ok initial w \<longleftrightarrow> manager_inv w \<and> known_channels w \<and> pooled initial w"

definition wire_inv ::
  "('t, 'u, 'f, 'e) stream_codec \<Rightarrow> 'p codec \<Rightarrow> ReadString list \<Rightarrow> WorkerEngineManager \<times> 'p connections \<Rightarrow> bool" where
  "wire_inv sc cd initial net \<longleftrightarrow> manager_ok initial (fst net) \<and>
     (\<forall>c env s. snd net c = Some (env, s) \<longrightarrow> stage_ok sc cd (fst net) env s)"

lemma manager_ok_step: "manager_step w w' \<Longrightarrow> manager_ok initial w \<Longrightarrow> manager_ok initial w'"
  by (auto simp: manager_ok_def intro: manager.inv_step channels.extra_step pooling.extra_step)

lemma stage_ok_step:
  assumes "manager_step w w'" "manager_inv w" "stage_ok sc cd w env s"
  shows "stage_ok sc cd w' env s"
proof -
  have "holds w' env db l x" if "holds w env db l x" for db l x
    using that calls_step [OF assms(1,2)] by (auto simp: holds_def intro: session_logged_mono)
  moreover have "attaching ch l w'" if "attaching ch l w" for ch l
    by (rule attachments.extra_step [OF assms(1,2) that])
  ultimately show ?thesis using assms(3) by (cases s) auto
qed

lemma wire_step_manager: "wire_step sc cd net net' \<Longrightarrow> fst net' = fst net \<or> manager_step (fst net) (fst net')"
proof (induction rule: wire_step.induct)
  case (request cs c env db l w ch w')
  then show ?case using manager_step.attach [of w db l] by simp
next
  case (answered cs c env db l ch w x w')
  then show ?case using manager_step.await [of w ch] by simp
next
  case (refused cs c env db l ch w e w')
  then show ?case using manager_step.await [of w ch] by simp
qed (auto intro: manager_step.close)

lemma connect_upstream_opened:
  assumes "connect_upstream cd open_stream write database_name params h p = Inr us"
  shows "opened_for cd params database_name us"
proof -
  obtain rs r where "authenticate cd write database_name params rs = Inr r"
    using assms by (auto simp: connect_upstream_def elim!: bind_resE)
  then obtain out where "send_startup cd write database_name params = Inr out"
    by (auto simp: authenticate_def elim!: bind_resE)
  then have "encode_startup cd ((forwardable params)(''database'' \<mapsto> database_name)) = Inr out" "write out = Inr ()"
    by (auto simp: send_startup_def split: sum.splits)
  with assms show ?thesis unfolding opened_for_def by blast
qed

lemma holds_answered:
  assumes "manager_inv w" "attaching ch l w" "attach_await ch w = (Ready (Inr x), w')" "attach_answer env db l = Inr x"
  shows "holds w env db l x"
proof -
  note unread = attach_await_Ok [OF assms(3)]
  have "x \<in> set (live_sessions w)" using unread_session_in [OF unread] by (simp add: live_sessions_def)
  with assms unread show ?thesis by (auto simp: holds_def attaching_def manager_inv_def)
qed

lemma holds_await: "attach_await ch w = (r, w') \<Longrightarrow> holds w env db l x \<Longrightarrow> holds w' env db l x"
  using silent_attach_await [of w ch] by (simp add: holds_def silent_def)

lemma wire_inv_step:
  assumes "wire_step sc cd net net'" "wire_inv sc cd initial net"
  shows "wire_inv sc cd initial net'"
proof -
  have inv: "manager_inv (fst net)" "known_channels (fst net)" "manager_ok initial (fst net)"
    and stages: "\<And>c env s. snd net c = Some (env, s) \<Longrightarrow> stage_ok sc cd (fst net) env s"
    using assms(2) by (auto simp: wire_inv_def manager_ok_def)
  have ok: "manager_ok initial (fst net')"
    using wire_step_manager [OF assms(1)] manager_ok_step [OF _ inv(3)] inv(3) by auto
  have old: "stage_ok sc cd (fst net') env s" if "snd net c = Some (env, s)" for c env s
    using wire_step_manager [OF assms(1)] stage_ok_step [OF _ inv(1) stages [OF that]] stages [OF that] by auto
  have "stage_ok sc cd (fst net') env s" if "snd net' c = Some (env, s)" for c env s
    using assms(1) old that
  proof (cases rule: wire_step.cases)
    case (request cs c' env' db l w ch w')
    then have "attaching ch l w'" using inv(2) by (auto intro: attaching_request)
    with request old that show ?thesis by (auto split: if_splits)
  next
    case (answered cs c' env' db l ch w x w')
    then have "stage_ok sc cd w env' (Requested db l ch)" using stages [of c' env'] by simp
    then have "asks sc env' db l" "attaching ch l w" by simp_all
    moreover from this have "holds w' env' db l x"
      using answered inv(1) holds_answered [of w ch l x w' env' db] by (auto intro: holds_await)
    ultimately show ?thesis using answered old that by (auto split: if_splits)
  next
    case (connected cs c' env' db l x w params us open_stream wr)
    then have "stage_ok sc cd w env' (Holding db l x)" using stages [of c' env'] by simp
    with connected old that show ?thesis by (auto intro: connect_upstream_opened split: if_splits)
  qed (auto split: if_splits)
  with ok show ?thesis by (auto simp: wire_inv_def)
qed

interpretation wire: step_invariant "wire_step sc cd" "wire_inv sc cd initial" for sc cd initial
  by unfold_locales (rule wire_inv_step)

lemma wire_inv_started:
  assumes "WorkerEngineManager_start cl pcfg cfg = Inr (Inr w0)"
  shows "wire_inv sc cd (batch_names (start_results cl (pg_client w0) cfg)) (w0, Map.empty)"
  using manager_inv_start [OF assms] known_channels_started [OF assms] pooled_started [OF assms]
  by (simp add: wire_inv_def manager_ok_def)

section \<open>Isolation of clients\<close>

lemma handler_relays:
  assumes "asks sc env db l" "attach_answer env db l = Inr x" "\<not> lease_cancelled env"
    and "startup_params env = Some params" "upstream env (session_database_name x) params = Inr us"
  shows "handle_connection env = [SendAuthenticationOk, AttachLease db l] @
      map RelayEvent (fst (relay_run (relay env) (read_ahead env) us)) @ [EndSession x]"
    and "params ''database'' = Some (db @ ''/'' @ lease_str l)"
proof -
  obtain field where f: "params ''replication'' = None" "params ''database'' = Some field" "field \<noteq> ''pgtest''"
    "negotiated env" "auth_sent env" "parse_connection_field field = Inr (db, l)"
    using assms(1,4) by (auto simp: asks_def)
  from f assms show "handle_connection env = [SendAuthenticationOk, AttachLease db l] @
      map RelayEvent (fst (relay_run (relay env) (read_ahead env) us)) @ [EndSession x]"
    by (simp add: handle_connection_def attach_client_def serve_session_def)
  from parse_connection_field_sound [OF f(6)] f(2) show "params ''database'' = Some (db @ ''/'' @ lease_str l)" by simp
qed

text \<open>
  C1: isolation from the client's socket to the database. As long as no database name is created
  twice, however many connections are served at once, and whatever the engine, the timers and the database workers do meanwhile, a connection that relays
  does what its handler does: it attached to the lease its startup message names, opened an upstream
  connection whose startup message names the database of its session, and relays between the two. Two
  connections that relay to the same database named the same lease, and as long as neither has been
  cancelled, two that named the same lease relay to the same database.
\<close>

theorem relayed_clients_isolated:
  assumes "WorkerEngineManager_start cl pcfg cfg = Inr (Inr w0)"
    and "(wire_step sc cd)\<^sup>*\<^sup>* (w0, Map.empty) (w, cs)"
    and "distinct (names_so_far (batch_names (start_results cl (pg_client w0) cfg)) w)"
    and "cs c = Some (env, Relaying db l x us)" "cs c' = Some (env', Relaying db' l' x' us')"
  shows "handle_connection env = [SendAuthenticationOk, AttachLease db l] @
           map RelayEvent (fst (relay_run (relay env) (read_ahead env) us)) @ [EndSession x] \<and>
         (\<exists>params. startup_params env = Some params \<and> params ''database'' = Some (db @ ''/'' @ lease_str l) \<and>
            opened_for cd params (session_database_name x) us) \<and>
         (session_database_name x = session_database_name x' \<longrightarrow> l = l') \<and>
         (l = l' \<and> \<not> is_cancelled (session_cancellation x) w \<and> \<not> is_cancelled (session_cancellation x') w \<longrightarrow>
            session_database_name x = session_database_name x')"
proof -
  let ?initial = "batch_names (start_results cl (pg_client w0) cfg)"
  have inv: "wire_inv sc cd ?initial (w, cs)" by (rule wire.inv_run [OF assms(2) wire_inv_started [OF assms(1)]])
  then have w: "manager_inv w" "pooled ?initial w" by (simp_all add: wire_inv_def manager_ok_def)
  have "stage_ok sc cd w env (Relaying db l x us)" "stage_ok sc cd w env' (Relaying db' l' x' us')"
    using inv assms(4,5) by (auto simp: wire_inv_def simp del: stage_ok_simps)
  then have x: "holds w env db l x" "asks sc env db l" "\<not> lease_cancelled env" "holds w env' db' l' x'"
    and "\<exists>params. startup_params env = Some params \<and> upstream env (session_database_name x) params = Inr us \<and>
      opened_for cd params (session_database_name x) us"
    by simp_all
  then obtain params where params: "startup_params env = Some params"
    "upstream env (session_database_name x) params = Inr us" "opened_for cd params (session_database_name x) us" by blast
  have h: "attach_answer env db l = Inr x" "session_lease_id x = l" "session_lease_id x' = l'"
    "session_logged (calls (engine_handle w)) x" "session_logged (calls (engine_handle w)) x'"
    using x(1,4) by (simp_all add: holds_def)
  note iso = logged_sessions_isolated [OF w assms(3) h(4,5), unfolded h(2,3)]
  have "session_generation x = session_generation x'"
    if "l = l'" "\<not> is_cancelled (session_cancellation x) w" "\<not> is_cancelled (session_cancellation x') w"
    using logged_session_current [OF w(1) h(4)] logged_session_current [OF w(1) h(5)] that by (auto simp: h(2,3))
  with iso handler_relays [OF x(2) h(1) x(3) params(1,2)] params(1,3) show ?thesis by blast
qed

section \<open>Two concrete clients\<close>

text \<open>A server that accepts every startup message; its answer arrives in one read.\<close>

definition trusting_codec :: "unit codec" where
  "trusting_codec = \<lparr>encode_startup = (\<lambda>params. Inr [0]), decode_authentication = (\<lambda>b. Inr (Some True)),
     max_authentication = 4096\<rparr>"

definition trusting_reads :: reads where
  "trusting_reads = [Inr [82, 0, 0, 0, 8, 0, 0, 0, 0, 90, 0, 0, 0, 5, 73]]"

definition ready_session :: UpstreamSession where
  "ready_session = \<lparr>upstream_reads = [], session_burst = [90, 0, 0, 0, 5, 73]\<rparr>"

lemma trusting_connect:
  "connect_upstream trusting_codec (\<lambda>a. Inr trusting_reads) (\<lambda>b. Inr ()) n params h p = Inr ready_session"
proof -
  have be: "from_be_bytes [0, 0, 0, 8] = 8" "from_be_bytes [0, 0, 0, 5] = 5" "from_be_bytes [0, 0, 0, 0] = 0"
    by (simp_all add: from_be_bytes_def)
  show ?thesis
    by (simp add: connect_upstream_def connect_stream_def authenticate_def send_startup_def trusting_codec_def
        trusting_reads_def read_frame_def wait_for_ready_for_query_def wait_frames.simps be Let_def ready_session_def)
qed

text \<open>The streams carry the parameters of the startup message.\<close>

definition plain_streams :: "(string \<rightharpoonup> string, unit, string \<rightharpoonup> string, unit) stream_codec" where
  "plain_streams = \<lparr>negotiate_tls = (\<lambda>s. Inr (Some s)), frame_unix = (\<lambda>u a tls. Map.empty),
     set_state = (\<lambda>st f. f), next_message = (\<lambda>f. (Some (Inr (StartupMessage f)), f))\<rparr>"

definition client_env :: "string \<Rightarrow> LeaseSession \<Rightarrow> unit conn_env" where
  "client_env field x = \<lparr>client_startup = Some [''database'' \<mapsto> field], startup_in_time = True, negotiated = True,
     auth_sent = True, attach_answer = (\<lambda>db l. Inr x), lease_cancelled = False,
     upstream = (\<lambda>db params. Inr ready_session), read_ahead = [],
     relay = \<lparr>upstream_writes = (\<lambda>b. True), client_writes = (\<lambda>b. True), copy_ends_ok = True, cancelled_after = None\<rparr>\<rparr>"

lemma client_asks:
  "asks plain_streams (client_env ''app/a'' x) ''app'' (LeaseId ''a'')"
  "asks plain_streams (client_env ''app/b'' x) ''app'' (LeaseId ''b'')"
proof -
  have "ClientStream_startup plain_streams (TcpStream params) = Some (params, params)" for params
    by (simp add: ClientStream_startup_def framed_stream_def plain_streams_def)
  then show "asks plain_streams (client_env ''app/a'' x) ''app'' (LeaseId ''a'')"
    "asks plain_streams (client_env ''app/b'' x) ''app'' (LeaseId ''b'')"
    by (auto simp: asks_def client_env_def startup_params_def parse_connection_field_def split_once_def
        LeaseId_new_def NUL_def intro!: exI)
qed

definition manager_served :: WorkerEngineManager where
  "manager_served = manager_ab\<lparr>unread := [], receivers := fmdrop 1 (fmdrop 0 (receivers manager_ab)),
     sessions := [session_of 0 ''a'' 1, session_of 1 ''b'' 2]\<rparr>"

text \<open>Both clients ask, the engine serves them, they take their replies and connect.\<close>

definition both :: "stage \<Rightarrow> stage \<Rightarrow> unit connections" where
  "both s s' = [0 \<mapsto> (client_env ''app/a'' (session_of 0 ''a'' 1), s), 1 \<mapsto> (client_env ''app/b'' (session_of 1 ''b'' 2), s')]"

lemma both_update:
  "(both s s')(0 \<mapsto> (client_env ''app/a'' (session_of 0 ''a'' 1), r)) = both r s'"
  "(both s s')(1 \<mapsto> (client_env ''app/b'' (session_of 1 ''b'' 2), r)) = both s r"
  by (auto simp: both_def)

lemma both_requested:
  "(wire_step plain_streams trusting_codec)\<^sup>*\<^sup>* (booted_manager, Map.empty)
     (manager_ab, both (Requested ''app'' (LeaseId ''a'') 0) (Requested ''app'' (LeaseId ''b'') 1))"
proof -
  let ?a = "client_env ''app/a'' (session_of 0 ''a'' 1)" and ?b = "client_env ''app/b'' (session_of 1 ''b'' 2)"
  let ?step = "wire_step plain_streams trusting_codec"
  obtain w1 where w1: "attach_request ''app'' (LeaseId ''a'') booted_manager = (Inr 0, w1)" "engine_turn w1 = Inr manager_a"
    by (simp add: manager_eval engine_eval manager_a_def engine_a_def)
  obtain w2 where w2: "attach_request ''app'' (LeaseId ''b'') manager_a = (Inr 1, w2)" "engine_turn w2 = Inr manager_ab"
    by (simp add: manager_eval engine_eval manager_a_def engine_a_def manager_ab_def engine_ab_def)
  let ?cs = "Map.empty(0 \<mapsto> (?a, Requested ''app'' (LeaseId ''a'') 0))"
  let ?cs' = "?cs(1 \<mapsto> (?b, Requested ''app'' (LeaseId ''b'') 1))"
  have "?step (booted_manager, Map.empty) (w1, ?cs)" by (rule request [OF _ client_asks(1) w1(1)]) simp
  moreover have "?step (w1, ?cs) (manager_a, ?cs)" by (rule background [OF manager_step.turn [OF w1(2)]])
  moreover have "?step (manager_a, ?cs) (w2, ?cs')" by (rule request [OF _ client_asks(2) w2(1)]) simp
  moreover have "?step (w2, ?cs') (manager_ab, ?cs')" by (rule background [OF manager_step.turn [OF w2(2)]])
  ultimately show ?thesis unfolding both_def by (meson converse_rtranclp_into_rtranclp rtranclp.rtrancl_refl)
qed

lemma both_answered:
  "(wire_step plain_streams trusting_codec)\<^sup>*\<^sup>*
     (manager_ab, both (Requested ''app'' (LeaseId ''a'') 0) (Requested ''app'' (LeaseId ''b'') 1))
     (manager_served, both (Holding ''app'' (LeaseId ''a'') (session_of 0 ''a'' 1))
        (Holding ''app'' (LeaseId ''b'') (session_of 1 ''b'' 2)))"
proof -
  let ?step = "wire_step plain_streams trusting_codec"
  let ?ra = "Requested ''app'' (LeaseId ''a'') 0" and ?rb = "Requested ''app'' (LeaseId ''b'') 1"
  let ?ha = "Holding ''app'' (LeaseId ''a'') (session_of 0 ''a'' 1)"
  and ?hb = "Holding ''app'' (LeaseId ''b'') (session_of 1 ''b'' 2)"
  have "\<exists>w. attach_await 0 manager_ab = (Ready (Inr (session_of 0 ''a'' 1)), w) \<and>
      attach_await 1 w = (Ready (Inr (session_of 1 ''b'' 2)), manager_served)"
    by (simp add: attach_await_def poll_receiver_def manager_served_def manager_ab_def booted_manager_def is_cancelled_def
        take_reply_def drop_receiver_def post_def engine_ab_def session_of_def LeaseSession_new_def Let_def)
  then obtain w where w: "attach_await 0 manager_ab = (Ready (Inr (session_of 0 ''a'' 1)), w)"
    "attach_await 1 w = (Ready (Inr (session_of 1 ''b'' 2)), manager_served)" by blast
  have "?step (manager_ab, both ?ra ?rb) (w, (both ?ra ?rb)(0 \<mapsto> (client_env ''app/a'' (session_of 0 ''a'' 1), ?ha)))"
    by (rule answered [OF _ w(1)]) (simp_all add: both_def client_env_def)
  moreover have "?step (w, both ?ha ?rb)
      (manager_served, (both ?ha ?rb)(1 \<mapsto> (client_env ''app/b'' (session_of 1 ''b'' 2), ?hb)))"
    by (rule answered [OF _ w(2)]) (simp_all add: both_def client_env_def)
  ultimately show ?thesis
    unfolding both_update by (meson converse_rtranclp_into_rtranclp rtranclp.rtrancl_refl)
qed

lemma both_relaying:
  "(wire_step plain_streams trusting_codec)\<^sup>*\<^sup>* (booted_manager, Map.empty)
     (manager_served, both (Relaying ''app'' (LeaseId ''a'') (session_of 0 ''a'' 1) ready_session)
        (Relaying ''app'' (LeaseId ''b'') (session_of 1 ''b'' 2) ready_session))"
proof -
  let ?step = "wire_step plain_streams trusting_codec"
  let ?ha = "Holding ''app'' (LeaseId ''a'') (session_of 0 ''a'' 1)"
  and ?hb = "Holding ''app'' (LeaseId ''b'') (session_of 1 ''b'' 2)"
  let ?ua = "Relaying ''app'' (LeaseId ''a'') (session_of 0 ''a'' 1) ready_session"
  and ?ub = "Relaying ''app'' (LeaseId ''b'') (session_of 1 ''b'' 2) ready_session"
  have live: "\<not> is_cancelled (session_cancellation (session_of i l g)) manager_served" for i l g
    by (simp add: is_cancelled_def manager_served_def manager_ab_def engine_ab_def)
  have "?step (manager_served, both ?ha ?hb) (manager_served, (both ?ha ?hb)(0 \<mapsto> (client_env ''app/a'' (session_of 0 ''a'' 1), ?ua)))"
    by (rule connected [OF _ live _ _ _ trusting_connect]) (simp_all add: both_def client_env_def startup_params_def)
  moreover have "?step (manager_served, both ?ua ?hb) (manager_served, (both ?ua ?hb)(1 \<mapsto> (client_env ''app/b'' (session_of 1 ''b'' 2), ?ub)))"
    by (rule connected [OF _ live _ _ _ trusting_connect]) (simp_all add: both_def client_env_def startup_params_def)
  ultimately show ?thesis
    unfolding both_update using rtranclp_trans [OF both_requested both_answered]
    by (meson rtranclp.rtrancl_into_rtrancl)
qed

theorem relayed_clients_isolated_witness:
  "app_name 0 \<noteq> app_name 1 \<and>
   handle_connection (client_env ''app/a'' (session_of 0 ''a'' 1)) =
     [SendAuthenticationOk, AttachLease ''app'' (LeaseId ''a''), RelayEvent (WriteClient [90, 0, 0, 0, 5, 73]),
      RelayEvent (CopyBidirectional RELAY_BUF), EndSession (session_of 0 ''a'' 1)]"
proof -
  have names: "distinct (names_so_far (batch_names (start_results calm_cluster (pg_client booted_manager) two_slots)) manager_served)"
    using app_results app_names_differ
    by (simp add: names_so_far_def batch_names_def start_results_def calm_cluster_def two_slots_def booted_manager_def
        manager_served_def manager_ab_def created_names_def)
  from relayed_clients_isolated [OF app_started both_relaying names, of 0 _ _ _ _ _ 1] show ?thesis
    by (auto simp: both_def session_of_def LeaseSession_new_def client_env_def relay_run_def relay_steps_def ready_session_def)
qed

end
