(* ===== verification/Engine_Supply.thy ===== *)
theory Engine_Supply
  imports Engine_Properties
begin

text \<open>
  Nobody waits without a database on its way: as long as creation requests are accepted, every lease
  with a live claim in the queue is covered by a creation that has been requested.
\<close>

section \<open>Supply\<close>

definition creations_accepted :: "'c env \<Rightarrow> bool" where
  "creations_accepted env \<longleftrightarrow> (\<forall>request. creation_open env request)"

text \<open>Time passes: nothing was queued more recently in a later environment.\<close>

definition ages :: "'c env \<Rightarrow> 'c env \<Rightarrow> bool" where
  "ages env env' \<longleftrightarrow> (\<forall>t. elapsed_ms env t \<le> elapsed_ms env' t)"

text \<open>
  A batch size of zero disables growth, so that nothing is ever under creation. With any other, the
  supply meets its target, as it does from the first growth on, or nothing has been asked for yet.
\<close>

definition supplied :: "'c env \<Rightarrow> 'c WorkerEngine \<Rightarrow> bool" where
  "supplied env s \<longleftrightarrow>
     (if unat (grow_batch_size (config s)) = 0 then creating (inventory s) = {||}
      else growth_target env s \<le> supply_len (inventory s) \<or>
           creating (inventory s) = {||} \<and> group_waiters s = fmempty)"

lemma supplied_off: "supplied env s \<Longrightarrow> unat (grow_batch_size (config s)) = 0 \<Longrightarrow> creating (inventory s) = {||}"
  by (simp add: supplied_def)

text \<open>What the condition depends on.\<close>

lemma in_waiting_leases:
  "l |\<in>| waiting_leases env s \<longleftrightarrow> l |\<notin>| fmdom (leases s) \<and>
     (\<exists>ps c t. fmlookup (group_waiters s) l = Some ps \<and> (c, t) \<in> set ps \<and> claim_live env s t)"
  by (auto simp: waiting_leases_def list_ex_iff fmlookup_in_fmdom split: option.splits)

lemma waiting_leases_cong:
  "fmdom (leases s') = fmdom (leases s) \<Longrightarrow> group_waiters s' = group_waiters s \<Longrightarrow> config s' = config s \<Longrightarrow>
     waiting_leases env s' = waiting_leases env s"
  by (rule fset_eqI) (simp add: in_waiting_leases claim_live_def)

lemma no_waiting_leases: "group_waiters s = fmempty \<Longrightarrow> waiting_leases env s = {||}"
  by (auto simp: in_waiting_leases)

lemma supplied_mono:
  assumes "supplied env s" "waiting_leases env' s' |\<subseteq>| waiting_leases env s"
    and "group_waiters s = fmempty \<Longrightarrow> group_waiters s' = fmempty"
    and "ready (inventory s') = ready (inventory s)" "creating (inventory s') = creating (inventory s)" "config s' = config s"
  shows "supplied env' s'"
proof -
  have "growth_target env' s' \<le> growth_target env s"
    using fcard_mono [OF assms(2)] by (simp add: growth_target_def assms(6))
  with assms show ?thesis by (auto simp: supplied_def supply_len_def split: if_splits)
qed

lemma supplied_cong:
  assumes "fmdom (leases s') = fmdom (leases s)" "group_waiters s' = group_waiters s" "config s' = config s"
    and "ready (inventory s') = ready (inventory s)" "creating (inventory s') = creating (inventory s)"
  shows "supplied env s' \<longleftrightarrow> supplied env s"
  by (simp add: supplied_def growth_target_def supply_len_def waiting_leases_cong [OF assms(1-3)] assms(2-5))

lemma supplied_ages:
  assumes "ages env env'" "supplied env s"
  shows "supplied env' s"
proof (rule supplied_mono [OF assms(2)])
  have "claim_live env s t" if "claim_live env' s t" for t
    using that assms(1) by (auto simp: claim_live_def ages_def intro: order_trans)
  then show "waiting_leases env' s |\<subseteq>| waiting_leases env s" by (fastforce simp: in_waiting_leases)
qed simp_all

section \<open>Every message keeps the supply\<close>

lemma supplied_grow:
  assumes "engine_inv s" "grow env s = Inr s'" "creations_accepted env"
    and "unat (grow_batch_size (config s)) = 0 \<Longrightarrow> creating (inventory s) = {||}"
  shows "supplied env s'"
proof (cases "unat (grow_batch_size (config s)) = 0")
  case True
  then have "s' = s" using assms(2) by (simp add: grow_unfold)
  with True assms(4) show ?thesis by (simp add: supplied_def)
next
  case False
  have "creation_open env request" for request using assms(3) by (simp add: creations_accepted_def)
  from growth_meets_target [OF engine_inv_inventory [OF assms(1)] _ this assms(2)] False
  have "growth_target env s \<le> supply_len (inventory s')" by simp
  moreover have "same_leases s s'" "same_queue s s'" using outcome_InrD [OF engine_inv_grow [OF assms(1)] assms(2)] by auto
  then have "growth_target env s' = growth_target env s" "config s' = config s"
    using waiting_leases_cong [of s' s env] by (simp_all add: growth_target_def same_leases_def same_queue_def)
  ultimately show ?thesis using False by (simp add: supplied_def)
qed

lemma admit_lease_frame:
  "leases (snd (admit_lease l s)) = leases s" "group_waiters (snd (admit_lease l s)) = group_waiters s"
  "inventory (snd (admit_lease l s)) = inventory s" "config (snd (admit_lease l s)) = config s"
  by (cases l s rule: admit_lease_cases; simp)+

lemma admit_lease_supplied: "supplied env (snd (admit_lease l s)) \<longleftrightarrow> supplied env s"
  by (rule supplied_cong) (simp_all add: admit_lease_frame)

lemmas config_admit = admit_lease_frame(4)

lemma supplied_retire:
  assumes "engine_inv_leaving l s" "retire_lease env l s = Inr s'" "supplied env s" "creations_accepted env"
  shows "supplied env s'"
proof (cases "fmlookup (leases s) l")
  case None
  with assms(2,3) show ?thesis by (simp add: retire_lease_def)
next
  case (Some e)
  with assms show ?thesis
    using aside_orders [OF aside_retired_state [of env l e s]] supplied_off [OF assms(3)]
    by (intro supplied_grow [OF engine_inv_retired_state [OF assms(1) Some]])
      (simp_all add: retire_lease_eq retired_state_def Let_def)
qed

lemma supplied_attach_or_join:
  assumes "settled_inv s" "attach_or_join env l c t s = Inr s'" "supplied env s" "creations_accepted env"
  shows "supplied env s'"
  using assms(1,2)
proof (cases rule: attach_or_join_cases)
  case (refused s1 e)
  with assms(3) admit_lease_supplied [of env l s] supplied_cong [of s' s1 env] show ?thesis by simp
next
  case (joined s1 e)
  then have "fmdom (leases s') = fmdom (leases s1)" "group_waiters s' = group_waiters s1" "config s' = config s1"
    "inventory s' = inventory s1"
    by (auto simp: reply_attached_eq fmlookup_in_fmdom finsert_absorb)
  then show ?thesis using joined(1) assms(3) admit_lease_supplied [of env l s] supplied_cong [of s' s1 env] by simp
next
  case (queued s1)
  with assms(4) config_admit [of l s] supplied_off [OF assms(3)] aside_orders [OF aside_snd_admit [of l s]]
    aside_orders [OF aside_enqueue [of l c t s1]]
  show ?thesis by (intro supplied_grow [OF queued(2,3)]) simp_all
next
  case (fresh s1 s2)
  with assms(4) config_admit [of l s] supplied_off [OF assms(3)] aside_orders [OF aside_snd_admit [of l s]]
    aside_orders [OF fresh(5)]
  show ?thesis by (intro supplied_grow [OF fresh(3,4)]) (simp_all add: keeps_def)
qed

lemma supplied_release_lease:
  assumes "settled_inv s" "release_lease env l s = Inr (r, s')" "supplied env s" "creations_accepted env"
  shows "supplied env s'"
proof -
  obtain a s1 where a: "admit_lease l s = (a, s1)" by (cases "admit_lease l s")
  have s1: "supplied env s1" "config s1 = config s"
    using admit_lease_supplied [of env l s] config_admit [of l s] assms(3) a by simp_all
  have "engine_inv s" using assms(1) by (simp add: settled_inv_def)
  note adm = engine_inv_admit [OF this a]
  show ?thesis
  proof (cases "a = Inr Open")
    case True
    with assms(2) a have r: "retire_lease env l (closed_state env l s1) = Inr s'"
      by (auto simp: release_lease_eq elim!: bind_resE)
    have "waiting_leases env (closed_state env l s1) |\<subseteq>| waiting_leases env s1"
      by (auto simp: in_waiting_leases closed_state_def claim_live_def Let_def split: if_splits)
    then have "supplied env (closed_state env l s1)"
      by (rule supplied_mono [OF s1(1)]) (simp_all add: closed_state_def Let_def)
    with assms(4) s1(2) show ?thesis
      by (intro supplied_retire [OF engine_inv_closed_state [OF adm(1) adm(2) [OF True]] r])
        (simp_all add: closed_state_def Let_def)
  next
    case False
    with assms(2) a s1 show ?thesis by (auto simp: release_lease_eq split: sum.splits LeaseStatus.splits)
  qed
qed

lemma supplied_handle_message:
  assumes "settled_inv s" "handle_message env msg s = Inr (go, s')" "supplied env s" "creations_accepted env"
  shows "supplied env s'"
proof (cases msg)
  case (AttachOrJoin l c t)
  with assms show ?thesis by (auto simp: handle_message_def elim!: bind_resE intro: supplied_attach_or_join)
next
  case (ReleaseLease l c)
  with assms(2) obtain r s1 where "release_lease env l s = Inr (r, s1)" "s' = snd (send_reply env c (ReleaseResult r) s1)"
    by (auto simp: handle_message_def elim!: bind_res_pairE)
  with supplied_release_lease [OF assms(1) this(1) assms(3,4)] supplied_cong [of s' s1 env] show ?thesis by simp
next
  case (Detach l g)
  with assms(2) have "s' = handle_detach l g s" by (simp add: handle_message_def)
  then have "fmdom (leases s') = fmdom (leases s)" "group_waiters s' = group_waiters s" "config s' = config s"
    "inventory s' = inventory s"
    by (auto simp: handle_detach_def fmlookup_in_fmdom finsert_absorb split: option.splits)
  with supplied_cong [of s' s env] assms(3) show ?thesis by simp
next
  case (LeaseMaxTimeReached l g)
  let ?s = "s\<lparr>counters := (counters s)\<lparr>rejected_attach_max_lifetime := rejected_attach_max_lifetime (counters s) + 1\<rparr>\<rparr>"
  have "engine_inv ?s" using assms(1) by (simp add: settled_inv_def engine_inv_def)
  moreover have "supplied env ?s" using supplied_cong [of ?s s env] assms(3) by simp
  ultimately have "supplied env s2" if "retire_lease env l ?s = Inr s2" for s2
    using that assms(4) by (intro supplied_retire [OF engine_inv_leaving that]) simp_all
  with LeaseMaxTimeReached assms(2,3) show ?thesis
    by (auto simp: handle_message_def handle_max_time_def elim!: bind_resE split: option.splits if_splits)
next
  case (DatabaseWorker m)
  with assms(2) have "handle_database_worker_message env m s = Inr s'"
    by (auto simp: handle_message_def elim!: bind_resE)
  with assms(1) show ?thesis
  proof (cases rule: worker_message_cases)
    case (cleaned d r)
    then have "ready (inventory s') = ready (inventory s)" "creating (inventory s') = creating (inventory s)"
      by (simp_all add: complete_cleanup_def split: sum.splits)
    with cleaned supplied_cong [of s' s env] assms(3) show ?thesis by simp
  next
    case unknown
    with assms(3) show ?thesis by simp
  next
    case (finished d r s1)
    with assms(4) supplied_off [OF assms(3)] show ?thesis
      by (intro supplied_grow [OF finished(4,5)]) (auto simp: keeps_def)
  qed
next
  case Shutdown
  with assms(2,3) supplied_cong [of s' s env] show ?thesis by (auto simp: handle_message_def)
qed

section \<open>Runs\<close>

lemma config_handle_message:
  assumes "settled_inv s" "handle_message env msg s = Inr (go, s')"
  shows "config s' = config s"
proof (cases msg)
  case (AttachOrJoin l c t)
  with assms show ?thesis
    by (auto simp: handle_message_def keeps_def config_admit elim!: bind_resE dest!: keeps_attach_or_join [OF assms(1)])
next
  case (ReleaseLease l c)
  with assms(2) obtain r s1 where r: "release_lease env l s = Inr (r, s1)" "s' = snd (send_reply env c (ReleaseResult r) s1)"
    by (auto simp: handle_message_def elim!: bind_res_pairE)
  obtain a s2 where a: "admit_lease l s = (a, s2)" by (cases "admit_lease l s")
  have "engine_inv s" using assms(1) by (simp add: settled_inv_def)
  note adm = engine_inv_admit [OF this a]
  have "config s2 = config s" using config_admit [of l s] a by simp
  moreover have "config s1 = config s2"
  proof (cases "a = Inr Open")
    case True
    with r(1) a have "retire_lease env l (closed_state env l s2) = Inr s1"
      by (auto simp: release_lease_eq elim!: bind_resE)
    from keeps_retire_lease [OF engine_inv_closed_state [OF adm(1) adm(2) [OF True]] this] show ?thesis
      by (simp add: keeps_def closed_state_def Let_def)
  qed (use r(1) a in \<open>auto simp: release_lease_eq split: sum.splits LeaseStatus.splits\<close>)
  ultimately show ?thesis using r(2) by simp
next
  case (LeaseMaxTimeReached l g)
  let ?s = "s\<lparr>counters := (counters s)\<lparr>rejected_attach_max_lifetime := rejected_attach_max_lifetime (counters s) + 1\<rparr>\<rparr>"
  have "engine_inv ?s" using assms(1) by (simp add: settled_inv_def engine_inv_def)
  then have "config s2 = config s" if "retire_lease env l ?s = Inr s2" for s2
    using keeps_retire_lease [OF engine_inv_leaving that] by (simp add: keeps_def)
  with LeaseMaxTimeReached assms(2) show ?thesis
    by (auto simp: handle_message_def handle_max_time_def elim!: bind_resE split: option.splits if_splits)
next
  case (DatabaseWorker m)
  with assms show ?thesis
    by (auto simp: handle_message_def keeps_def elim!: bind_resE dest!: keeps_worker_message [OF assms(1)])
qed (use assms(2) in \<open>auto simp: handle_message_def handle_detach_def split: option.splits\<close>)

lemma supplied_process_messages:
  assumes "process_messages inbox s = Inr s'" "settled_inv s" "supplied env s"
    and "\<forall>e \<in> set (map fst inbox). creations_accepted e"
    and "sorted_wrt ages (env # map fst inbox)" "\<forall>e \<in> set (env # map fst inbox). ages e now"
  shows "supplied now s' \<and> settled_inv s' \<and> config s' = config s"
  using assms
proof (induction inbox arbitrary: s env)
  case Nil
  then show ?case by (auto intro: supplied_ages)
next
  case (Cons m rest)
  obtain e msg where m: "m = (e, msg)" by (cases m)
  from Cons.prems(1) obtain go s1 where h: "handle_message e msg s = Inr (go, s1)"
    and r: "(if go then process_messages rest s1 else Inr s1) = Inr s'"
    unfolding m process_messages.simps by (rule bind_res_pairE)
  have "supplied e s" using Cons.prems(3,5) by (auto simp: m intro: supplied_ages)
  then have s1: "supplied e s1" "settled_inv s1" "config s1 = config s"
    using supplied_handle_message [OF Cons.prems(2) h] config_handle_message [OF Cons.prems(2) h] Cons.prems(4)
      outcome_InrD [OF settled_inv_handle_message [OF Cons.prems(2)] h] by (auto simp: m)
  show ?case
  proof (cases go)
    case True
    with r s1 Cons.prems(4-6) Cons.IH [of s1 e] show ?thesis by (simp add: m)
  next
    case False
    with r s1 Cons.prems(6) show ?thesis by (auto simp: m intro: supplied_ages)
  qed
qed

lemma waiting_none_ready:
  assumes "waiting_leases env s \<noteq> {||}" "settled_inv s"
  shows "ready (inventory s) = []"
proof -
  obtain l where "l |\<in>| waiting_leases env s" using assms(1) by auto
  then have "l |\<in>| fmdom (group_waiters s)" by (auto simp: in_waiting_leases fmlookup_in_fmdom)
  then show ?thesis using assms(2) by (auto simp: settled_inv_def queue_settled_def engine_inv_def queue_inv_def)
qed

lemma booted_queue:
  assumes "try_init create (WorkerEngine_new cfg) = Inr (r, s)"
  shows "config s = cfg" "group_waiters s = fmempty"
  using assms unfolding try_init_def
  by (auto simp: WorkerEngine_new_def elim!: bind_res_pairE split: option.splits)

lemma booted_creating:
  assumes "reports_initial create cfg" "try_init create (WorkerEngine_new cfg) = Inr (r, s :: 'c WorkerEngine)"
  shows "creating (inventory s) = {||}"
proof -
  let ?s = "WorkerEngine_new cfg :: 'c WorkerEngine"
  have "config ?s = cfg" by (simp add: WorkerEngine_new_def)
  with try_init_outcome [where create = create and s = ?s, OF _ refl refl] assms
  have "creating (inventory s) = creating (inventory ?s)" by auto
  then show ?thesis by (simp add: WorkerEngine_new_def DatabaseInventory_default_def)
qed

text \<open>
  C19: nobody waits without a database on its way, unless growth is disabled. Let the engine handle any
  messages, however many creations fail, while creation requests are accepted and the clock does not
  run backwards. Whenever leases with a live claim wait, no database is idle; and with a positive
  batch size, at least as many creations as there are such leases, and the starvation threshold and
  one more, have been requested and are not finished. With a batch size of zero nothing is ever
  under creation.
\<close>

theorem waiting_leases_supplied:
  assumes "reports_initial create cfg" "try_init create (WorkerEngine_new cfg) = Inr (r, s0)"
    and "process_messages inbox s0 = Inr s"
    and "\<forall>env \<in> set (map fst inbox). creations_accepted env"
    and "sorted_wrt ages (map fst inbox @ [now])"
  shows "(waiting_leases now s = {||} \<or> ready (inventory s) = []) \<and>
         (if unat (grow_batch_size cfg) = 0 then creating (inventory s) = {||}
          else waiting_leases now s = {||} \<or>
               fcard (waiting_leases now s) + unat (starvation_threshold cfg) + 1 \<le> fcard (creating (inventory s)))"
proof -
  define start :: "'a env" where "start = (case map fst inbox of [] \<Rightarrow> now | e # _ \<Rightarrow> e)"
  have refl: "ages e e" for e :: "'a env" by (simp add: ages_def)
  have order: "sorted_wrt ages (start # map fst inbox)" "\<forall>e \<in> set (start # map fst inbox). ages e now"
    using assms(5) refl by (cases "map fst inbox"; fastforce simp: start_def sorted_wrt_append)+
  have s0: "config s0 = cfg" "group_waiters s0 = fmempty" and inv0: "settled_inv s0"
    using booted_queue [OF assms(2)] settled_inv_booted [OF assms(1,2)] by simp_all
  have "supplied now s \<and> settled_inv s \<and> config s = config s0"
    using assms(4) s0 order booted_creating [OF assms(1,2)]
    by (intro supplied_process_messages [OF assms(3) inv0, of start]) (simp_all add: supplied_def)
  then have s: "supplied now s" "settled_inv s" "config s = cfg" by (simp_all add: s0(1))
  have "ready (inventory s) = []" if "waiting_leases now s \<noteq> {||}" using waiting_none_ready [OF that s(2)] .
  then show ?thesis
    using s(1) no_waiting_leases [of s now]
    by (cases "waiting_leases now s = {||}") (auto simp: supplied_def s(3) supply_len_def growth_target_def split: if_splits)
qed

text \<open>Three leases for two databases, with a batch size of one: the third waits, two creations are under way.\<close>

theorem waiting_leases_supplied_witness:
  "\<exists>s. process_messages [(calm_env, AttachOrJoin (LeaseId ''a'') 0 0), (calm_env, AttachOrJoin (LeaseId ''b'') 7 0),
         (calm_env, AttachOrJoin (LeaseId ''c'') 8 0)] small_engine = Inr s \<and>
       LeaseId ''c'' |\<in>| waiting_leases calm_env s \<and> 2 \<le> fcard (creating (inventory s))"
proof -
  let ?inbox = "[(calm_env, AttachOrJoin (LeaseId ''a'') 0 0), (calm_env, AttachOrJoin (LeaseId ''b'') 7 0),
    (calm_env, AttachOrJoin (LeaseId ''c'') 8 0)]"
  obtain s where s: "handle_message calm_env (AttachOrJoin (LeaseId ''c'') 8 0) two_leases = Inr (True, s)"
    "LeaseId ''c'' |\<in>| waiting_leases calm_env s"
    by (simp add: engine_eval small_cfg_def small_engine_def calm_env_def one_lease_def two_leases_def)
  then have run: "process_messages ?inbox small_engine = Inr s" by (simp add: small_attach_a small_attach_b)
  have "\<forall>env \<in> set (map fst ?inbox). creations_accepted env" "sorted_wrt ages (map fst ?inbox @ [calm_env])"
    by (simp_all add: creations_accepted_def calm_env_def ages_def)
  from waiting_leases_supplied [OF small_create_reports small_init run this] s(2)
  have "fcard (waiting_leases calm_env s) + 1 \<le> fcard (creating (inventory s))"
    by (auto simp: small_cfg_def)
  moreover have "0 < fcard (waiting_leases calm_env s)" using s(2) by (auto simp: card_gt_0_iff fcard.rep_eq)
  ultimately show ?thesis using run s(2) by (intro exI [of _ s]) simp
qed

end
