(* ===== verification/Engine_Creations.thy ===== *)
theory Engine_Creations
  imports Engine_Properties "HOL-Library.Multiset"
begin

text \<open>
  The databases under creation against the creations that were requested and reported: every message
  changes the two sides alike, so that no creation is lost or counted twice.
\<close>

section \<open>Orders\<close>

definition request_ids :: "CreateDatabases \<Rightarrow> DatabaseId multiset" where
  "request_ids request = image_mset (batch_id request) (mset [0..<amount request])"

definition order_ids :: "'c call \<Rightarrow> DatabaseId multiset" where
  "order_ids k = (case k of RequestCreation request True \<Rightarrow> request_ids request | _ \<Rightarrow> {#})"

definition ordered :: "'c call list \<Rightarrow> DatabaseId multiset" where
  "ordered log = (\<Sum>k \<leftarrow> log. order_ids k)"

definition pending :: "'c WorkerEngine \<Rightarrow> DatabaseId multiset" where
  "pending s = mset_set (fset (creating (inventory s)))"

lemma order_ids_simps [simp]:
  "order_ids (RequestCreation request sent) = (if sent then request_ids request else {#})"
  "order_ids (Reply c msg ok) = {#}" "order_ids (RequestCleanup cl ok) = {#}"
  "order_ids (SendDelayed l g d tk ok) = {#}" "order_ids (CancelToken tk) = {#}" "order_ids CancelRoot = {#}"
  by (simp_all add: order_ids_def)

lemma ordered_simps [simp]:
  "ordered [] = {#}" "ordered (k # log) = order_ids k + ordered log" "ordered (log @ log') = ordered log + ordered log'"
  by (simp_all add: ordered_def)

lemma ordered_filter: "ordered (filter is_order log) = ordered log"
proof (induction log)
  case (Cons k log)
  then show ?case by (cases k) auto
qed simp

section \<open>What a message does to them\<close>

text \<open>An order is a batch whose identities fit into 64 bits, sent if the channel accepts it.\<close>

definition order_ok :: "'c env \<Rightarrow> 'c call \<Rightarrow> bool" where
  "order_ok env k \<longleftrightarrow> (\<exists>request. k = RequestCreation request (creation_open env request) \<and> batch_fits request)"

text \<open>\<open>R\<close> are the creations reported to the step.\<close>

definition tracks :: "'c env \<Rightarrow> DatabaseId multiset \<Rightarrow> 'c WorkerEngine \<Rightarrow> 'c WorkerEngine \<Rightarrow> bool" where
  "tracks env R s s' \<longleftrightarrow> (\<exists>new. orders s' = orders s @ new \<and> list_all (order_ok env) new \<and>
     pending s' + R = pending s + ordered new)"

lemma tracks_refl [simp]: "tracks env {#} s s"
  by (simp add: tracks_def)

lemma tracks_trans:
  assumes "tracks env R s s1" "tracks env R' s1 s2"
  shows "tracks env (R + R') s s2"
proof -
  obtain new new' where "orders s1 = orders s @ new" "orders s2 = orders s1 @ new'"
    "list_all (order_ok env) new" "list_all (order_ok env) new'"
    "pending s1 + R = pending s + ordered new" "pending s2 + R' = pending s1 + ordered new'"
    using assms by (auto simp: tracks_def)
  moreover from this have "pending s2 + (R + R') = pending s + ordered (new @ new')"
    by (simp add: ac_simps)
  ultimately show ?thesis unfolding tracks_def by (intro exI [of _ "new @ new'"]) simp
qed

lemmas tracks_after = tracks_trans [where R = "{#}", simplified]

lemma tracks_aside: "aside s' = aside s \<Longrightarrow> tracks env {#} s s'"
  by (simp add: tracks_def pending_def aside_def)

lemma aside_tracks: "aside s1 = aside s \<Longrightarrow> tracks env R s1 s' \<Longrightarrow> tracks env R s s'"
  by (rule tracks_after [OF tracks_aside])

lemma request_ids_set: "batch_fits request \<Longrightarrow> request_ids request = mset_set (batch_ids request)"
  by (simp add: request_ids_def batch_ids_def image_mset_mset_set inj_on_batch_id mset_upt atLeast0LessThan)

lemma tracks_grow:
  assumes "engine_inv s" "grow env s = Inr s'"
  shows "tracks env {#} s s'"
proof -
  note iv = engine_inv_inventory [OF assms(1)]
  let ?n = "growth_count env s"
  show ?thesis
  proof (cases rule: grow_cases [OF iv, where env = env, case_names idle exhausted requested refused])
    case requested
    let ?req = "next_request (inventory s) ?n"
    note fits = next_request_fits [OF requested(1,2)]
    have "fset (creating (inventory s)) \<inter> batch_ids ?req = {}"
      using known_not_reserved [OF requested(1,2)] iv by (auto simp: inventory_inv_def held_def)
    then have "pending s' = pending s + request_ids ?req"
      using requested(4) assms(2) request_ids_set [OF fits]
      by (auto simp: pending_def mset_set_Union batch_ids_def)
    moreover have "orders s' = orders s @ [RequestCreation ?req True]"
      using requested(4) assms(2) by (auto simp: orders_def)
    ultimately show ?thesis using fits requested(3)
      unfolding tracks_def by (intro exI [of _ "[RequestCreation ?req True]"]) (simp add: order_ok_def)
  next
    case (refused iv')
    have "creating iv' = creating (inventory s)"
    proof (rule fset_eqI)
      fix d
      show "d |\<in>| creating iv' \<longleftrightarrow> d |\<in>| creating (inventory s)"
        using fun_cong [OF refused(5), of d] by (auto simp: place_of_def split: if_splits)
    qed
    moreover have "orders s' = orders s @ [RequestCreation (next_request (inventory s) ?n) False]"
      "inventory s' = iv'"
      using refused(7) assms(2) by (auto simp: orders_def)
    ultimately show ?thesis using next_request_fits [OF refused(1,2)] refused(3) unfolding tracks_def
      by (intro exI [of _ "[RequestCreation (next_request (inventory s) ?n) False]"]) (simp add: order_ok_def pending_def)
  qed (use assms(2) in simp_all)
qed

lemma tracks_retire:
  assumes "engine_inv_leaving l s" "retire_lease env l s = Inr s'"
  shows "tracks env {#} s s'"
proof (cases "fmlookup (leases s) l")
  case None
  with assms(2) show ?thesis by (simp add: retire_lease_def)
next
  case (Some e)
  have "grow env (retired_state env l e s) = Inr s'" using assms(2) by (simp add: retire_lease_eq [OF Some])
  from aside_tracks [OF aside_retired_state tracks_grow [OF engine_inv_retired_state [OF assms(1) Some] this]]
  show ?thesis .
qed

lemma tracks_attach_or_join:
  assumes "settled_inv s" "attach_or_join env l c t s = Inr s'"
  shows "tracks env {#} s s'"
  using assms
proof (cases rule: attach_or_join_cases)
  case (refused s1 e)
  have "aside s' = aside s1" unfolding refused(2) by (rule aside_send_reply) simp
  with refused(1) show ?thesis by (intro tracks_aside) auto
next
  case (joined s1 e)
  with aside_reply_attached [OF joined(3)] show ?thesis by (intro tracks_aside) auto
next
  case (queued s1)
  with aside_tracks [OF _ tracks_grow [OF queued(2,3)]] show ?thesis by auto
next
  case (fresh s1 s2)
  with aside_tracks [OF _ tracks_grow [OF fresh(3,4)]] show ?thesis by auto
qed

lemma tracks_release_lease:
  assumes "settled_inv s" "release_lease env l s = Inr (r, s')"
  shows "tracks env {#} s s'"
proof -
  obtain a s1 where a: "admit_lease l s = (a, s1)" by (cases "admit_lease l s")
  have "engine_inv s" using assms(1) by (simp add: settled_inv_def)
  note adm = engine_inv_admit [OF this a]
  show ?thesis
  proof (cases "a = Inr Open")
    case True
    with assms(2) a have r: "retire_lease env l (closed_state env l s1) = Inr s'"
      by (auto simp: release_lease_eq elim!: bind_resE)
    show ?thesis
      by (rule aside_tracks [OF _ tracks_retire [OF engine_inv_closed_state [OF adm(1) adm(2) [OF True]] r]])
        (simp add: aside_admit [OF a])
  next
    case False
    with assms(2) a show ?thesis
      using aside_admit [OF a] by (intro tracks_aside) (auto simp: release_lease_eq split: sum.splits LeaseStatus.splits)
  qed
qed

text \<open>The creation that a message reports, if it was under way.\<close>

definition reported :: "'c EngineMessage \<Rightarrow> DatabaseId fset \<Rightarrow> DatabaseId multiset" where
  "reported msg under_way =
     (case msg of DatabaseWorker (CreationFinished d r) \<Rightarrow> if d |\<in>| under_way then {#d#} else {#} | _ \<Rightarrow> {#})"

lemma tracks_worker_message:
  assumes "settled_inv s" "handle_database_worker_message env m s = Inr s'"
  shows "tracks env (reported (DatabaseWorker m) (creating (inventory s))) s s'"
  using assms
proof (cases rule: worker_message_cases)
  case (cleaned d r)
  then have "aside s' = aside s" by (simp add: aside_defs complete_cleanup_def split: sum.splits)
  with cleaned(1) show ?thesis by (simp add: reported_def tracks_aside)
next
  case (unknown d r)
  then show ?thesis by (simp add: reported_def)
next
  case (finished d r s1)
  have "pending s = add_mset d (pending s1)"
    using finished(2,8) by (simp add: pending_def mset_set_Diff mset_set.insert_remove flip: mset_set.remove)
  then have "tracks env {#d#} s s1" by (simp add: tracks_def finished(7))
  from tracks_trans [OF this tracks_grow [OF finished(4,5)]] finished(1,2) show ?thesis by (simp add: reported_def)
qed

lemma tracks_handle_message:
  assumes "settled_inv s" "handle_message env msg s = Inr (go, s')"
  shows "tracks env (reported msg (creating (inventory s))) s s'"
proof (cases msg)
  case (AttachOrJoin l c t)
  with assms(2) tracks_attach_or_join [OF assms(1)] show ?thesis
    by (auto simp: handle_message_def reported_def bind_res_eq_Inr)
next
  case (ReleaseLease l c)
  with assms(2) obtain r s1 where r: "release_lease env l s = Inr (r, s1)" "s' = snd (send_reply env c (ReleaseResult r) s1)"
    by (auto simp: handle_message_def bind_res_eq_Inr)
  have "orders s' = orders s1" "creating (inventory s') = creating (inventory s1)"
    unfolding r(2) by (simp_all add: send_reply_def orders_def record_call_def)
  then have "tracks env {#} s1 s'" by (simp add: tracks_def pending_def)
  from tracks_after [OF tracks_release_lease [OF assms(1) r(1)] this] ReleaseLease show ?thesis by (simp add: reported_def)
next
  case (Detach l g)
  with assms(2) have "aside s' = aside s"
    by (auto simp: handle_message_def handle_detach_def split: option.splits)
  with Detach show ?thesis by (simp add: reported_def tracks_aside)
next
  case (LeaseMaxTimeReached l g)
  let ?s = "s\<lparr>counters := (counters s)\<lparr>rejected_attach_max_lifetime := rejected_attach_max_lifetime (counters s) + 1\<rparr>\<rparr>"
  have inv: "engine_inv ?s" using assms(1) by (simp add: settled_inv_def engine_inv_def)
  have "s' = s \<or> retire_lease env l ?s = Inr s'"
    using assms(2) LeaseMaxTimeReached
    by (auto simp: handle_message_def handle_max_time_def bind_res_eq_Inr split: option.splits if_splits)
  then have "tracks env {#} s s'"
    using aside_tracks [OF _ tracks_retire [OF engine_inv_leaving [OF inv]], of s env l s'] by auto
  with LeaseMaxTimeReached show ?thesis by (simp add: reported_def)
next
  case (DatabaseWorker m)
  with assms(2) tracks_worker_message [OF assms(1)] show ?thesis by (auto simp: handle_message_def bind_res_eq_Inr)
next
  case Shutdown
  with assms(2) have "aside s' = aside s" by (auto simp: handle_message_def)
  with Shutdown show ?thesis by (simp add: reported_def tracks_aside)
qed

end
