(* ===== verification/Manager_Supply.thy ===== *)
theory Manager_Supply
  imports Engine_Supply Engine_Creations Client_Channels
begin

text \<open>
  Creations over a whole run of the manager: every database that the engine has under creation is a
  request in the channel of the creation worker, a result that a creation task has yet to report, or
  a report in the inbox, exactly once. So the creations that cover the waiting leases do come.
\<close>

section \<open>Creations under way\<close>

definition job_ids :: "creation_job \<Rightarrow> DatabaseId multiset" where
  "job_ids job = image_mset (batch_id (job_request job) \<circ> fst) (mset (job_results job))"

definition report_id :: "'c EngineMessage \<Rightarrow> DatabaseId multiset" where
  "report_id msg = (case msg of DatabaseWorker (CreationFinished d r) \<Rightarrow> {#d#} | _ \<Rightarrow> {#})"

definition channel_ids :: "CreateDatabases list \<Rightarrow> DatabaseId multiset" where
  "channel_ids batches = (\<Sum>r \<leftarrow> batches. request_ids r)"

definition jobs_ids :: "creation_job list \<Rightarrow> DatabaseId multiset" where
  "jobs_ids jobs = (\<Sum>job \<leftarrow> jobs. job_ids job)"

definition inbox_ids :: "'c EngineMessage list \<Rightarrow> DatabaseId multiset" where
  "inbox_ids msgs = (\<Sum>msg \<leftarrow> msgs. report_id msg)"

definition under_way :: "WorkerEngineManager \<Rightarrow> DatabaseId multiset" where
  "under_way w = channel_ids (creation_channel w) + jobs_ids (creation_jobs w) + inbox_ids (worker_inbox w)"

lemma ids_simps [simp]:
  "channel_ids [] = {#}" "channel_ids (r # rs) = request_ids r + channel_ids rs"
  "channel_ids (rs @ rs') = channel_ids rs + channel_ids rs'"
  "jobs_ids [] = {#}" "jobs_ids (j # js) = job_ids j + jobs_ids js" "jobs_ids (js @ js') = jobs_ids js + jobs_ids js'"
  "inbox_ids [] = {#}" "inbox_ids (m # ms) = report_id m + inbox_ids ms" "inbox_ids (ms @ ms') = inbox_ids ms + inbox_ids ms'"
  by (simp_all add: channel_ids_def jobs_ids_def inbox_ids_def)

definition job_fits :: "creation_job \<Rightarrow> bool" where
  "job_fits job \<longleftrightarrow> batch_fits (job_request job) \<and> (\<forall>i \<in> fst ` set (job_results job). i < amount (job_request job))"

text \<open>As long as no shutdown has begun, the engine and the creation worker run and the two sides agree.\<close>

definition creation_inv :: "WorkerEngineManager \<Rightarrow> bool" where
  "creation_inv w \<longleftrightarrow> shutdown_token w \<or>
     engine_running w \<and> creation_worker w \<and> Shutdown \<notin> set (worker_inbox w) \<and>
     pending (engine_handle w) = under_way w \<and>
     list_all batch_fits (creation_channel w) \<and> list_all job_fits (creation_jobs w)"

section \<open>Steps beside the creations\<close>

text \<open>A message that neither reports a creation nor stops the engine.\<close>

definition neutral :: "'c EngineMessage \<Rightarrow> bool" where
  "neutral msg \<longleftrightarrow> report_id msg = {#} \<and> msg \<noteq> Shutdown"

definition beside :: "WorkerEngineManager \<Rightarrow> WorkerEngineManager \<Rightarrow> bool" where
  "beside w w' \<longleftrightarrow>
     engine_handle w' = engine_handle w \<and> engine_running w' = engine_running w \<and>
     creation_worker w' = creation_worker w \<and> creation_channel w' = creation_channel w \<and>
     creation_jobs w' = creation_jobs w \<and> shutdown_token w' = shutdown_token w \<and> clock w \<le> clock w' \<and>
     (\<exists>msgs. worker_inbox w' = worker_inbox w @ msgs \<and> list_all neutral msgs)"

lemma inbox_ids_neutral: "list_all neutral msgs \<Longrightarrow> inbox_ids msgs = {#} \<and> Shutdown \<notin> set msgs"
  by (induction msgs) (auto simp: neutral_def)

lemma beside_inv: "creation_inv w \<Longrightarrow> beside w w' \<Longrightarrow> creation_inv w'"
  using inbox_ids_neutral by (fastforce simp: creation_inv_def beside_def under_way_def)

lemma neutral_drops [simp]: "list_all neutral (drop_session x)" "list_all neutral (drop_reply r)"
  by (auto simp: drop_session_def drop_reply_def neutral_def report_id_def split: ManagerReply.splits)

lemma neutral_drop_replies [simp]: "list_all neutral (concat (map (drop_reply \<circ> snd) rs))"
  by (induction rs) simp_all

lemma neutral_simps [simp]:
  "neutral (AttachOrJoin l c t)" "neutral (ReleaseLease l c)" "neutral (Detach l g)" "neutral (LeaseMaxTimeReached l g)"
  "neutral (DatabaseWorker (CleanupFinished d u))"
  by (simp_all add: neutral_def report_id_def)

lemma beside_refl [simp]: "beside w w"
  by (simp add: beside_def)

lemma beside_trans: "beside w w1 \<Longrightarrow> beside w1 w2 \<Longrightarrow> beside w w2"
  by (fastforce simp: beside_def)

lemma beside_post: "list_all neutral msgs \<Longrightarrow> beside w w1 \<Longrightarrow> beside w (post msgs w1)"
  by (auto simp: beside_def post_def)

lemma beside_update [simp]:
  "beside w (w'\<lparr>unread := a\<rparr>) = beside w w'" "beside w (w'\<lparr>receivers := b\<rparr>) = beside w w'"
  "beside w (w'\<lparr>next_channel := c\<rparr>) = beside w w'" "beside w (w'\<lparr>sessions := d\<rparr>) = beside w w'"
  "beside w (w'\<lparr>timers := e\<rparr>) = beside w w'" "beside w (w'\<lparr>cleanup_channel := f\<rparr>) = beside w w'"
  "beside w (w'\<lparr>cleanup_worker := g\<rparr>) = beside w w'" "beside w (w'\<lparr>cleanup_jobs := h\<rparr>) = beside w w'"
  by (simp_all add: beside_def)

lemma beside_drop_receiver [simp]: "beside w w' \<Longrightarrow> beside w (drop_receiver ch w')"
  by (simp add: drop_receiver_def beside_post)

lemma beside_take_reply [simp]: "beside w w' \<Longrightarrow> beside w (take_reply ch w')"
  by (simp add: take_reply_def split: list.splits)

lemma beside_steps:
  "beside w (snd (attach_request n l w))" "beside w (snd (attach_await ch w))"
  "beside w (snd (release_request l w))" "beside w (snd (release_await ch w))"
  "beside w (drop_receiver ch w)" "beside w (end_session i w)" "beside w (timer_stop i w)"
  "beside w (cleanup_worker_turn w)" "beside w (cleanup_job_turn answer i w)"
  "clock w \<le> t \<Longrightarrow> beside w (w\<lparr>clock := t\<rparr>)"
  by (auto simp: attach_request_def send_message_def release_request_def attach_await_def release_await_def
      end_session_def timer_stop_def cleanup_worker_turn_def cleanup_job_turn_def Let_def intro!: beside_post
      split: poll.splits sum.splits ManagerReply.splits ConsumerReply.splits list.splits)
    (simp add: beside_def)

lemma beside_timer_fire: "\<forall>t \<in> set (timers w). is_expiry t \<Longrightarrow> beside w (timer_fire i w)"
  by (auto simp: timer_fire_def is_expiry_def intro!: beside_post dest!: nth_mem)

section \<open>The creation worker and its tasks\<close>

lemma creation_inv_worker:
  assumes "creation_inv w" "\<forall>request. reports_once (amount request) (create request)"
  shows "creation_inv (creation_worker_turn create w)"
proof (cases "shutdown_token w \<or> creation_channel w = []")
  case True
  with assms(1) show ?thesis by (auto simp: creation_inv_def creation_worker_turn_def)
next
  case False
  then obtain request rest where q: "creation_channel w = request # rest" "\<not> shutdown_token w"
    by (cases "creation_channel w") auto
  let ?job = "\<lparr>job_request = request, job_results = create request\<rparr>"
  have r: "reports_once (amount request) (create request)" using assms(2) by simp
  then have "mset (map fst (create request)) = mset [0..<amount request]"
    by (intro set_eq_iff_mset_eq_distinct [THEN iffD1]) (auto simp: reports_once_def)
  then have "job_ids ?job = request_ids request"
    by (simp add: job_ids_def request_ids_def flip: image_mset.compositionality)
  moreover have "request_ids request = {#}" if "amount request = 0" using that by (simp add: request_ids_def)
  moreover have "batch_fits request \<Longrightarrow> job_fits ?job" using r by (auto simp: job_fits_def reports_once_def)
  ultimately show ?thesis
    using assms(1) q by (auto simp: creation_inv_def creation_worker_turn_def under_way_def Let_def ac_simps)
qed

lemma jobs_ids_update:
  "i < length jobs \<Longrightarrow> jobs_ids (jobs[i := job]) + job_ids (jobs ! i) = jobs_ids jobs + job_ids job"
  by (induction jobs arbitrary: i) (auto simp: nth_Cons ac_simps split: nat.splits)

lemma jobs_ids_remove: "i < length jobs \<Longrightarrow> jobs_ids jobs = jobs_ids (remove_at i jobs) + job_ids (jobs ! i)"
  unfolding remove_at_def using id_take_nth_drop [of i jobs] by (metis ids_simps(5,6) add.assoc add.commute)

text \<open>A creation task that has something to report never fails to name the database.\<close>

lemma creation_job_reports:
  assumes "creation_inv w" "\<not> shutdown_token w" "i < length (creation_jobs w)"
    and "job_results (creation_jobs w ! i) = (index, result) # rest"
  shows "creation_job_turn i w = Inr (post [DatabaseWorker (CreationFinished
           (batch_id (job_request (creation_jobs w ! i)) index) result)]
           (w\<lparr>creation_jobs := (creation_jobs w)[i := (creation_jobs w ! i)\<lparr>job_results := rest\<rparr>]\<rparr>))"
proof -
  have "job_fits (creation_jobs w ! i)" using assms(1-3) by (auto simp: creation_inv_def list_all_iff)
  with assms database_id_Inr show ?thesis by (auto simp: creation_job_turn_def job_fits_def Let_def)
qed

lemma creation_inv_job:
  assumes "creation_inv w" "creation_job_turn i w = Inr w'"
  shows "creation_inv w'"
proof (cases "shutdown_token w \<or> \<not> i < length (creation_jobs w)")
  case True
  with assms show ?thesis
    by (auto simp: creation_inv_def creation_job_turn_def Let_def split: if_splits)
next
  case False
  then have i: "\<not> shutdown_token w" "i < length (creation_jobs w)" by simp_all
  let ?job = "creation_jobs w ! i"
  have inv: "engine_running w" "creation_worker w" "Shutdown \<notin> set (worker_inbox w)"
    "pending (engine_handle w) = under_way w" "list_all batch_fits (creation_channel w)"
    "list_all job_fits (creation_jobs w)"
    using assms(1) i(1) by (simp_all add: creation_inv_def)
  have fits: "job_fits ?job" using inv(6) i(2) by (simp add: list_all_length)
  show ?thesis
  proof (cases "job_results ?job")
    case Nil
    with assms(2) i have w': "w' = w\<lparr>creation_jobs := remove_at i (creation_jobs w)\<rparr>"
      by (simp add: creation_job_turn_def)
    have "jobs_ids (creation_jobs w') = jobs_ids (creation_jobs w)"
      using jobs_ids_remove [OF i(2)] Nil by (simp add: w' job_ids_def)
    moreover have "list_all job_fits (creation_jobs w')"
      using inv(6) set_remove_at [of i "creation_jobs w"] by (auto simp: w' list_all_iff)
    ultimately show ?thesis using inv by (auto simp: creation_inv_def under_way_def w')
  next
    case (Cons p rest)
    obtain index result where p: "p = (index, result)" by (cases p)
    let ?new = "?job\<lparr>job_results := rest\<rparr>" and ?d = "batch_id (job_request ?job) index"
    have w': "w' = post [DatabaseWorker (CreationFinished ?d result)]
        (w\<lparr>creation_jobs := (creation_jobs w)[i := ?new]\<rparr>)"
      using creation_job_reports [OF assms(1) i, of index result rest] Cons p assms(2) by simp
    have "job_ids ?job = add_mset ?d (job_ids ?new)" by (simp add: job_ids_def Cons p)
    with jobs_ids_update [OF i(2), of ?new] have "jobs_ids (creation_jobs w) = add_mset ?d (jobs_ids ((creation_jobs w)[i := ?new]))"
      by simp
    moreover have "job_fits ?new" using fits by (simp add: job_fits_def Cons)
    then have "list_all job_fits ((creation_jobs w)[i := ?new])"
      using inv(6) by (auto simp: list_all_iff dest!: set_update_subset_insert [THEN subsetD])
    ultimately show ?thesis using inv by (simp add: creation_inv_def under_way_def w' post_def report_id_def)
  qed
qed

section \<open>The engine\<close>

lemma perform_frame [simp]:
  "creation_worker (perform k w) = creation_worker w" "creation_jobs (perform k w) = creation_jobs w"
  "shutdown_token (perform k w) = shutdown_token w" "clock (perform k w) = clock w"
  by (cases k; simp add: perform_Reply; simp add: perform_def request_creation_def request_cleanup_def
      send_delayed_message_def)+

lemma performs_frame [simp]:
  "creation_worker (fold perform ks w) = creation_worker w" "creation_jobs (fold perform ks w) = creation_jobs w"
  "shutdown_token (fold perform ks w) = shutdown_token w" "clock (fold perform ks w) = clock w"
  by (induction ks arbitrary: w) simp_all

lemma creation_channel_performs:
  "creation_worker w \<Longrightarrow>
     creation_channel (fold perform ks w) = creation_channel w @ [r. RequestCreation r sent \<leftarrow> ks]"
proof (induction ks arbitrary: w)
  case (Cons k ks)
  have "creation_channel (perform k w) = creation_channel w @ [r. RequestCreation r sent \<leftarrow> [k]]"
    using Cons.prems
    by (cases k; simp add: perform_Reply; simp add: perform_def request_creation_def request_cleanup_def
        send_delayed_message_def)
  with Cons show ?case by simp
qed simp

lemma accepted_orders:
  assumes "list_all (order_ok env) (filter is_order log)" "creations_accepted env"
  shows "channel_ids [r. RequestCreation r sent \<leftarrow> log] = ordered log \<and>
         list_all batch_fits [r. RequestCreation r sent \<leftarrow> log]"
  using assms(1)
proof (induction log)
  case (Cons k log)
  with assms(2) show ?case by (cases k) (auto simp: order_ok_def creations_accepted_def)
qed simp

lemma accepting_env: "creation_worker w \<Longrightarrow> creations_accepted (env_of w)"
  by (simp add: creations_accepted_def env_of_def request_creation_def)

lemma creation_inv_turn:
  assumes "manager_inv w" "creation_inv w" "engine_turn w = Inr w'"
  shows "creation_inv w'"
proof (cases "shutdown_token w")
  case True
  from assms(3) show ?thesis
  proof (cases rule: engine_turn_cases)
    case idle
    with assms(2) show ?thesis by simp
  next
    case (turn msg rest go e log w1)
    with turn(6,7) True show ?thesis by (simp add: creation_inv_def)
  qed
next
  case False
  from assms(3) show ?thesis
  proof (cases rule: engine_turn_cases)
    case idle
    with assms(2) show ?thesis by simp
  next
    case (turn msg rest go e log w1)
    have inv: "creation_worker w" "Shutdown \<notin> set (worker_inbox w)"
      "pending (engine_handle w) = under_way w" "list_all batch_fits (creation_channel w)"
      "list_all job_fits (creation_jobs w)"
      using assms(2) False by (simp_all add: creation_inv_def)
    have go: "go" using handle_message_continue [OF turn(3)] inv(2) turn(2) by auto
    have calls: "calls e = calls (engine_handle w) @ log"
      using turn_prefix [OF assms(1) turn(1-3)] turn(4) by simp
    have "settled_inv (engine_handle w)" using assms(1) by (simp add: manager_inv_def)
    from tracks_handle_message [OF this turn(3)] obtain new where
      new: "orders e = orders (engine_handle w) @ new" "list_all (order_ok (env_of w)) new"
      "pending e + reported msg (creating (inventory (engine_handle w))) = pending (engine_handle w) + ordered new"
      by (auto simp: tracks_def)
    have log: "new = filter is_order log" using new(1) by (simp add: orders_def calls)
    note acc = accepted_orders [OF new(2) [unfolded log] accepting_env [OF inv(1)]]
    have "reported msg (creating (inventory (engine_handle w))) = report_id msg"
    proof -
      have "d |\<in>| creating (inventory (engine_handle w))" if "msg = DatabaseWorker (CreationFinished d r)" for d r
      proof -
        have "d \<in># under_way w" using turn(2) that by (simp add: under_way_def report_id_def)
        then show ?thesis using inv(3) by (simp add: pending_def flip: inv(3))
      qed
      then show ?thesis by (auto simp: reported_def report_id_def split: EngineMessage.splits DatabaseWorkerMessages.splits)
    qed
    with new(3) have p: "pending e + report_id msg = under_way w + ordered log"
      by (simp add: inv(3) log ordered_filter)
    let ?w0 = "w\<lparr>engine_handle := e, worker_inbox := rest, handled := handled w @ [msg]\<rparr>"
    have w': "creation_worker w'" "creation_jobs w' = creation_jobs w" "shutdown_token w' = shutdown_token w"
      "creation_channel w' = creation_channel w @ [r. RequestCreation r sent \<leftarrow> log]"
      "engine_handle w' = e" "engine_running w'" "worker_inbox w' = rest"
      using creation_channel_performs [of ?w0 log] inv(1) turn(1,5-7) go by (simp_all add: carried_def)
    have "pending e = under_way w'"
      using p acc turn(2) by (simp add: under_way_def w' ac_simps)
    with w' inv acc turn(2) show ?thesis by (auto simp: creation_inv_def)
  qed
qed

lemma creation_inv_step:
  assumes "manager_step w w'" "manager_inv w" "creation_inv w"
  shows "creation_inv w'"
  using assms
proof (induction rule: manager_step.induct)
  case (fire w i)
  then show ?case using beside_inv beside_timer_fire [of w i] by (auto simp: manager_inv_def)
next
  case (begin_stop w)
  then show ?case by (simp add: begin_shutdown_def creation_inv_def)
next
  case (finish_stop w)
  then show ?case by (auto simp: finish_shutdown_def creation_inv_def post_def)
qed (auto intro: beside_inv beside_steps creation_inv_worker creation_inv_job creation_inv_turn)

section \<open>Supply\<close>

text \<open>Besides, the creations cover the waiting leases.\<close>

definition covered :: "WorkerEngineConfig \<Rightarrow> WorkerEngineManager \<Rightarrow> bool" where
  "covered cfg w \<longleftrightarrow> creation_inv w \<and> config (engine_handle w) = cfg \<and>
     (shutdown_token w \<or> supplied (env_of w) (engine_handle w))"

lemma ages_env_of: "clock w \<le> clock w' \<Longrightarrow> ages (env_of w) (env_of w')"
  by (simp add: ages_def env_of_def diff_le_mono)

lemma covered_idle:
  assumes "covered cfg w" "creation_inv w'" "engine_handle w' = engine_handle w" "clock w \<le> clock w'"
    and "shutdown_token w \<Longrightarrow> shutdown_token w'"
  shows "covered cfg w'"
  using assms supplied_ages [OF ages_env_of [OF assms(4)]] by (auto simp: covered_def)

lemma covered_turn:
  assumes "manager_inv w" "covered cfg w" "engine_turn w = Inr w'"
  shows "covered cfg w'"
proof -
  have inv': "creation_inv w'" using assms creation_inv_turn by (simp add: covered_def)
  from assms(3) show ?thesis
  proof (cases rule: engine_turn_cases)
    case idle
    with assms(2) show ?thesis by simp
  next
    case (turn msg rest go e log w1)
    let ?w0 = "w\<lparr>engine_handle := e, worker_inbox := rest, handled := handled w @ [msg]\<rparr>"
    have s: "settled_inv (engine_handle w)" "config (engine_handle w) = cfg"
      using assms(1,2) by (simp_all add: manager_inv_def covered_def)
    have cfg: "config e = cfg" using config_handle_message [OF s(1) turn(3)] s(2) by simp
    have w': "clock w' = clock w" "shutdown_token w' = shutdown_token w" "config (engine_handle w') = config e"
      using turn(5-7) by (auto simp: carried_def record_call_def)
    have "supplied (env_of w') (engine_handle w')" if "\<not> shutdown_token w"
    proof -
      have c: "creation_worker w" "Shutdown \<notin> set (worker_inbox w)" "supplied (env_of w) (engine_handle w)"
        using assms(2) that by (auto simp: covered_def creation_inv_def)
      then have "engine_handle w' = e"
        using handle_message_continue [OF turn(3)] turn(2,5,6) by (auto simp: carried_def)
      with supplied_handle_message [OF s(1) turn(3) c(3)] accepting_env [OF c(1)]
        supplied_ages [OF ages_env_of [of w w'], of e] w'(1)
      show ?thesis by simp
    qed
    with inv' cfg w' show ?thesis by (auto simp: covered_def)
  qed
qed

lemma beside_covered: "beside w w' \<Longrightarrow> covered cfg w \<Longrightarrow> covered cfg w'"
  using beside_inv [of w w'] by (intro covered_idle [of cfg w w']) (auto simp: beside_def covered_def)

lemma idle_tasks:
  "engine_handle (creation_worker_turn create w) = engine_handle w" "clock (creation_worker_turn create w) = clock w"
  "shutdown_token (creation_worker_turn create w) = shutdown_token w"
  "engine_handle (finish_shutdown w) = engine_handle w" "clock (finish_shutdown w) = clock w"
  "shutdown_token (finish_shutdown w) = shutdown_token w"
  by (auto simp: creation_worker_turn_def finish_shutdown_def post_def Let_def split: list.splits)

lemma idle_job:
  "creation_job_turn i w = Inr w' \<Longrightarrow>
     engine_handle w' = engine_handle w \<and> clock w' = clock w \<and> shutdown_token w' = shutdown_token w"
  by (auto simp: creation_job_turn_def post_def Let_def bind_res_eq_Inr split: if_splits prod.splits)

lemma covered_step:
  assumes "manager_step w w'" "manager_inv w" "covered cfg w"
  shows "covered cfg w'"
  using assms
proof (induction rule: manager_step.induct)
  case (fire w i)
  then show ?case using beside_covered beside_timer_fire [of w i] by (auto simp: manager_inv_def)
next
  case (turn w w')
  then show ?case using covered_turn by blast
next
  case (create create w)
  then have "creation_inv (creation_worker_turn create w)" by (simp add: covered_def creation_inv_worker)
  with create show ?case by - (rule covered_idle [of cfg w], simp_all add: idle_tasks)
next
  case (created i w w')
  then have "creation_inv w'" using creation_inv_job [OF _ created(1)] by (simp add: covered_def)
  with created idle_job [OF created(1)] show ?case by - (rule covered_idle [of cfg w], simp_all)
next
  case (begin_stop w)
  then show ?case by (simp add: begin_shutdown_def covered_def creation_inv_def)
next
  case (finish_stop w)
  then have "creation_inv (finish_shutdown w)"
    using creation_inv_step [OF manager_step.finish_stop] by (simp add: covered_def)
  with finish_stop show ?case by - (rule covered_idle [of cfg w], simp_all add: idle_tasks)
qed (auto intro: beside_covered beside_steps)

interpretation covering: relative_invariant manager_step manager_inv "covered cfg" for cfg
  by unfold_locales (rule covered_step)

lemma covered_started:
  assumes "WorkerEngineManager_start cl pcfg cfg = Inr (Inr w)"
  shows "covered cfg w"
proof -
  note st = started_cases [OF assms]
  have none: "creating (inventory (engine_handle w)) = {||}"
    using booted_creating [OF _ st(7)] st(5) by simp
  then have "pending (engine_handle w) = {#}" by (simp add: pending_def)
  with st(3) have "creation_inv w" by (simp add: creation_inv_def fresh_manager_def under_way_def)
  then show ?thesis using booted_queue [OF st(7)] none by (simp add: covered_def supplied_def)
qed

text \<open>
  C18: in every reachable state of a manager that is not shutting down, the databases under creation
  are the identities in the channel of the creation worker, those that a creation task has yet to
  report and those reported in the inbox, each exactly once; a task with something to report can do
  so; and no database is idle when leases with a live claim wait. With a positive batch size, the
  creations that will be reported are then at least as many as these leases, the starvation threshold
  and one more; with a batch size of zero, which disables growth, nothing is ever under creation.
\<close>

theorem creations_cover_waiting:
  assumes "manager_run cl pcfg cfg w" "\<not> shutdown_token w"
  shows "mset_set (fset (creating (inventory (engine_handle w)))) = under_way w \<and>
         (\<forall>i. \<exists>w'. creation_job_turn i w = Inr w') \<and>
         (waiting_leases (env_of w) (engine_handle w) = {||} \<or> ready (inventory (engine_handle w)) = []) \<and>
         (if unat (grow_batch_size cfg) = 0 then under_way w = {#}
          else waiting_leases (env_of w) (engine_handle w) = {||} \<or>
               fcard (waiting_leases (env_of w) (engine_handle w)) + unat (starvation_threshold cfg) + 1
                 \<le> size (under_way w))"
proof -
  let ?e = "engine_handle w" and ?wait = "waiting_leases (env_of w) (engine_handle w)"
  obtain w0 where "WorkerEngineManager_start cl pcfg cfg = Inr (Inr w0)" "manager_step\<^sup>*\<^sup>* w0 w"
    using assms(1) by (auto simp: manager_run_def)
  from covering.extra_run [OF this(2) manager_inv_start [OF this(1)] covered_started [OF this(1)]]
  have inv: "creation_inv w" "config ?e = cfg" "supplied (env_of w) ?e" using assms(2) by (auto simp: covered_def)
  then have p: "mset_set (fset (creating (inventory ?e))) = under_way w"
    using assms(2) by (simp add: creation_inv_def pending_def)
  have job: "\<exists>w'. creation_job_turn i w = Inr w'" for i
  proof (cases "i < length (creation_jobs w) \<and> job_results (creation_jobs w ! i) \<noteq> []")
    case True
    then obtain index result rest where "job_results (creation_jobs w ! i) = (index, result) # rest"
      by (cases "job_results (creation_jobs w ! i)") auto
    with creation_job_reports [OF inv(1) assms(2)] True show ?thesis by blast
  qed (auto simp: creation_job_turn_def)
  have idle: "ready (inventory ?e) = []" if "?wait \<noteq> {||}"
    using that waiting_none_ready [of "env_of w" ?e] manager_run_inv [OF assms(1)] by (simp add: manager_inv_def)
  have "if unat (grow_batch_size cfg) = 0 then creating (inventory ?e) = {||}
        else ?wait = {||} \<or> fcard ?wait + unat (starvation_threshold cfg) + 1 \<le> fcard (creating (inventory ?e))"
    using inv(2,3) idle no_waiting_leases [of ?e "env_of w"]
    by (cases "?wait = {||}") (auto simp: supplied_def supply_len_def growth_target_def split: if_splits)
  with p job idle show ?thesis by (auto simp: fcard.rep_eq simp flip: p split: if_splits)
qed

text \<open>A manager without initial databases: the first client waits, and two creations are under way.\<close>

definition no_slots :: WorkerEngineConfig where
  "no_slots = two_slots\<lparr>initial_slots := 0, grow_batch_size := 1\<rparr>"

definition bare_manager :: WorkerEngineManager where
  "bare_manager = booted_manager\<lparr>engine_handle := WorkerEngine_new no_slots\<rparr>"

lemma bare_started: "WorkerEngineManager_start calm_cluster app_config no_slots = Inr (Inr bare_manager)"
proof -
  obtain ev where "start_manager (server16 [''app''] (\<lambda>pat s. True)) (\<lambda>j. 0) app_config = (Inr app_client, ev)"
    using start_app by (metis prod.collapse)
  moreover have "create_databases (\<lambda>k xs. 0) (\<lambda>e. e) app_client (\<lambda>i j. i) (\<lambda>i. Inr ()) (\<lambda>q. Inr ()) 0 = Inr []"
    by (simp add: create_databases_def create_ddl_databases_def run_bounded_def window_run.simps app_client_def)
  ultimately show ?thesis
    by (simp add: WorkerEngineManager_start_def prepare_postgres_def start_workers_def calm_cluster_def
        no_slots_def two_slots_def bare_manager_def booted_manager_def engine_eval
        split: prod.splits sum.splits)
qed

lemma bare_turn:
  "\<exists>w. engine_turn (snd (attach_request ''app'' (LeaseId ''a'') bare_manager)) = Inr w \<and> \<not> shutdown_token w \<and>
     LeaseId ''a'' |\<in>| waiting_leases (env_of w) (engine_handle w)"
  by (simp add: manager_eval engine_eval bare_manager_def no_slots_def perform_def)

theorem creations_cover_waiting_witness:
  "\<exists>w. manager_run calm_cluster app_config no_slots w \<and>
       LeaseId ''a'' |\<in>| waiting_leases (env_of w) (engine_handle w) \<and> 2 \<le> size (under_way w)"
proof -
  obtain w where w: "engine_turn (snd (attach_request ''app'' (LeaseId ''a'') bare_manager)) = Inr w"
    "\<not> shutdown_token w" "LeaseId ''a'' |\<in>| waiting_leases (env_of w) (engine_handle w)"
    using bare_turn by blast
  from w(1) have "manager_step\<^sup>*\<^sup>* bare_manager w"
    by (meson attach turn rtranclp.rtrancl_into_rtrancl rtranclp.rtrancl_refl)
  with bare_started have run: "manager_run calm_cluster app_config no_slots w" by (auto simp: manager_run_def)
  have "0 < unat (grow_batch_size no_slots)" by (simp add: no_slots_def)
  with creations_cover_waiting [OF run w(2)] w(3)
  have "fcard (waiting_leases (env_of w) (engine_handle w)) + 1 \<le> size (under_way w)" by auto
  moreover have "0 < fcard (waiting_leases (env_of w) (engine_handle w))"
    using w(3) by (auto simp: card_gt_0_iff fcard.rep_eq)
  ultimately show ?thesis using run w(3) by (intro exI [of _ w]) simp
qed

end
