(* ===== verification/Testcontainer.thy ===== *)
theory Testcontainer
  imports Postgres_Manager
begin

text \<open>
  The PostgreSQL container of the test suites (crates/pgtest-database-operations/src/testcontainer.rs):
  the image with its environment, init scripts and command line, the configuration of a client of the
  container, and the templates that \<open>pg_container_config\<close> gives to the managers of one process. The
  crate testcontainers and the server are parameters.
\<close>

section \<open>The image\<close>

record 'd Postgres =
  env_vars :: "string \<rightharpoonup> string"
  copy_to_sources :: "('d \<times> string) list"

definition with_db_name :: "string \<Rightarrow> 'd Postgres \<Rightarrow> 'd Postgres" where
  "with_db_name db_name img = img\<lparr>env_vars := (env_vars img)(''POSTGRES_DB'' \<mapsto> db_name)\<rparr>"

definition with_user :: "string \<Rightarrow> 'd Postgres \<Rightarrow> 'd Postgres" where
  "with_user user img = img\<lparr>env_vars := (env_vars img)(''POSTGRES_USER'' \<mapsto> user)\<rparr>"

definition with_password :: "string \<Rightarrow> 'd Postgres \<Rightarrow> 'd Postgres" where
  "with_password password img = img\<lparr>env_vars := (env_vars img)(''POSTGRES_PASSWORD'' \<mapsto> password)\<rparr>"

definition mount_data_dir_post_pg_18 :: string where
  "mount_data_dir_post_pg_18 = ''/var/lib/postgresql''"

definition mount_data_dir_pre_pg_18 :: string where
  "mount_data_dir_pre_pg_18 = ''/var/lib/postgresql/data''"

definition init_target :: "nat \<Rightarrow> string" where
  "init_target i = ''/docker-entrypoint-initdb.d/init_'' @ show_nat i @ ''.sql''"

definition with_init_sql :: "'d \<Rightarrow> 'd Postgres \<Rightarrow> 'd Postgres" where
  "with_init_sql init_sql img =
     img\<lparr>copy_to_sources := copy_to_sources img @ [(init_sql, init_target (length (copy_to_sources img)))]\<rparr>"

definition Postgres_default :: "'d Postgres" where
  "Postgres_default =
     \<lparr>env_vars = [''POSTGRES_DB'' \<mapsto> ''pgtest'', ''POSTGRES_USER'' \<mapsto> ''postgres'', ''POSTGRES_PASSWORD'' \<mapsto> ''postgres'',
        ''POSTGRES_HOST_AUTH_METHOD'' \<mapsto> ''trust''],
      copy_to_sources = []\<rparr>"

definition image_name :: string where
  "image_name = ''postgres''"

definition image_tag :: string where
  "image_tag = ''18-alpine''"

datatype WaitFor = MessageOnStderr string | MessageOnStdout string

definition ready_conditions :: "'d Postgres \<Rightarrow> WaitFor list" where
  "ready_conditions img =
     [MessageOnStderr ''database system is ready to accept connections'',
      MessageOnStdout ''database system is ready to accept connections'']"

definition cmd :: "'d Postgres \<Rightarrow> string list" where
  "cmd img =
     [''postgres'',
      ''-c'', ''file_copy_method=clone'',
      ''-c'', ''fsync=off'',
      ''-c'', ''synchronous_commit=off'',
      ''-c'', ''full_page_writes=off'',
      ''-c'', ''wal_level=minimal'',
      ''-c'', ''max_wal_senders=0'',
      ''-c'', ''archive_mode=off'',
      ''-c'', ''summarize_wal=off'',
      ''-c'', ''autovacuum=off'',
      ''-c'', ''random_page_cost=1.1'']"

definition expose_ports :: "'d Postgres \<Rightarrow> u16 list" where
  "expose_ports img = [5432]"

text \<open>The shared container: the default image with its data directory in memory.\<close>

record 'd container_request =
  request_image :: "'d Postgres"
  tmpfs :: "string \<rightharpoonup> string"

definition POSTGRES_CONTAINER :: "'d container_request" where
  "POSTGRES_CONTAINER =
     \<lparr>request_image = Postgres_default, tmpfs = [mount_data_dir_post_pg_18 \<mapsto> ''rw,noexec,nosuid,size=3g'']\<rparr>"

text \<open>Scripts are added, not overridden, and no two of them are copied to the same file.\<close>

lemma init_scripts_added:
  "copy_to_sources (fold with_init_sql scripts Postgres_default) = zip scripts (map init_target [0..<length scripts])"
proof (induction scripts rule: rev_induct)
  case (snoc x xs)
  then show ?case by (simp add: with_init_sql_def)
qed (simp add: Postgres_default_def)

lemma init_scripts_separate:
  "map fst (copy_to_sources (fold with_init_sql scripts Postgres_default)) = scripts \<and>
   distinct (map snd (copy_to_sources (fold with_init_sql scripts Postgres_default)))"
  by (auto simp: init_scripts_added distinct_map inj_on_def init_target_def dest: show_nat_inj)

section \<open>Configurations\<close>

definition PostgresConfig_default :: PostgresConfig where
  "PostgresConfig_default =
     \<lparr>pgtest_pg_host = ''localhost'', pgtest_pg_port = 5432, pgtest_pg_user = ''postgres'',
      pgtest_pg_database = ''pgtest'', pgtest_pg_creation_pool_connection = 5, pgtest_pg_cleanup_pool_connection = 2\<rparr>"

text \<open>A running container: its host and the host port of a container port, if it knows them.\<close>

record container =
  get_host :: "string option"
  get_host_port_ipv4 :: "u16 \<Rightarrow> u16 option"

datatype container_panic = NoContainer | NoHost | NoPort | NoConnection | NoTemplate | NotClosed

definition PostgresConfig_from :: "container \<Rightarrow> container_panic + PostgresConfig" where
  "PostgresConfig_from c =
     (case get_host c of
        None \<Rightarrow> Inl NoHost
      | Some h \<Rightarrow>
          (case get_host_port_ipv4 c 5432 of
             None \<Rightarrow> Inl NoPort
           | Some p \<Rightarrow> Inr (PostgresConfig_default\<lparr>pgtest_pg_host := h, pgtest_pg_port := p\<rparr>)))"

section \<open>Templates\<close>

text \<open>The format \<open>{id:016x}\<close>: sixteen hexadecimal digits, the most significant first.\<close>

definition hex_digit :: "nat \<Rightarrow> char" where
  "hex_digit d = ''0123456789abcdef'' ! d"

fun hex_digits :: "nat \<Rightarrow> nat \<Rightarrow> string" where
  "hex_digits 0 n = []"
| "hex_digits (Suc k) n = hex_digits k (n div 16) @ [hex_digit (n mod 16)]"

definition template_name :: "u64 \<Rightarrow> string" where
  "template_name i = ''pgt'' @ hex_digits 16 (unat i)"

definition template_query :: "string \<Rightarrow> string" where
  "template_query template = ''CREATE DATABASE '' @ quote_ident template @ '' TEMPLATE pgtest STRATEGY=FILE_COPY''"

text \<open>
  What \<open>pg_container_config\<close> meets: the shared container, if it starts, whether the connection is
  made, the statement executed and the connection closed. The counter is the state of the process;
  the last component holds the statements that were sent.
\<close>

record container_env =
  shared_container :: "container option"
  connects :: "connect_options \<Rightarrow> bool"
  executes :: "string \<Rightarrow> bool"
  closes :: bool

definition pg_container_config ::
  "container_env \<Rightarrow> u64 \<Rightarrow> (container_panic + PostgresConfig) \<times> u64 \<times> string list" where
  "pg_container_config env next_template_id =
     (case shared_container env of
        None \<Rightarrow> (Inl NoContainer, next_template_id, [])
      | Some c \<Rightarrow>
          (case PostgresConfig_from c of
             Inl p \<Rightarrow> (Inl p, next_template_id, [])
           | Inr config0 \<Rightarrow>
               let i = next_template_id;
                   config = config0\<lparr>pgtest_pg_database := template_name i\<rparr>;
                   query = template_query (pgtest_pg_database config)
               in if \<not> connects env \<lparr>connect_host = pgtest_pg_host config, connect_port = pgtest_pg_port config,
                        connect_user = pgtest_pg_user config, connect_password = ''postgres'',
                        connect_dbname = ''postgres''\<rparr>
                  then (Inl NoConnection, i + 1, [])
                  else if \<not> executes env query then (Inl NoTemplate, i + 1, [query])
                  else if \<not> closes env then (Inl NotClosed, i + 1, [query])
                  else (Inr config, i + 1, [query])))"

text \<open>The configurations that a process hands out, in order.\<close>

fun container_configs :: "container_env list \<Rightarrow> u64 \<Rightarrow> PostgresConfig list" where
  "container_configs [] i = []"
| "container_configs (env # envs) i =
     (case pg_container_config env i of
        (Inl p, i', sent) \<Rightarrow> container_configs envs i'
      | (Inr config, i', sent) \<Rightarrow> config # container_configs envs i')"

section \<open>Templates keep apart\<close>

lemma hex_digit_inj: "hex_digit d = hex_digit e \<Longrightarrow> d < 16 \<Longrightarrow> e < 16 \<Longrightarrow> d = e"
proof -
  have "distinct ''0123456789abcdef''" by simp
  then show "hex_digit d = hex_digit e \<Longrightarrow> d < 16 \<Longrightarrow> e < 16 \<Longrightarrow> d = e"
    unfolding hex_digit_def by (subst (asm) nth_eq_iff_index_eq) simp_all
qed

lemma length_hex_digits [simp]: "length (hex_digits k n) = k"
  by (induction k arbitrary: n) simp_all

lemma hex_digits_inj: "hex_digits k m = hex_digits k n \<Longrightarrow> m < 16 ^ k \<Longrightarrow> n < 16 ^ k \<Longrightarrow> m = n"
proof (induction k arbitrary: m n)
  case (Suc k)
  from Suc.prems have "hex_digits k (m div 16) = hex_digits k (n div 16)" "m mod 16 = n mod 16"
    by (auto intro: hex_digit_inj)
  moreover from this(1) Suc.prems have "m div 16 = n div 16"
    by (intro Suc.IH) (simp_all add: less_mult_imp_div_less mult.commute)
  ultimately show ?case by (metis div_mult_mod_eq)
qed simp

lemma hex_digits_set: "set (hex_digits k n) \<subseteq> set ''0123456789abcdef''"
proof -
  have "hex_digit (d mod 16) \<in> set ''0123456789abcdef''" for d
    unfolding hex_digit_def by (rule nth_mem) simp
  then show ?thesis by (induction k arbitrary: n) auto
qed

lemma u64_sixteen_digits: "unat (i :: u64) < 16 ^ 16"
proof -
  have "unat i < 2 ^ LENGTH(64)" by (rule unsigned_less)
  also have "(2 :: nat) ^ LENGTH(64) = 16 ^ 16" by simp
  finally show ?thesis .
qed

lemma template_name_inj: "template_name i = template_name j \<longleftrightarrow> i = j"
proof
  assume "template_name i = template_name j"
  then have "hex_digits 16 (unat i) = hex_digits 16 (unat j)" by (simp add: template_name_def)
  then have "unat i = unat j" by (rule hex_digits_inj [OF _ u64_sixteen_digits u64_sixteen_digits])
  then show "i = j" by (simp add: word_unat_eq_iff)
qed simp

lemma length_template_name [simp]: "length (template_name i) = 19"
  by (simp add: template_name_def)

lemma template_name_chars: "\<forall>c \<in> set (template_name i). plain c \<and> (of_char c :: nat) < 128"
proof -
  have ok: "list_all (\<lambda>c. plain c \<and> (of_char c :: nat) < 128) ''pgt0123456789abcdef''"
    unfolding plain_def by code_simp
  have "set (template_name i) = set ''pgt'' \<union> set (hex_digits 16 (unat i))"
    unfolding template_name_def by (rule set_append)
  also have "\<dots> \<subseteq> set ''pgt'' \<union> set ''0123456789abcdef''" using hex_digits_set by (rule Un_mono [OF subset_refl])
  also have "\<dots> = set ''pgt0123456789abcdef''" unfolding set_append [symmetric] by (simp only: append.simps)
  finally show ?thesis using ok unfolding list_all_iff by blast
qed

text \<open>Names of a fixed length are no proper prefixes of each other.\<close>

lemma template_prefix:
  "template_name i @ c # rest = template_name j @ suffix \<Longrightarrow> i = j"
  by (metis append_eq_append_conv length_template_name template_name_inj)

lemma container_config_Inr:
  "pg_container_config env i = (Inr config, i', sent) \<Longrightarrow> pgtest_pg_database config = template_name i \<and> i' = i + 1"
  by (auto simp: pg_container_config_def Let_def split: option.splits sum.splits if_splits)

lemma container_config_counter: "fst (snd (pg_container_config env i)) = i \<or> fst (snd (pg_container_config env i)) = i + 1"
  by (auto simp: pg_container_config_def Let_def split: option.splits sum.splits)

text \<open>The counter never gives a number twice before it wraps.\<close>

lemma container_configs_numbers:
  "\<exists>ks. map pgtest_pg_database (container_configs envs i) = map (\<lambda>k. template_name (i + of_nat k)) ks \<and>
     sorted_wrt (<) ks \<and> set ks \<subseteq> {..<length envs}"
proof (induction envs arbitrary: i)
  case (Cons env envs)
  obtain r i' sent where c: "pg_container_config env i = (r, i', sent)" by (cases "pg_container_config env i")
  obtain ks where ks: "map pgtest_pg_database (container_configs envs i') = map (\<lambda>k. template_name (i' + of_nat k)) ks"
    "sorted_wrt (<) ks" "set ks \<subseteq> {..<length envs}" using Cons.IH by blast
  have later: "map (\<lambda>k. template_name (i + 1 + of_nat k)) ks = map (\<lambda>k. template_name (i + of_nat k)) (map Suc ks)"
    by (simp add: ac_simps)
  have suc: "sorted_wrt (<) (map Suc ks)" "set (map Suc ks) \<subseteq> {..<length (env # envs)}"
    using ks(2,3) by (auto simp: sorted_wrt_map)
  show ?case
  proof (cases r)
    case (Inl p)
    then have all: "container_configs (env # envs) i = container_configs envs i'" by (simp add: c)
    consider "i' = i" | "i' = i + 1" using container_config_counter [of env i] c by auto
    then show ?thesis
    proof cases
      case 1
      with ks all show ?thesis by (intro exI [of _ ks]) auto
    next
      case 2
      with ks(1) later suc all show ?thesis by (intro exI [of _ "map Suc ks"]) simp
    qed
  next
    case (Inr config)
    with c have "pgtest_pg_database config = template_name i" "i' = i + 1" using container_config_Inr by blast+
    with ks(1) later suc Inr c show ?thesis by (intro exI [of _ "0 # map Suc ks"]) auto
  qed
qed simp

lemma container_configs_distinct:
  assumes "length envs \<le> 2 ^ 64"
  shows "distinct (map pgtest_pg_database (container_configs envs i))"
proof -
  obtain ks where ks: "map pgtest_pg_database (container_configs envs i) = map (\<lambda>k. template_name (i + of_nat k)) ks"
    "sorted_wrt (<) ks" "set ks \<subseteq> {..<length envs}" using container_configs_numbers by blast
  have "(of_nat k :: u64) = of_nat k' \<Longrightarrow> k = k'" if "k < 2 ^ 64" "k' < 2 ^ 64" for k k'
    using that by (simp add: word_of_nat_eq_iff take_bit_nat_eq_self_iff [THEN iffD2])
  moreover have "k < 2 ^ 64" if "k \<in> set ks" for k using ks(3) assms that by (meson lessThan_iff less_le_trans subsetD)
  ultimately have "inj_on (\<lambda>k. template_name (i + of_nat k)) (set ks)"
    by (simp add: inj_on_def template_name_inj)
  with ks(1,2) show ?thesis by (simp add: distinct_map strict_sorted_iff)
qed

text \<open>
  C29: the managers of a test process keep apart. Each configuration that \<open>pg_container_config\<close> gives
  out, up to \<open>2^64\<close> in all, names a template of its own; and on a server with ASCII database names, the
  documented \<open>LIKE\<close> and drops that succeed, the start-up cleanup of the manager of one of them drops neither the template it was created from, nor the template of another manager,
  nor any database that another manager generates.
\<close>

theorem test_managers_isolated:
  assumes "like_spec like" "\<forall>d \<in> set dbs. ascii d" "\<And>n. execute (drop_query n) = Inr ()"
    and "length envs \<le> 2 ^ 64" "a < length (container_configs envs i)" "b < length (container_configs envs i)" "a \<noteq> b"
    and "name (template_database_name m) = pgtest_pg_database (container_configs envs i ! a)"
  shows "\<exists>dropped. drop_ddl_templates_like m (Inr ()) (\<lambda>pat. Inr (map Inr (filter (like pat) dbs))) execute
             = (Inr (), dropped) \<and>
           ''pgtest'' \<notin> set dropped \<and>
           pgtest_pg_database (container_configs envs i ! b) \<notin> set dropped \<and>
           generate_database_name draw (PostgresDatabaseName_new draw' (pgtest_pg_database (container_configs envs i ! b)))
             \<notin> set dropped"
proof -
  let ?db = "\<lambda>k. pgtest_pg_database (container_configs envs i ! k)"
  obtain ks where ks: "map pgtest_pg_database (container_configs envs i) = map (\<lambda>k. template_name (i + of_nat k)) ks"
    using container_configs_numbers by blast
  then have len: "length (container_configs envs i) = length ks" by (metis length_map)
  have db: "\<exists>n. ?db k = template_name n" if "k < length (container_configs envs i)" for k
    using arg_cong [OF ks, of "\<lambda>l. l ! k"] that len by auto
  obtain n n' where n: "?db a = template_name n" "?db b = template_name n'" using db assms(5,6) by blast
  have "?db a \<noteq> ?db b"
    using container_configs_distinct [OF assms(4), of i] assms(5-7) by (metis nth_eq_iff_index_eq nth_map length_map)
  with n have "n \<noteq> n'" by auto
  have chars: "\<forall>c \<in> set (name (template_database_name m)). plain c"
    using template_name_chars [of n] by (simp add: assms(8) n(1))
  obtain dropped where run: "drop_ddl_templates_like m (Inr ()) (\<lambda>pat. Inr (map Inr (filter (like pat) dbs))) execute
      = (Inr (), dropped)"
    and scope: "set dropped = {d \<in> set dbs. \<exists>c rest. d = template_name n @ c # rest}"
    using cleanup_scope [of like dbs m execute] assms(1-3) chars unfolding assms(8) n(1) by blast
  have clear: "template_name n' @ suffix \<notin> set dropped" for suffix
    using template_prefix [of n _ _ n' suffix] \<open>n \<noteq> n'\<close> unfolding scope by auto
  have "''pgtest'' \<noteq> template_name n @ c # rest" for c rest
    by (rule notI, drule arg_cong [of _ _ length]) simp
  then have "''pgtest'' \<notin> set dropped" unfolding scope by blast
  moreover have "?db b \<notin> set dropped" using clear [of "[]"] by (simp add: n(2))
  moreover have "generate_database_name draw (PostgresDatabaseName_new draw' (?db b)) = template_name n' @ ''_'' @ generate_id draw"
    by (simp add: n(2) generate_database_name_def PostgresDatabaseName_new_def truncate_name_def MAX_PREFIX_LEN_def
        GENERATED_ID_LEN_def)
  then have "generate_database_name draw (PostgresDatabaseName_new draw' (?db b)) \<notin> set dropped"
    using clear [of "''_'' @ generate_id draw"] by simp
  ultimately show ?thesis using run by blast
qed

definition running_env :: container_env where
  "running_env = \<lparr>shared_container = Some \<lparr>get_host = Some ''localhost'', get_host_port_ipv4 = (\<lambda>p. Some p)\<rparr>,
     connects = (\<lambda>c. True), executes = (\<lambda>q. True), closes = True\<rparr>"

theorem test_managers_isolated_witness:
  "\<exists>dropped. drop_ddl_templates_like
       (calm_manager\<lparr>template_database_name := PostgresDatabaseName_new (\<lambda>j. 0) (template_name 0)\<rparr>)
       (Inr ()) (\<lambda>pat. Inr (map Inr (filter (sql_like pat) [template_name 0, template_name 1])))
       (\<lambda>q. Inr () :: string + unit) = (Inr (), dropped) \<and> template_name 1 \<notin> set dropped"
proof -
  let ?cs = "container_configs [running_env, running_env] 0"
  have cs: "map pgtest_pg_database ?cs = [template_name 0, template_name 1]"
    by (simp add: pg_container_config_def running_env_def PostgresConfig_from_def Let_def)
  then have len: "length ?cs = 2" by (metis length_map length_Cons list.size(3) numeral_2_eq_2)
  have db: "pgtest_pg_database (?cs ! 0) = template_name 0" "pgtest_pg_database (?cs ! 1) = template_name 1"
    using arg_cong [OF cs, of "\<lambda>l. l ! 0"] arg_cong [OF cs, of "\<lambda>l. l ! 1"] len by simp_all
  have "\<forall>d \<in> set [template_name 0, template_name 1]. ascii d"
    using template_name_chars by (auto simp: ascii_def)
  then show ?thesis
    using test_managers_isolated [of sql_like "[template_name 0, template_name 1]" "\<lambda>q. Inr () :: string + unit"
        "[running_env, running_env]" 0 0 1
        "calm_manager\<lparr>template_database_name := PostgresDatabaseName_new (\<lambda>j. 0) (template_name 0)\<rparr>"]
      like_spec_sql_like
    by (auto simp: len db db(2) [unfolded One_nat_def] PostgresDatabaseName_new_def simp del: container_configs.simps filter.simps)
qed

end
