(* ===== verification/Sql_Profile.thy ===== *)
theory Sql_Profile
  imports Postgres_Manager
begin

text \<open>
  Profiling of the statements of the PostgreSQL client
  (crates/pgtest-database-operations/src/manager/sql_profile.rs): with the feature \<open>hotpath\<close> every
  completed query emits one event with a label and its outcome, without it nothing is recorded. The
  clock and the tracing subscriber are parameters.
\<close>

section \<open>Definitions\<close>

definition LIST_DATABASES :: string where
  "LIST_DATABASES = ''SELECT datname FROM pg_database WHERE datname LIKE $1''"

definition SERVER_VERSION :: string where
  "SERVER_VERSION = ''SELECT current_setting('' @ [CHR 0x27] @ ''server_version_num'' @ [CHR 0x27] @ '')::int8''"

definition CREATE_DATABASE :: string where
  "CREATE_DATABASE = ''CREATE DATABASE '' @ [DQUOTE] @ ''<database>'' @ [DQUOTE] @ '' TEMPLATE '' @ [DQUOTE] @ ''<template>'' @ [DQUOTE]"

definition CREATE_DATABASE_FILE_COPY :: string where
  "CREATE_DATABASE_FILE_COPY =
     ''CREATE DATABASE '' @ [DQUOTE] @ ''<database>'' @ [DQUOTE] @ '' TEMPLATE '' @ [DQUOTE] @ ''<template>'' @ [DQUOTE] @ '' STRATEGY=FILE_COPY''"

definition DROP_DATABASE :: string where
  "DROP_DATABASE = ''DROP DATABASE IF EXISTS '' @ [DQUOTE] @ ''<database>'' @ [DQUOTE] @ '' WITH (FORCE)''"

record 'd profile_event =
  db_statement :: string
  db_system :: string
  db_driver :: string
  elapsed_secs :: 'd
  success :: bool
  sqlstate :: string

text \<open>\<open>code\<close> is the state of an error, if the server gave one; the event goes out after the query.\<close>

definition profiled_query ::
  "bool \<Rightarrow> ('e \<Rightarrow> string option) \<Rightarrow> 'd \<Rightarrow> string \<Rightarrow> 'e + 'a \<Rightarrow> ('e + 'a) \<times> 'd profile_event list" where
  "profiled_query hotpath code elapsed statement result =
     (if hotpath
      then (result, [\<lparr>db_statement = statement, db_system = ''postgresql'', db_driver = ''tokio-postgres'',
              elapsed_secs = elapsed, success = \<not> isl result,
              sqlstate = (case result of Inr x \<Rightarrow> [] | Inl e \<Rightarrow> (case code e of None \<Rightarrow> [] | Some c \<Rightarrow> c))\<rparr>])
      else (result, []))"

text \<open>The label that the client gives to a creation.\<close>

definition create_label :: "PostgresManager \<Rightarrow> string" where
  "create_label m = (if version m \<ge> 15 then CREATE_DATABASE_FILE_COPY else CREATE_DATABASE)"

section \<open>Labels and results\<close>

text \<open>
  Profiling never changes what a query returns, and a label is the statement itself with placeholders
  for the names, so that it does not depend on the generated names.
\<close>

lemma profiled_result: "fst (profiled_query hotpath code elapsed statement result) = result"
  by (simp add: profiled_query_def)

lemma profiled_events:
  "map db_statement (snd (profiled_query hotpath code elapsed statement result)) = (if hotpath then [statement] else [])"
  by (simp add: profiled_query_def)

lemma placeholder_quoted:
  "quote_ident ''<database>'' = [DQUOTE] @ ''<database>'' @ [DQUOTE]"
  "quote_ident ''<template>'' = [DQUOTE] @ ''<template>'' @ [DQUOTE]"
  by (simp_all add: quote_ident_def DQUOTE_def)

lemma create_label_statement:
  "create_label m =
     create_query (m\<lparr>template_database_name := \<lparr>name = ''<template>'', prefix_template = p\<rparr>\<rparr>) ''<database>''"
  by (simp add: create_label_def create_query_def placeholder_quoted CREATE_DATABASE_def CREATE_DATABASE_FILE_COPY_def)

lemma drop_label_statement: "DROP_DATABASE = drop_query ''<database>''"
  by (simp add: DROP_DATABASE_def drop_query_def placeholder_quoted)

text \<open>A profiled client does what the client does, and every label is one of the five.\<close>

definition profiled_execute ::
  "bool \<Rightarrow> ('e \<Rightarrow> string option) \<Rightarrow> 'd \<Rightarrow> (string \<Rightarrow> 'e + unit) \<Rightarrow> string \<Rightarrow> string \<Rightarrow> ('e + unit) \<times> 'd profile_event list" where
  "profiled_execute hotpath code elapsed execute query statement =
     profiled_query hotpath code elapsed statement (execute query)"

lemma profiling_transparent:
  "drop_on_connection (\<lambda>q. fst (profiled_execute hotpath code elapsed execute q DROP_DATABASE)) n =
     drop_on_connection execute n"
  "create_on_connection m (\<lambda>q. fst (profiled_execute hotpath code elapsed execute q (create_label m))) n =
     create_on_connection m execute n"
  by (simp_all add: profiled_execute_def profiled_result)

end
