(* ===== verification/Listeners.thy ===== *)
theory Listeners
  imports Prelude "HOL-Library.Multiset"
begin

text \<open>
  The TCP and Unix listeners (crates/pgtest-wire/src/wire_listener.rs and unix_listener.rs): the
  accept loops, their shutdown, and the socket file of the Unix listener. The network is the list of
  connections that wait to be accepted; \<open>'io\<close> is the type of I/O errors. Connections are numbered.
\<close>

section \<open>Accept loops\<close>

text \<open>
  The accept task: what \<open>accept\<close> will return next, the sessions of its \<open>JoinSet\<close>, the sessions that
  have ended, and as a history the sessions that were joined.
\<close>

record 'io listener =
  backlog :: "('io + nat) list"
  pg_connection_sessions :: "nat list"
  ended :: "nat list"
  joined :: "nat list"

definition new_listener :: "'io listener" where
  "new_listener = \<lparr>backlog = [], pg_connection_sessions = [], ended = [], joined = []\<rparr>"

text \<open>The arms of the \<open>select\<close>: \<open>listener.accept\<close> and \<open>join_next\<close>.\<close>

definition accept_one :: "'io listener \<Rightarrow> 'io listener" where
  "accept_one l =
     (case backlog l of
        [] \<Rightarrow> l
      | Inl error # rest \<Rightarrow> l\<lparr>backlog := rest\<rparr>
      | Inr stream # rest \<Rightarrow>
          l\<lparr>backlog := rest, pg_connection_sessions := pg_connection_sessions l @ [stream]\<rparr>)"

definition joinable :: "'io listener \<Rightarrow> nat list" where
  "joinable l = filter (\<lambda>s. s \<in> set (ended l)) (pg_connection_sessions l)"

definition join_next :: "'io listener \<Rightarrow> 'io listener" where
  "join_next l =
     (case joinable l of
        [] \<Rightarrow> l
      | s # rest \<Rightarrow>
          l\<lparr>pg_connection_sessions := remove1 s (pg_connection_sessions l), joined := joined l @ [s]\<rparr>)"

text \<open>One turn of each loop while it is not stopped; the arms are polled in their order.\<close>

definition tcp_turn :: "'io listener \<Rightarrow> 'io listener" where
  "tcp_turn l = (if backlog l \<noteq> [] then accept_one l else join_next l)"

definition unix_turn :: "'io listener \<Rightarrow> 'io listener" where
  "unix_turn l = (if joinable l \<noteq> [] then join_next l else accept_one l)"

text \<open>What happens to a listener: connections arrive or fail, sessions end, and the loop turns.\<close>

datatype 'io listen_event = Arrives "'io + nat" | SessionEnds nat | Turn

fun listen :: "('io listener \<Rightarrow> 'io listener) \<Rightarrow> 'io listen_event list \<Rightarrow> 'io listener \<Rightarrow> 'io listener" where
  "listen turn [] l = l"
| "listen turn (Arrives c # evs) l = listen turn evs (l\<lparr>backlog := backlog l @ [c]\<rparr>)"
| "listen turn (SessionEnds s # evs) l = listen turn evs (l\<lparr>ended := s # ended l\<rparr>)"
| "listen turn (Turn # evs) l = listen turn evs (turn l)"

definition streams :: "('io + nat) list \<Rightarrow> nat list" where
  "streams cs = [s. Inr s \<leftarrow> cs]"

definition arrivals :: "'io listen_event list \<Rightarrow> nat list" where
  "arrivals evs = [s. Arrives (Inr s) \<leftarrow> evs]"

lemma streams_simps [simp]:
  "streams [] = []" "streams (Inl e # cs) = streams cs" "streams (Inr s # cs) = s # streams cs"
  "streams (cs @ ds) = streams cs @ streams ds"
  by (simp_all add: streams_def)

lemma arrivals_simps [simp]:
  "arrivals [] = []" "arrivals (Arrives (Inl e) # evs) = arrivals evs"
  "arrivals (Arrives (Inr s) # evs) = s # arrivals evs"
  "arrivals (SessionEnds s # evs) = arrivals evs" "arrivals (Turn # evs) = arrivals evs"
  by (simp_all add: arrivals_def)

text \<open>The connections a listener knows of, and that it has joined only ended sessions.\<close>

definition known :: "'io listener \<Rightarrow> nat multiset" where
  "known l = mset (streams (backlog l)) + mset (pg_connection_sessions l) + mset (joined l)"

definition joined_ended :: "'io listener \<Rightarrow> bool" where
  "joined_ended l \<longleftrightarrow> set (joined l) \<subseteq> set (ended l)"

lemma joinable_ConsD:
  "joinable l = s # rest \<Longrightarrow> s \<in> set (pg_connection_sessions l) \<and> s \<in> set (ended l)"
  unfolding joinable_def by (auto simp: filter_eq_Cons_iff)

lemma known_accept_one: "known (accept_one l) = known l"
  by (auto simp: accept_one_def known_def split: list.splits sum.splits)

lemma known_join_next: "known (join_next l) = known l"
  by (auto simp: join_next_def known_def dest: joinable_ConsD split: list.splits)

lemma joined_ended_turns:
  "joined_ended l \<Longrightarrow> joined_ended (accept_one l)" "joined_ended l \<Longrightarrow> joined_ended (join_next l)"
  by (auto simp: accept_one_def join_next_def joined_ended_def dest: joinable_ConsD split: list.splits sum.splits)

text \<open>
  The turns a listener needs at most to take every waiting connection: an accepted connection may
  end at once and be joined before the next one is accepted.
\<close>

definition work :: "'io listener \<Rightarrow> nat" where
  "work l = 2 * length (backlog l) + length (joinable l)"

lemma work_accept_one: "backlog l \<noteq> [] \<Longrightarrow> work (accept_one l) < work l"
  by (auto simp: accept_one_def work_def joinable_def split: list.splits sum.splits)

lemma work_join_next: "joinable l \<noteq> [] \<Longrightarrow> work (join_next l) < work l"
proof -
  assume "joinable l \<noteq> []"
  then obtain s rest where j: "joinable l = s # rest" by (cases "joinable l") auto
  then have "joinable (join_next l) = rest"
    by (simp add: join_next_def joinable_def filter_remove1)
  with j show ?thesis by (simp add: work_def join_next_def)
qed

text \<open>
  A loop whose turns accept or join, and that does one of them while a connection waits. Both
  listeners are such loops; they differ in which they prefer.
\<close>

locale accept_loop =
  fixes turn :: "'io listener \<Rightarrow> 'io listener"
  assumes turn_arms: "turn l = accept_one l \<or> turn l = join_next l"
    and turn_progress: "backlog l \<noteq> [] \<Longrightarrow> turn l = accept_one l \<or> joinable l \<noteq> [] \<and> turn l = join_next l"
begin

lemma known_turn: "known (turn l) = known l"
  using turn_arms [of l] by (auto simp: known_accept_one known_join_next)

lemma joined_ended_turn: "joined_ended l \<Longrightarrow> joined_ended (turn l)"
  using turn_arms [of l] by (auto simp: joined_ended_turns)

lemma listen_known: "known (listen turn evs l) = known l + mset (arrivals evs)"
proof (induction evs arbitrary: l)
  case (Cons ev evs)
  show ?case
  proof (cases ev)
    case (Arrives c)
    with Cons.IH show ?thesis by (cases c) (simp_all add: known_def)
  next
    case (SessionEnds s)
    with Cons.IH show ?thesis by (simp add: known_def)
  qed (simp add: Cons.IH known_turn)
qed simp

lemma listen_joined: "joined_ended l \<Longrightarrow> joined_ended (listen turn evs l)"
proof (induction evs arbitrary: l)
  case (Cons ev evs)
  then have "joined_ended (l\<lparr>backlog := b\<rparr>)" "joined_ended (l\<lparr>ended := x # ended l\<rparr>)" "joined_ended (turn l)" for b x
    by (auto simp: joined_ended_def intro: joined_ended_turn [unfolded joined_ended_def, THEN subsetD])
  then show ?case by (cases ev) (simp_all add: Cons.IH)
qed simp

lemma turn_work:
  assumes "backlog l \<noteq> []"
  shows "work (turn l) < work l"
  using turn_progress [OF assms] work_accept_one [OF assms] work_join_next [of l] by auto

lemma turn_idle: "backlog l = [] \<Longrightarrow> backlog (turn l) = []"
  using turn_arms [of l] by (auto simp: accept_one_def join_next_def split: list.splits)

lemma turns_empty_backlog: "work l \<le> n \<Longrightarrow> backlog ((turn ^^ n) l) = []"
proof (induction n arbitrary: l)
  case (Suc n)
  show ?case
  proof (cases "backlog l = []")
    case True
    have "backlog ((turn ^^ m) l) = []" for m by (induction m) (simp_all add: True turn_idle)
    then show ?thesis .
  next
    case False
    with Suc.prems have "work (turn l) \<le> n" using turn_work [OF False] by simp
    then show ?thesis by (simp add: funpow_Suc_right Suc.IH del: funpow.simps)
  qed
qed (simp add: work_def)

end

interpretation tcp: accept_loop tcp_turn
  by unfold_locales (auto simp: tcp_turn_def)

interpretation unix: accept_loop unix_turn
  by unfold_locales (auto simp: unix_turn_def)

section \<open>Listener handles\<close>

text \<open>
  The accept task, and how many clones of the manager it and its sessions own. Stopping the task
  aborts and joins every session (\<open>JoinSet::shutdown\<close>); aborting it drops the set, which aborts the
  sessions without waiting for them.
\<close>

datatype 'io listener_task = Accepting "'io listener" | Aborted "'io listener" | Ended

definition sessions_running :: "'io listener \<Rightarrow> nat list" where
  "sessions_running l = filter (\<lambda>s. s \<notin> set (ended l)) (pg_connection_sessions l)"

definition manager_clones :: "'io listener_task \<Rightarrow> nat" where
  "manager_clones t =
     (case t of
        Accepting l \<Rightarrow> 1 + length (sessions_running l)
      | Aborted l \<Rightarrow> length (sessions_running l)
      | Ended \<Rightarrow> 0)"

text \<open>Waiting for the task: it ends once it is stopped, and would wait for ever otherwise.\<close>

definition await_task :: "bool \<Rightarrow> 'io listener_task \<Rightarrow> 'io listener_task option" where
  "await_task stopped t =
     (case t of Accepting l \<Rightarrow> if stopped then Some Ended else None | Aborted l \<Rightarrow> Some t | Ended \<Rightarrow> Some t)"

record ('io, 'a) TcpWireListener =
  tcp_task :: "'io listener_task option"
  tcp_stop :: bool
  tcp_local_addr :: 'a

definition TcpWireListener_shutdown :: "('io, 'a) TcpWireListener \<Rightarrow> 'io listener_task option" where
  "TcpWireListener_shutdown l =
     (let l1 = l\<lparr>tcp_stop := True\<rparr> in
      case tcp_task l1 of None \<Rightarrow> Some Ended | Some t \<Rightarrow> await_task (tcp_stop l1) t)"

text \<open>The task goes on after \<open>detach\<close>; dropping a handle that still has its task aborts it.\<close>

definition TcpWireListener_detach :: "('io, 'a) TcpWireListener \<Rightarrow> 'a \<times> 'io listener_task option" where
  "TcpWireListener_detach l = (tcp_local_addr l, tcp_task l)"

definition abort_task :: "'io listener_task \<Rightarrow> 'io listener_task" where
  "abort_task t = (case t of Accepting l \<Rightarrow> Aborted l | Aborted l \<Rightarrow> t | Ended \<Rightarrow> t)"

definition TcpWireListener_drop :: "('io, 'a) TcpWireListener \<Rightarrow> bool \<times> 'io listener_task option" where
  "TcpWireListener_drop l =
     (case tcp_task l of None \<Rightarrow> (tcp_stop l, None) | Some t \<Rightarrow> (True, Some (abort_task t)))"

record 'io UnixWireListener =
  unix_task :: "'io listener_task option"
  unix_stop :: "unit option"
  unix_path :: string

definition UnixWireListener_shutdown :: "'io UnixWireListener \<Rightarrow> 'io listener_task option" where
  "UnixWireListener_shutdown l =
     (case unix_task l of None \<Rightarrow> Some Ended | Some t \<Rightarrow> await_task (unix_stop l \<noteq> None) t)"

definition UnixWireListener_drop :: "'io UnixWireListener \<Rightarrow> 'io listener_task option" where
  "UnixWireListener_drop l = map_option abort_task (unix_task l)"

text \<open>Opening the listeners; the task is spawned with its own clone of the manager.\<close>

definition run_with_handle ::
  "('a \<Rightarrow> 'io + 'a) \<Rightarrow> 'a \<Rightarrow> 'io + ('io, 'a) TcpWireListener" where
  "run_with_handle bind_tcp address =
     bind_res (bind_tcp address) (\<lambda>local_address.
       Inr \<lparr>tcp_task = Some (Accepting new_listener), tcp_stop = False, tcp_local_addr = local_address\<rparr>)"

definition run :: "('a \<Rightarrow> 'io + 'a) \<Rightarrow> 'a \<Rightarrow> 'io + ('a \<times> 'io listener_task option)" where
  "run bind_tcp address = bind_res (run_with_handle bind_tcp address) (\<lambda>l. Inr (TcpWireListener_detach l))"

section \<open>The socket file\<close>

text \<open>The file system as far as the listener sees it: what kind of node a path has, and which.\<close>

record inode =
  is_socket :: bool
  dev :: u64
  ino :: u64

type_synonym fs = "string \<rightharpoonup> inode"

record SocketFile =
  socket_path :: string
  device :: u64
  inode_number :: u64

text \<open>
  What the system answers: the canonical directory, the node that a successful bind creates, whether
  the metadata can be read and the file removed. A bind fails on a path that exists.
\<close>

record 'io socket_env =
  canonicalize :: "string \<Rightarrow> 'io + string"
  address_in_use :: 'io
  new_socket :: "string \<Rightarrow> 'io + (u64 \<times> u64)"
  metadata_error :: "'io option"
  remove_works :: bool

definition join_path :: "string \<Rightarrow> string \<Rightarrow> string" where
  "join_path directory file =
     directory @ (if directory = [] \<or> last directory = CHR ''/'' then [] else ''/'') @ file"

definition bind_path :: "'io socket_env \<Rightarrow> string \<Rightarrow> fs \<Rightarrow> ('io + unit) \<times> fs" where
  "bind_path env path fs =
     (if fs path \<noteq> None then (Inl (address_in_use env), fs)
      else case new_socket env path of
             Inl e \<Rightarrow> (Inl e, fs)
           | Inr (d, i) \<Rightarrow> (Inr (), fs(path \<mapsto> \<lparr>is_socket = True, dev = d, ino = i\<rparr>)))"

definition symlink_metadata :: "'io socket_env \<Rightarrow> string \<Rightarrow> fs \<Rightarrow> 'io option + inode" where
  "symlink_metadata env path fs =
     (case metadata_error env of
        Some e \<Rightarrow> Inl (Some e)
      | None \<Rightarrow> (case fs path of None \<Rightarrow> Inl None | Some node \<Rightarrow> Inr node))"

definition BoundUnixListener_bind ::
  "'io socket_env \<Rightarrow> string \<Rightarrow> u16 \<Rightarrow> fs \<Rightarrow> ('io option + SocketFile) \<times> fs" where
  "BoundUnixListener_bind env directory port fs =
     (case canonicalize env directory of
        Inl e \<Rightarrow> (Inl (Some e), fs)
      | Inr d \<Rightarrow>
          (let path = join_path d (''.s.PGSQL.'' @ show_nat (unat port)) in
           case bind_path env path fs of
             (Inl e, fs1) \<Rightarrow> (Inl (Some e), fs1)
           | (Inr u, fs1) \<Rightarrow>
               (case symlink_metadata env path fs1 of
                  Inl e \<Rightarrow> (Inl e, fs1)
                | Inr metadata \<Rightarrow>
                    (Inr \<lparr>socket_path = path, device = dev metadata, inode_number = ino metadata\<rparr>, fs1))))"

definition SocketFile_drop :: "'io socket_env \<Rightarrow> SocketFile \<Rightarrow> fs \<Rightarrow> fs" where
  "SocketFile_drop env s fs =
     (case symlink_metadata env (socket_path s) fs of
        Inl e \<Rightarrow> fs
      | Inr metadata \<Rightarrow>
          if is_socket metadata \<and> dev metadata = device s \<and> ino metadata = inode_number s \<and> remove_works env
          then fs(socket_path s := None) else fs)"

definition run_unix_on_port ::
  "'io socket_env \<Rightarrow> string \<Rightarrow> u16 \<Rightarrow> fs \<Rightarrow> ('io option + ('io UnixWireListener \<times> SocketFile)) \<times> fs" where
  "run_unix_on_port env directory port fs =
     (case BoundUnixListener_bind env directory port fs of
        (Inl e, fs1) \<Rightarrow> (Inl e, fs1)
      | (Inr socket, fs1) \<Rightarrow>
          (Inr (\<lparr>unix_task = Some (Accepting new_listener), unix_stop = Some (),
                 unix_path = socket_path socket\<rparr>, socket), fs1))"

definition DEFAULT_WIRE_PORT :: u16 where
  "DEFAULT_WIRE_PORT = 6432"

definition run_unix ::
  "'io socket_env \<Rightarrow> string \<Rightarrow> fs \<Rightarrow> ('io option + ('io UnixWireListener \<times> SocketFile)) \<times> fs" where
  "run_unix env directory fs = run_unix_on_port env directory DEFAULT_WIRE_PORT fs"

section \<open>Properties\<close>

lemma new_listener_facts: "known new_listener = {#}" "joined_ended new_listener"
  by (simp_all add: new_listener_def known_def joined_ended_def)

text \<open>
  C37: neither accept loop loses or invents a connection: at any time every connection that arrived
  waits in the backlog, is a session of the task or was joined after it had ended, and each of them
  only once; and from any state, as many turns as there are sessions to join and twice as many as
  there are waiting connections empty the backlog, although the Unix loop prefers to join sessions.
\<close>

theorem connections_served:
  "known (listen tcp_turn evs new_listener) = mset (arrivals evs) \<and>
   known (listen unix_turn evs new_listener) = mset (arrivals evs) \<and>
   set (joined (listen tcp_turn evs new_listener)) \<subseteq> set (ended (listen tcp_turn evs new_listener)) \<and>
   set (joined (listen unix_turn evs new_listener)) \<subseteq> set (ended (listen unix_turn evs new_listener)) \<and>
   backlog ((tcp_turn ^^ (2 * length (backlog l) + length (joinable l))) l) = [] \<and>
   backlog ((unix_turn ^^ (2 * length (backlog l) + length (joinable l))) l) = []"
  using tcp.listen_known [of evs new_listener] unix.listen_known [of evs new_listener]
    tcp.listen_joined [OF new_listener_facts(2), of evs] unix.listen_joined [OF new_listener_facts(2), of evs]
    tcp.turns_empty_backlog [of l, OF order_refl] unix.turns_empty_backlog [of l, OF order_refl]
  by (simp add: new_listener_facts joined_ended_def work_def)

lemma BoundUnixListener_bind_Inr:
  assumes "BoundUnixListener_bind env directory port fs = (Inr s, fs1)"
  shows "fs (socket_path s) = None"
    "fs1 = fs(socket_path s \<mapsto> \<lparr>is_socket = True, dev = device s, ino = inode_number s\<rparr>)"
    "metadata_error env = None"
  using assms
  by (auto simp: BoundUnixListener_bind_def bind_path_def symlink_metadata_def Let_def
      split: sum.splits if_splits option.splits)

text \<open>
  C38: the socket file is never taken from somebody else: a listener opens only on a path that did
  not exist, and changes no other path; dropping it removes the path when it still is the socket it
  created, and otherwise, in whatever state the file system is by then, leaves every file as it is.
\<close>

theorem socket_file_owned:
  assumes "BoundUnixListener_bind env directory port fs = (Inr s, fs1)"
  shows "fs (socket_path s) = None \<and> (\<forall>p. p \<noteq> socket_path s \<longrightarrow> fs1 p = fs p) \<and>
    (remove_works env \<longrightarrow> SocketFile_drop env s fs1 = fs) \<and>
    (\<forall>fs2. fs2 (socket_path s) \<noteq> fs1 (socket_path s) \<longrightarrow> SocketFile_drop env s fs2 = fs2) \<and>
    (\<forall>fs2 p. p \<noteq> socket_path s \<longrightarrow> SocketFile_drop env s fs2 p = fs2 p)"
proof (intro conjI allI impI)
  note b = BoundUnixListener_bind_Inr [OF assms]
  show "fs (socket_path s) = None" by (rule b(1))
  show "fs1 p = fs p" if "p \<noteq> socket_path s" for p using that by (simp add: b(2))
  show "SocketFile_drop env s fs1 = fs" if "remove_works env"
    using that b by (auto simp: SocketFile_drop_def symlink_metadata_def fun_upd_idem)
  show "SocketFile_drop env s fs2 = fs2" if "fs2 (socket_path s) \<noteq> fs1 (socket_path s)" for fs2
    using that by (auto simp: SocketFile_drop_def symlink_metadata_def b(2) split: sum.splits option.splits)
  show "SocketFile_drop env s fs2 p = fs2 p" if "p \<noteq> socket_path s" for fs2 p
    using that by (auto simp: SocketFile_drop_def split: sum.splits)
qed

theorem socket_file_owned_witness:
  "\<exists>env :: unit socket_env. \<exists>s fs1. BoundUnixListener_bind env ''/run'' 7 Map.empty = (Inr s, fs1) \<and>
     socket_path s = ''/run/.s.PGSQL.7'' \<and> SocketFile_drop env s fs1 = Map.empty \<and>
     SocketFile_drop env s [''/run/.s.PGSQL.7'' \<mapsto> \<lparr>is_socket = True, dev = 1, ino = 9\<rparr>] =
       [''/run/.s.PGSQL.7'' \<mapsto> \<lparr>is_socket = True, dev = 1, ino = 9\<rparr>]"
proof -
  define env :: "unit socket_env" where
    "env = \<lparr>canonicalize = Inr, address_in_use = (), new_socket = (\<lambda>p. Inr (1, 7)), metadata_error = None,
       remove_works = True\<rparr>"
  define s where "s = \<lparr>socket_path = ''/run/.s.PGSQL.7'', device = 1, inode_number = 7\<rparr>"
  define fs1 where "fs1 = [socket_path s \<mapsto> \<lparr>is_socket = True, dev = 1, ino = 7\<rparr>]"
  have "show_nat 7 = ''7''" by (simp add: show_nat.simps char_of_def bit_Suc_0_iff)
  then have b: "BoundUnixListener_bind env ''/run'' 7 Map.empty = (Inr s, fs1)"
    by (simp add: BoundUnixListener_bind_def bind_path_def symlink_metadata_def join_path_def env_def s_def
        fs1_def Let_def)
  from socket_file_owned [OF b] have "SocketFile_drop env s fs1 = Map.empty"
    and "fs2 (socket_path s) \<noteq> fs1 (socket_path s) \<Longrightarrow> SocketFile_drop env s fs2 = fs2" for fs2
    by (simp_all add: env_def)
  with b show ?thesis
    by (intro exI [of _ env] exI [of _ s] exI [of _ fs1]) (simp add: fs1_def s_def)
qed

end
