(* ===== verification/Cli.thy ===== *)
theory Cli
  imports Startup Listeners
begin

text \<open>
  The executables (apps/cli: args.rs, server.rs, main.rs, version.rs, and apps/server: main.rs): the
  options with their guards, the configurations they give, and the life of the server from the start
  of the engine to its shutdown.
\<close>

section \<open>Options\<close>

datatype IpAddr = V4 u32 | V6 "128 word"

record ServeOptions =
  pg_host :: string
  pg_port :: u16
  pg_user :: string
  pg_database :: string
  listen_addr :: "IpAddr option"
  listen_port :: "u16 option"
  unix_socket_dir :: "string option"
  unix_socket_port :: "u16 option"
  creation_pool_connection :: u32
  cleanup_pool_connection :: u32
  pool_initial_size :: u16
  pool_starvation_threshold :: u16
  pool_grow_batch_size :: u16
  opt_lease_claim_timeout_ms :: u64
  opt_max_lease_records :: nat
  log_filter :: string

datatype Command = Serve ServeOptions | Version

text \<open>The arguments as bpaf has read them, each converted to its type when it is present.\<close>

record RawOptions =
  raw_pg_host :: "string option"
  raw_pg_port :: "u16 option"
  raw_pg_user :: "string option"
  raw_pg_database :: "string option"
  raw_listen_addr :: "IpAddr option"
  raw_listen_port :: "u16 option"
  raw_unix_socket_dir :: "string option"
  raw_unix_socket_port :: "u16 option"
  raw_creation_pool :: "u32 option"
  raw_cleanup_pool :: "u32 option"
  raw_initial_size :: "u16 option"
  raw_starvation_threshold :: "u16 option"
  raw_grow_batch_size :: "u16 option"
  raw_lease_claim_timeout_ms :: "u64 option"
  raw_max_lease_records :: "nat option"
  raw_log_filter :: "string option"

definition positive_port :: "u16 \<Rightarrow> bool" where
  "positive_port v \<longleftrightarrow> 0 < v"

definition positive_pool :: "u32 \<Rightarrow> bool" where
  "positive_pool v \<longleftrightarrow> 0 < v"

definition positive_capacity :: "nat \<Rightarrow> bool" where
  "positive_capacity v \<longleftrightarrow> 0 < v"

text \<open>
  A required, a defaulted and an optional argument with a guard. A guard is applied to a value that
  is present; a default replaces only a missing one. Nothing is returned when the command line is
  rejected; which of several messages is printed is up to bpaf.
\<close>

definition required :: "('a \<Rightarrow> bool) \<Rightarrow> 'a option \<Rightarrow> 'a option" where
  "required guard v = (case v of None \<Rightarrow> None | Some x \<Rightarrow> if guard x then Some x else None)"

definition fallback :: "'a \<Rightarrow> ('a \<Rightarrow> bool) \<Rightarrow> 'a option \<Rightarrow> 'a option" where
  "fallback d guard v = (case v of None \<Rightarrow> Some d | Some x \<Rightarrow> if guard x then Some x else None)"

definition optional :: "('a \<Rightarrow> bool) \<Rightarrow> 'a option \<Rightarrow> 'a option option" where
  "optional guard v = (case v of None \<Rightarrow> Some None | Some x \<Rightarrow> if guard x then Some (Some x) else None)"

definition parse_serve_options :: "RawOptions \<Rightarrow> ServeOptions option" where
  "parse_serve_options r =
     Option.bind (required (\<lambda>v. v \<noteq> []) (raw_pg_host r)) (\<lambda>host.
     Option.bind (required positive_port (raw_pg_port r)) (\<lambda>port.
     Option.bind (required (\<lambda>v. v \<noteq> []) (raw_pg_user r)) (\<lambda>user.
     Option.bind (required (\<lambda>v. v \<noteq> []) (raw_pg_database r)) (\<lambda>database.
     Option.bind (optional positive_port (raw_unix_socket_port r)) (\<lambda>unix_port.
     Option.bind (fallback 10 positive_pool (raw_creation_pool r)) (\<lambda>creation.
     Option.bind (fallback 5 positive_pool (raw_cleanup_pool r)) (\<lambda>cleanup.
     Option.bind (fallback 16 (\<lambda>v. True) (raw_initial_size r)) (\<lambda>initial.
     Option.bind (fallback 8 (\<lambda>v. True) (raw_starvation_threshold r)) (\<lambda>threshold.
     Option.bind (fallback 16 (\<lambda>v. True) (raw_grow_batch_size r)) (\<lambda>batch.
     Option.bind (fallback 30000 (\<lambda>v. True) (raw_lease_claim_timeout_ms r)) (\<lambda>timeout.
     Option.bind (fallback 100000 positive_capacity (raw_max_lease_records r)) (\<lambda>records.
     Option.bind (fallback ''info'' (\<lambda>v. True) (raw_log_filter r)) (\<lambda>filter.
     Some \<lparr>pg_host = host, pg_port = port, pg_user = user, pg_database = database,
           listen_addr = raw_listen_addr r, listen_port = raw_listen_port r,
           unix_socket_dir = raw_unix_socket_dir r, unix_socket_port = unix_port,
           creation_pool_connection = creation, cleanup_pool_connection = cleanup,
           pool_initial_size = initial, pool_starvation_threshold = threshold,
           pool_grow_batch_size = batch, opt_lease_claim_timeout_ms = timeout,
           opt_max_lease_records = records, log_filter = filter\<rparr>)))))))))))))"

definition serve_options :: "RawOptions \<Rightarrow> ServeOptions option" where
  "serve_options r =
     Option.bind (parse_serve_options r) (\<lambda>options.
       if (listen_addr options \<noteq> None \<or> unix_socket_dir options \<noteq> None) \<and>
          (listen_port options = None \<or> listen_addr options \<noteq> None) \<and>
          (unix_socket_port options = None \<or> unix_socket_dir options \<noteq> None)
       then Some options else None)"

definition tcp_address :: "ServeOptions \<Rightarrow> (IpAddr \<times> u16) option" where
  "tcp_address options =
     map_option (\<lambda>address. (address, case listen_port options of None \<Rightarrow> 6432 | Some p \<Rightarrow> p)) (listen_addr options)"

text \<open>\<open>validate\<close> on a Unix platform; \<open>is_dir\<close> is the file system's answer.\<close>

definition validate :: "(string \<Rightarrow> bool) \<Rightarrow> ServeOptions \<Rightarrow> string + unit" where
  "validate is_dir options =
     (case unix_socket_dir options of
        None \<Rightarrow> Inr ()
      | Some directory \<Rightarrow>
          if is_dir directory then Inr () else Inl ''--unix-socket-dir must be an existing directory'')"

definition postgres_config :: "ServeOptions \<Rightarrow> PostgresConfig" where
  "postgres_config options =
     \<lparr>pgtest_pg_host = pg_host options, pgtest_pg_port = pg_port options, pgtest_pg_user = pg_user options,
      pgtest_pg_database = pg_database options,
      pgtest_pg_creation_pool_connection = creation_pool_connection options,
      pgtest_pg_cleanup_pool_connection = cleanup_pool_connection options\<rparr>"

definition engine_config :: "ServeOptions \<Rightarrow> WorkerEngineConfig" where
  "engine_config options =
     \<lparr>initial_slots = pool_initial_size options, starvation_threshold = pool_starvation_threshold options,
      grow_batch_size = pool_grow_batch_size options,
      lease_claim_timeout_ms = opt_lease_claim_timeout_ms options,
      max_lease_records = opt_max_lease_records options\<rparr>"

text \<open>An unset or empty build variable is shown as \<open>dev\<close>.\<close>

definition build_value :: "string option \<Rightarrow> string" where
  "build_value v = (case v of None \<Rightarrow> ''dev'' | Some x \<Rightarrow> if x = [] then ''dev'' else x)"

definition version_display :: "string option \<Rightarrow> string option \<Rightarrow> string" where
  "version_display ver commit = build_value ver @ '' (commit '' @ build_value commit @ '')''"

section \<open>The life of the server\<close>

datatype server_action =
    PrintVersion string
  | StartEngine
  | ListenTcp "IpAddr \<times> u16"
  | ListenUnix string
  | AwaitSignal
  | ShutdownTcp
  | ShutdownUnix
  | ShutdownEngine

datatype 'io server_error =
    InvalidOptions string
  | InvalidLogFilter
  | SignalsFailed 'io
  | StartFailed StartError
  | TcpListenerFailed 'io
  | UnixListenerFailed "'io option"
  | ListenersRetained

text \<open>
  What the server meets: whether its signal handlers can be installed, a signal during the start-up,
  the result of the start-up, the answers of the sockets and of the file system, and what happens on
  each listener until the signal.
\<close>

record 'io serve_env =
  signal_at_start :: bool
  signal_error :: "'io option"
  start :: "PostgresConfig \<Rightarrow> WorkerEngineConfig \<Rightarrow> StartError + WorkerEngineManager"
  bind_tcp :: "IpAddr \<times> u16 \<Rightarrow> 'io + (IpAddr \<times> u16)"
  sockets :: "'io socket_env"
  files :: fs
  tcp_events :: "'io listen_event list"
  unix_events :: "'io listen_event list"

text \<open>The task of a listener when the signal arrives.\<close>

definition task_after ::
  "('io listener \<Rightarrow> 'io listener) \<Rightarrow> 'io listen_event list \<Rightarrow> 'io listener_task \<Rightarrow> 'io listener_task" where
  "task_after turn evs t = (case t of Accepting l \<Rightarrow> Accepting (listen turn evs l) | _ \<Rightarrow> t)"

text \<open>
  The listeners are opened in order, the second only when the first works; what has been opened is
  kept for the shutdown. The strong count of the shared manager is one for the server and the clones
  that the listeners still own.
\<close>

definition open_listeners ::
  "'io serve_env \<Rightarrow> ServeOptions
     \<Rightarrow> ('io server_error + unit) \<times> server_action list \<times>
        ('io, IpAddr \<times> u16) TcpWireListener option \<times> 'io UnixWireListener option" where
  "open_listeners env options =
     (let tcp = (case tcp_address options of
                   None \<Rightarrow> Inr None
                 | Some address \<Rightarrow> bind_res (run_with_handle (bind_tcp env) address) (\<lambda>l. Inr (Some l)))
      in case tcp of
           Inl e \<Rightarrow> (Inl (TcpListenerFailed e), [], None, None)
         | Inr tcp_listener \<Rightarrow>
             (let opened = (case tcp_listener of None \<Rightarrow> [] | Some l \<Rightarrow> [ListenTcp (tcp_local_addr l)]) in
              case unix_socket_dir options of
                None \<Rightarrow> (Inr (), opened @ [AwaitSignal], tcp_listener, None)
              | Some directory \<Rightarrow>
                  (case fst (run_unix_on_port (sockets env) directory
                          (case unix_socket_port options of None \<Rightarrow> 6432 | Some p \<Rightarrow> p) (files env)) of
                     Inl e \<Rightarrow> (Inl (UnixListenerFailed e), opened, tcp_listener, None)
                   | Inr (l, socket) \<Rightarrow>
                       (Inr (), opened @ [ListenUnix (unix_path l), AwaitSignal], tcp_listener, Some l))))"

definition clones_left :: "'io listener_task option \<Rightarrow> nat" where
  "clones_left t = (case t of None \<Rightarrow> 0 | Some t \<Rightarrow> manager_clones t)"

text \<open>The result is \<^const>\<open>None\<close> when a listener never stops.\<close>

definition cli_serve ::
  "'io serve_env \<Rightarrow> ServeOptions \<Rightarrow> (('io server_error + unit) \<times> server_action list) option" where
  "cli_serve env options =
     (case signal_error env of
        Some e \<Rightarrow> Some (Inl (SignalsFailed e), [])
      | None \<Rightarrow>
      if signal_at_start env then Some (Inr (), [StartEngine])
      else case start env (postgres_config options) (engine_config options) of
        Inl e \<Rightarrow> Some (Inl (StartFailed e), [StartEngine])
      | Inr engine \<Rightarrow>
          (case open_listeners env options of
             (result, actions, tcp_listener, unix_listener) \<Rightarrow>
               Option.bind (case tcp_listener of
                   None \<Rightarrow> Some ([], None)
                 | Some l \<Rightarrow> map_option (\<lambda>t. ([ShutdownTcp], Some t))
                     (TcpWireListener_shutdown (l\<lparr>tcp_task := map_option (task_after tcp_turn (tcp_events env)) (tcp_task l)\<rparr>)))
                 (\<lambda>(tcp_stopped, tcp_left).
               Option.bind (case unix_listener of
                   None \<Rightarrow> Some ([], None)
                 | Some l \<Rightarrow> map_option (\<lambda>t. ([ShutdownUnix], Some t))
                     (UnixWireListener_shutdown (l\<lparr>unix_task := map_option (task_after unix_turn (unix_events env)) (unix_task l)\<rparr>)))
                 (\<lambda>(unix_stopped, unix_left).
               let done = [StartEngine] @ actions @ tcp_stopped @ unix_stopped in
               if 1 + clones_left tcp_left + clones_left unix_left \<noteq> 1
               then Some (Inl ListenersRetained, done)
               else Some (result, done @ [ShutdownEngine])))))"

text \<open>The command line: \<open>main\<close> of apps/cli; \<open>filter_ok\<close> says whether the log filter parses.\<close>

definition cli_main ::
  "(string \<Rightarrow> bool) \<Rightarrow> (string \<Rightarrow> bool) \<Rightarrow> string option \<Rightarrow> string option \<Rightarrow> 'io serve_env \<Rightarrow> Command
     \<Rightarrow> (('io server_error + unit) \<times> server_action list) option" where
  "cli_main is_dir filter_ok ver commit env command =
     (case command of
        Version \<Rightarrow> Some (Inr (), [PrintVersion (''Version: '' @ version_display ver commit)])
      | Serve options \<Rightarrow>
          (case validate is_dir options of
             Inl e \<Rightarrow> Some (Inl (InvalidOptions e), [])
           | Inr u \<Rightarrow>
               if \<not> filter_ok (log_filter options) then Some (Inl InvalidLogFilter, [])
               else cli_serve env options))"

text \<open>
  The server of apps/server. Its configurations come from the environment and are \<^const>\<open>None\<close> when
  they are invalid. It detaches its TCP listener and ends with the process, so that it does not stop
  the engine.
\<close>

record ServerConfig =
  server_listen_addr :: IpAddr
  server_listen_port :: u16
  server_unix_socket_dir :: "string option"
  server_unix_socket_port :: u16

datatype 'io main_error = ConfigurationInvalid string | ServerFailed "'io server_error" | CtrlCFailed

definition server_main ::
  "'io serve_env \<Rightarrow> bool \<Rightarrow> ServerConfig option \<Rightarrow> PostgresConfig option \<Rightarrow> WorkerEngineConfig option
     \<Rightarrow> ('io main_error + unit) \<times> server_action list" where
  "server_main env ctrl_c_ok server_config postgres worker_engine =
     (case server_config of None \<Rightarrow> (Inl (ConfigurationInvalid ''invalid server configuration''), []) | Some cfg \<Rightarrow>
     (case postgres of None \<Rightarrow> (Inl (ConfigurationInvalid ''invalid PostgreSQL configuration''), []) | Some pc \<Rightarrow>
     (case worker_engine of None \<Rightarrow> (Inl (ConfigurationInvalid ''invalid worker engine configuration''), []) | Some wc \<Rightarrow>
     (case start env pc wc of
        Inl e \<Rightarrow> (Inl (ServerFailed (StartFailed e)), [StartEngine])
      | Inr engine \<Rightarrow>
          (case run (bind_tcp env) (server_listen_addr cfg, server_listen_port cfg) of
             Inl e \<Rightarrow> (Inl (ServerFailed (TcpListenerFailed e)), [StartEngine])
           | Inr (address, task) \<Rightarrow>
               (let opened = [StartEngine, ListenTcp address];
                    unix = (case server_unix_socket_dir cfg of
                              None \<Rightarrow> Inr None
                            | Some directory \<Rightarrow>
                                bind_res (fst (run_unix_on_port (sockets env) directory
                                    (server_unix_socket_port cfg) (files env))) (\<lambda>l. Inr (Some l)))
                in case unix of
                     Inl e \<Rightarrow> (Inl (ServerFailed (UnixListenerFailed e)), opened)
                   | Inr unix_listener \<Rightarrow>
                       (let listening = opened @
                              (case unix_listener of None \<Rightarrow> [] | Some (l, s) \<Rightarrow> [ListenUnix (unix_path l)])
                              @ [AwaitSignal] in
                        if \<not> ctrl_c_ok then (Inl CtrlCFailed, listening)
                        else (Inr (), listening @
                               (case unix_listener of None \<Rightarrow> [] | Some l \<Rightarrow> [ShutdownUnix])))))))))"

section \<open>Properties\<close>

lemma fallback_guarded: "fallback d guard v = Some x \<Longrightarrow> guard d \<Longrightarrow> guard x"
  by (auto simp: fallback_def split: option.splits if_splits)

lemma defaults_guarded: "positive_pool 10" "positive_pool 5" "positive_capacity 100000"
  by (simp_all add: positive_pool_def positive_capacity_def)

lemma parse_serve_options_Some:
  assumes "parse_serve_options r = Some options"
  shows "positive_pool (creation_pool_connection options)" "positive_pool (cleanup_pool_connection options)"
    "positive_capacity (opt_max_lease_records options)"
  using assms unfolding parse_serve_options_def bind_eq_Some_conv
  by (auto intro: fallback_guarded defaults_guarded)

lemma serve_options_Some:
  assumes "serve_options r = Some options"
  shows "creation_pool_connection options \<noteq> 0" "cleanup_pool_connection options \<noteq> 0"
    "opt_max_lease_records options \<noteq> 0" "tcp_address options \<noteq> None \<or> unix_socket_dir options \<noteq> None"
proof -
  have o: "parse_serve_options r = Some options" "listen_addr options \<noteq> None \<or> unix_socket_dir options \<noteq> None"
    using assms by (auto simp: serve_options_def bind_eq_Some_conv split: if_splits)
  from parse_serve_options_Some [OF o(1)] o(2)
  show "creation_pool_connection options \<noteq> 0" "cleanup_pool_connection options \<noteq> 0"
    "opt_max_lease_records options \<noteq> 0" "tcp_address options \<noteq> None \<or> unix_socket_dir options \<noteq> None"
    by (auto simp: positive_pool_def positive_capacity_def tcp_address_def)
qed

lemma start_manager_pools:
  assumes "pgtest_pg_creation_pool_connection cfg \<noteq> 0" "pgtest_pg_cleanup_pool_connection cfg \<noteq> 0"
  shows "start_manager sv draw cfg \<noteq> (Inl (InvalidPoolSize x), ev)"
proof -
  have "connect_pool sv cfg n purpose \<noteq> (Inl (InvalidPoolSize x), ev)" for n purpose ev
    by (simp add: connect_pool_def)
  moreover have "bind_res (database_exists sv d) (\<lambda>_. is_valid_version sv) \<noteq> Inl (InvalidPoolSize x)" for d
    by (auto simp: bind_res_eq_Inl database_exists_def is_valid_version_def Let_def split: option.splits)
  ultimately show ?thesis
    using assms by (auto simp: start_manager_def split: prod.splits sum.splits)
qed

lemma start_workers_error:
  "start_workers cl client cfg = Inr (Inl e) \<Longrightarrow> \<exists>x. e = InitialDatabaseCreation x"
  by (auto simp: start_workers_def split: sum.splits)

text \<open>
  C39: a command line that is accepted never fails the checks the engine makes on its configuration:
  whatever PostgreSQL answers, the start-up reports neither an invalid pool size nor an invalid limit
  of lease records; and it names at least one listener.
\<close>

theorem cli_options_start:
  assumes "serve_options r = Some options"
  shows "WorkerEngineManager_start cl (postgres_config options) (engine_config options) \<noteq>
           Inr (Inl InvalidLeaseRecordLimit) \<and>
         (\<forall>x. WorkerEngineManager_start cl (postgres_config options) (engine_config options) \<noteq>
            Inr (Inl (StartPostgres (InvalidPoolSize x)))) \<and>
         (tcp_address options \<noteq> None \<or> unix_socket_dir options \<noteq> None)"
proof -
  let ?start = "WorkerEngineManager_start cl (postgres_config options) (engine_config options)"
  note o = serve_options_Some [OF assms]
  have m: "start_manager sv draw (postgres_config options) \<noteq> (Inl (InvalidPoolSize x), ev)" for sv draw x ev
    by (rule start_manager_pools) (simp_all add: postgres_config_def o)
  have "?start \<noteq> Inr (Inl e)" if e: "e = InvalidLeaseRecordLimit \<or> (\<exists>x. e = StartPostgres (InvalidPoolSize x))" for e
  proof
    assume "?start = Inr (Inl e)"
    then consider ev sql where "prepare_postgres cl (postgres_config options) = (Inl e, ev, sql)"
      | client where "start_workers cl client (engine_config options) = Inr (Inl e)"
      using o(3) by (auto simp: WorkerEngineManager_start_def engine_config_def split: sum.splits prod.splits if_splits)
    then show False
      by cases (use e m in \<open>auto simp: prepare_postgres_def dest: start_workers_error split: sum.splits prod.splits\<close>)
  qed
  with o(4) show ?thesis by blast
qed

definition minimal_options :: RawOptions where
  "minimal_options =
     \<lparr>raw_pg_host = Some ''localhost'', raw_pg_port = Some 5432, raw_pg_user = Some ''postgres'',
      raw_pg_database = Some ''app'', raw_listen_addr = Some (V4 2130706433), raw_listen_port = None,
      raw_unix_socket_dir = None, raw_unix_socket_port = None, raw_creation_pool = None,
      raw_cleanup_pool = None, raw_initial_size = None, raw_starvation_threshold = None,
      raw_grow_batch_size = None, raw_lease_claim_timeout_ms = None, raw_max_lease_records = None,
      raw_log_filter = None\<rparr>"

lemma minimal_options_accepted:
  "\<exists>options. serve_options minimal_options = Some options \<and> max_lease_records (engine_config options) = 100000 \<and>
     tcp_address options = Some (V4 2130706433, 6432) \<and> unix_socket_dir options = None"
  by (simp add: minimal_options_def serve_options_def parse_serve_options_def required_def fallback_def
      optional_def positive_port_def engine_config_def tcp_address_def)

theorem cli_options_start_witness:
  "\<exists>options. serve_options minimal_options = Some options \<and> max_lease_records (engine_config options) = 100000 \<and>
     (\<forall>cl :: unit cluster. WorkerEngineManager_start cl (postgres_config options) (engine_config options) \<noteq>
        Inr (Inl InvalidLeaseRecordLimit)) \<and>
     tcp_address options = Some (V4 2130706433, 6432)"
  using minimal_options_accepted cli_options_start [of minimal_options] by blast

lemma open_listeners_tasks:
  assumes "open_listeners env options = (result, actions, tcp_listener, unix_listener)"
  shows "tcp_listener = Some l \<Longrightarrow> tcp_task l = Some (Accepting new_listener)"
    and "unix_listener = Some u \<Longrightarrow> unix_task u = Some (Accepting new_listener) \<and> unix_stop u \<noteq> None"
    and "ListenTcp a \<in> set actions \<Longrightarrow> tcp_listener \<noteq> None"
    and "ListenUnix p \<in> set actions \<Longrightarrow> unix_listener \<noteq> None"
    and "result \<noteq> Inl ListenersRetained" "ShutdownEngine \<notin> set actions"
  using assms
  by (auto simp: open_listeners_def run_with_handle_def run_unix_on_port_def bind_res_def Let_def
      split: option.splits sum.splits prod.splits)

text \<open>
  C40: however many sessions are open on its listeners, the server comes to an end after the signal,
  or after a listener could not be opened: it stops every listener it has opened, no clone of the
  manager is left behind by them, and it shuts the engine down exactly once, as its last action.
\<close>

theorem cli_serve_shuts_down:
  "\<exists>result actions. cli_serve env options = Some (result, actions) \<and> result \<noteq> Inl ListenersRetained \<and>
     (ListenTcp a \<in> set actions \<longrightarrow> ShutdownTcp \<in> set actions) \<and>
     (ListenUnix p \<in> set actions \<longrightarrow> ShutdownUnix \<in> set actions) \<and>
     (signal_error env = None \<and> \<not> signal_at_start env \<and>
      start env (postgres_config options) (engine_config options) = Inr engine \<longrightarrow>
        last actions = ShutdownEngine \<and> ShutdownEngine \<notin> set (butlast actions))"
proof (cases "signal_error env \<noteq> None \<or> signal_at_start env \<or> isl (start env (postgres_config options) (engine_config options))")
  case True
  then show ?thesis by (auto simp: cli_serve_def isl_def split: option.splits)
next
  case False
  then obtain w where w: "signal_error env = None" "\<not> signal_at_start env"
    "start env (postgres_config options) (engine_config options) = Inr w"
    by (cases "start env (postgres_config options) (engine_config options)") auto
  obtain result actions t u where o: "open_listeners env options = (result, actions, t, u)"
    by (metis prod_cases4)
  note facts = open_listeners_tasks [OF o]
  have "cli_serve env options = Some (result, [StartEngine] @ actions @
      (if t = None then [] else [ShutdownTcp]) @ (if u = None then [] else [ShutdownUnix]) @ [ShutdownEngine])"
    using w o facts(1,2)
    by (cases t; cases u) (auto simp: cli_serve_def TcpWireListener_shutdown_def UnixWireListener_shutdown_def
        task_after_def await_task_def clones_left_def manager_clones_def)
  then show ?thesis using facts(3) [of a] facts(4) [of p] facts(5,6) by (auto simp: butlast_append)
qed

theorem cli_serve_shuts_down_witness:
  "\<forall>w. \<exists>options actions. serve_options minimal_options = Some options \<and>
     cli_serve \<lparr>signal_at_start = False, signal_error = None, start = (\<lambda>pc wc. Inr w), bind_tcp = Inr,
         sockets = \<lparr>canonicalize = Inr, address_in_use = (), new_socket = (\<lambda>p. Inl ()), metadata_error = None,
           remove_works = True\<rparr>,
         files = Map.empty, tcp_events = [Arrives (Inr 1), Turn, Arrives (Inl ()), Turn], unix_events = []\<rparr> options =
       Some (Inr (), actions) \<and>
     ListenTcp (V4 2130706433, 6432) \<in> set actions \<and> ShutdownTcp \<in> set actions \<and> last actions = ShutdownEngine"
proof
  fix w
  obtain options where o: "serve_options minimal_options = Some options"
    "tcp_address options = Some (V4 2130706433, 6432)" "unix_socket_dir options = None"
    using minimal_options_accepted by blast
  define env :: "unit serve_env" where
    "env = \<lparr>signal_at_start = False, signal_error = None, start = (\<lambda>pc wc. Inr w), bind_tcp = Inr,
         sockets = \<lparr>canonicalize = Inr, address_in_use = (), new_socket = (\<lambda>p. Inl ()), metadata_error = None,
           remove_works = True\<rparr>,
         files = Map.empty, tcp_events = [Arrives (Inr 1), Turn, Arrives (Inl ()), Turn], unix_events = []\<rparr>"
  obtain actions where a: "cli_serve env options = Some (Inr (), actions)"
    "ListenTcp (V4 2130706433, 6432) \<in> set actions"
    using o by (simp add: cli_serve_def open_listeners_def run_with_handle_def env_def
        TcpWireListener_shutdown_def task_after_def await_task_def clones_left_def manager_clones_def)
  have "ShutdownTcp \<in> set actions" "last actions = ShutdownEngine"
    using cli_serve_shuts_down [of env options "(V4 2130706433, 6432)" _ w] a by (auto simp: env_def)
  with o a show "\<exists>options actions. serve_options minimal_options = Some options \<and>
     cli_serve \<lparr>signal_at_start = False, signal_error = None, start = (\<lambda>pc wc. Inr w), bind_tcp = Inr,
         sockets = \<lparr>canonicalize = Inr, address_in_use = (), new_socket = (\<lambda>p. Inl ()), metadata_error = None,
           remove_works = True\<rparr>,
         files = Map.empty, tcp_events = [Arrives (Inr 1), Turn, Arrives (Inl ()), Turn], unix_events = []\<rparr> options =
       Some (Inr (), actions) \<and>
     ListenTcp (V4 2130706433, 6432) \<in> set actions \<and> ShutdownTcp \<in> set actions \<and> last actions = ShutdownEngine"
    unfolding env_def by blast
qed

end
