(* ===== verification/Engine_Drain.thy ===== *)
theory Engine_Drain
  imports Engine_Supply Engine_Effects
begin

text \<open>
  Serving the queue takes at most one database for every lease that leaves it, so a successful
  creation never makes the engine grow again: the work that a burst of clients causes comes to an end.
\<close>

section \<open>What serving a lease takes\<close>

lemma dispatch_replies_ready:
  assumes "dispatch_replies env l ps s = Inr s'"
  shows "(l |\<in>| fmdom (leases s) \<or> (\<forall>(c, t) \<in> set ps. \<not> claim_live env s t) \<longrightarrow>
            inventory s' = inventory s) \<and>
         length (ready (inventory s)) \<le> Suc (length (ready (inventory s')))"
  using assms
proof (induction ps arbitrary: s)
  case (Cons r rest)
  obtain c t where r: "r = (c, t)" by (cases r)
  show ?case
  proof (cases "lease_claim_timeout_ms (config s) > 0 \<and> elapsed_ms env t > unat (lease_claim_timeout_ms (config s))")
    case True
    with Cons.prems Cons.IH [of "s\<lparr>counters := (counters s)\<lparr>waiter_timeouts := waiter_timeouts (counters s) + 1\<rparr>\<rparr>"]
    show ?thesis by (auto simp: r claim_live_def)
  next
    case False
    then have live: "claim_live env s t" by (auto simp: claim_live_def word_gt_0 not_less)
    from Cons.prems obtain name s1 where p: "(case fmlookup (leases s) l of
           Some entry \<Rightarrow> Inr (db_name (database entry), s)
         | None \<Rightarrow> (case take_ready (inventory s) of
                (None, iv) \<Rightarrow> Inl DispatchRequiresReady
              | (Some db, iv) \<Rightarrow> assign_database env l db (s\<lparr>inventory := iv\<rparr>))) = Inr (name, s1)"
      and b: "bind_res (reply_attached env l name c s1) (dispatch_replies env l rest) = Inr s'"
      unfolding r dispatch_replies.simps if_not_P [OF False] by (rule bind_res_pairE)
    obtain s2 where a: "reply_attached env l name c s1 = Inr s2" and d: "dispatch_replies env l rest s2 = Inr s'"
      using b by (rule bind_resE)
    have s2: "inventory s2 = inventory s1" "l |\<in>| fmdom (leases s2)"
      using a by (auto simp: reply_attached_def send_reply_def Let_def split: option.splits if_splits
          dest: fmdomI)
    then have s': "inventory s' = inventory s1" using Cons.IH [OF d] by simp
    show ?thesis
    proof (cases "fmlookup (leases s) l")
      case None
      then have "length (ready (inventory s)) \<le> Suc (length (ready (inventory s1)))"
        using p by (auto simp: take_ready_def assign_database_def record_call_def Let_def
            split: list.splits option.splits if_splits)
      with None live s' show ?thesis by (auto simp: r fmlookup_in_fmdom)
    next
      case (Some e)
      with p s' show ?thesis by simp
    qed
  qed
qed simp

lemma serve_group_supply:
  assumes "serve_group env l ps s = Inr s'"
  shows "creating (inventory s') = creating (inventory s)"
    and "length (ready (inventory s)) \<le> length (ready (inventory s')) + (if \<exists>(c, t) \<in> set ps. claim_live env s t then 1 else 0)"
proof -
  obtain s1 b where s1: "dispatch_replies env l ps s = Inr s1" and s2: "restore_unclaimed_database l s1 = Inr (b, s')"
    using assms by (auto simp: serve_group_def bind_res_eq_Inr)
  show "creating (inventory s') = creating (inventory s)"
    using aside_dispatch_replies [OF s1] aside_restore [OF s2] by (auto dest: aside_orders)
  have "length (ready (inventory s1)) \<le> length (ready (inventory s'))"
    using s2 by (auto simp: restore_unclaimed_database_def return_ready_def record_call_def Let_def split: option.splits if_splits)
  with dispatch_replies_ready [OF s1]
  show "length (ready (inventory s)) \<le> length (ready (inventory s')) + (if \<exists>(c, t) \<in> set ps. claim_live env s t then 1 else 0)"
    by (auto split: if_splits)
qed

lemma met_turn:
  assumes "engine_inv s" "fmlookup (group_waiters s) l = Some ps" "l |\<notin>| fmdom (leases s)"
    and "serve_group env l ps (popped s l rest) = Inr s'" "serves l (popped s l rest) s'"
    and "growth_target env s \<le> supply_len (inventory s)"
  shows "growth_target env s' \<le> supply_len (inventory s')"
proof -
  have frame: "config s' = config s" "group_waiters s' = fmdrop l (group_waiters s)"
    "\<And>k. k \<noteq> l \<Longrightarrow> fmlookup (leases s') k = fmlookup (leases s) k"
    using assms(5) by (simp_all add: serves_def same_queue_def others_same_def popped_def)
  have w: "waiting_leases env s' = waiting_leases env s |-| {|l|}"
  proof (rule fset_eqI)
    fix k
    have "k \<noteq> l \<Longrightarrow> k |\<in>| fmdom (leases s') \<longleftrightarrow> k |\<in>| fmdom (leases s)"
      using frame(3) [of k] by (simp add: fmlookup_dom_iff)
    then show "k |\<in>| waiting_leases env s' \<longleftrightarrow> k |\<in>| waiting_leases env s |-| {|l|}"
      by (auto simp: in_waiting_leases frame claim_live_def)
  qed
  have claims: "claim_live env (popped s l rest) = claim_live env s" by (simp add: claim_live_def popped_def fun_eq_iff)
  note sup = serve_group_supply [OF assms(4), unfolded claims]
  have inv: "inventory (popped s l rest) = inventory s" by (simp add: popped_def)
  show ?thesis
  proof (cases "\<exists>(c, t) \<in> set ps. claim_live env s t")
    case True
    with assms(2,3) have "l |\<in>| waiting_leases env s" by (auto simp: in_waiting_leases)
    then have "Suc (fcard (waiting_leases env s')) = fcard (waiting_leases env s)"
      using card_Suc_Diff1 [of "fset (waiting_leases env s)" l] unfolding w by (simp add: fcard.rep_eq)
    with sup True assms(6) frame(1) show ?thesis by (simp add: growth_target_def supply_len_def inv)
  next
    case False
    have "fcard (waiting_leases env s') \<le> fcard (waiting_leases env s)" unfolding w by (rule fcard_mono) auto
    with sup False assms(6) frame(1) show ?thesis by (simp add: growth_target_def supply_len_def inv)
  qed
qed

lemma met_dispatch_waiters:
  assumes "engine_inv s" "dispatch_waiters env s = Inr s'"
  shows "growth_target env s \<le> supply_len (inventory s) \<longrightarrow> growth_target env s' \<le> supply_len (inventory s')"
  using assms
proof (induction rule: dispatch_waiters_loop)
  case (turn s l rest ps s1)
  have "l |\<notin>| fmdom (leases s)" using engine_inv_popped(4) [OF turn.hyps(1,2)] by (simp add: popped_def)
  with turn.IH met_turn [OF turn.hyps(1,3) _ turn.hyps(4,5)] show ?case by blast
qed simp

section \<open>The log only grows\<close>

text \<open>No step takes anything back from the log.\<close>

abbreviation extends :: "'c WorkerEngine \<Rightarrow> 'c WorkerEngine \<Rightarrow> bool" where
  "extends \<equiv> adds (\<lambda>k. True)"

lemmas extends_talks = adds_all [where P = "\<lambda>k. \<not> is_job k"]

lemma extends_call [simp]: "extends s (record_call k s)" "extends s (snd (send_reply env c msg s))"
  by (simp_all add: adds_def record_call_def send_reply_def)

lemma extends_grow: "grow env s = Inr s' \<Longrightarrow> extends s s'"
  by (cases "unat (grow_batch_size (config s)) = 0 \<or> growth_deficit env s = 0")
    (auto simp: grow_unfold Let_def adds_def list_all_iff elim!: bind_resE split: option.splits if_splits)

lemma extends_retire: "retire_lease env l s = Inr s' \<Longrightarrow> extends s s'"
proof (cases "fmlookup (leases s) l")
  case (Some e)
  assume "retire_lease env l s = Inr s'"
  then have "grow env (retired_state env l e s) = Inr s'" by (simp add: retire_lease_eq [OF Some])
  moreover have "extends s (retired_state env l e s)" by (simp add: retired_state_def adds_def Let_def list_all_iff)
  ultimately show ?thesis by (blast intro: adds_trans extends_grow)
qed (auto simp: retire_lease_def adds_same)

lemma calls_admit: "admit_lease l s = (r, s1) \<Longrightarrow> calls s1 = calls s"
  by (auto simp: admit_lease_def split: option.splits if_splits)

lemma extends_attach_fresh: "attach_fresh env l c db s = Inr (b, s') \<Longrightarrow> extends s s'"
  by (auto simp: attach_fresh_def bind_res_eq_Inr intro: extends_talks adds_trans
      dest!: talks_assign_database talks_reply_attached talks_restore)

lemma extends_attach_or_join:
  assumes "attach_or_join env l c t s = Inr s'"
  shows "extends s s'"
proof -
  obtain r s1 where a: "admit_lease l s = (r, s1)" by (cases "admit_lease l s")
  have "extends s1 s'"
  proof (cases "r = Inr Open")
    case False
    with a assms show ?thesis by (auto simp: attach_or_join_def split: sum.splits LeaseStatus.splits)
  next
    case True
    note eq = assms [unfolded attach_or_join_eq [OF a [unfolded True]]]
    consider (lease) e where "fmlookup (leases s1) l = Some e"
      | (none) iv where "fmlookup (leases s1) l = None" "take_ready (inventory s1) = (None, iv)"
      | (taken) db iv where "fmlookup (leases s1) l = None" "take_ready (inventory s1) = (Some db, iv)"
      by (cases "fmlookup (leases s1) l"; cases "take_ready (inventory s1)"; cases "fst (take_ready (inventory s1))") auto
    then show ?thesis
    proof cases
      case lease
      with eq show ?thesis by (auto intro: extends_talks dest: talks_reply_attached)
    next
      case none
      with eq have "grow env (enqueue_waiter l c t s1) = Inr s'" by simp
      from adds_from [OF _ extends_grow [OF this]] show ?thesis by simp
    next
      case taken
      then obtain b s2 s3 where s2: "attach_fresh env l c db (s1\<lparr>inventory := iv\<rparr>) = Inr (b, s2)"
        and s3: "(if b then dispatch_waiters env s2 else Inr s2) = Inr s3" and g: "grow env s3 = Inr s'"
        using eq by (auto simp: bind_res_eq_Inr)
      have "extends s2 s3" using s3 by (auto simp: adds_same intro: extends_talks dest: talks_dispatch_waiters split: if_splits)
      from adds_trans [OF extends_attach_fresh [OF s2] adds_trans [OF this extends_grow [OF g]]] show ?thesis
        by (rule adds_from [rotated]) simp
    qed
  qed
  then show ?thesis by (rule adds_from [OF calls_admit [OF a]])
qed

lemma extends_release:
  assumes "release_lease env l s = Inr (r, s')"
  shows "extends s s'"
proof -
  obtain a s1 where a: "admit_lease l s = (a, s1)" by (cases "admit_lease l s")
  have "extends s1 (closed_state env l s1)" by (simp add: closed_state_def adds_def Let_def list_all_iff)
  with a assms have "extends s1 s'"
    by (auto simp: release_lease_eq adds_same bind_res_eq_Inr split: sum.splits LeaseStatus.splits
        dest!: extends_retire intro: adds_trans)
  then show ?thesis by (rule adds_from [OF calls_admit [OF a]])
qed

lemma extends_worker_message:
  assumes "handle_database_worker_message env m s = Inr s'"
  shows "extends s s'"
proof (cases m)
  case (CreationFinished d r)
  obtain q iv where q: "complete_creation d r (inventory s) = (q, iv)" by (cases "complete_creation d r (inventory s)")
  show ?thesis
  proof (cases q)
    case None
    with assms CreationFinished q show ?thesis by (auto simp: handle_database_worker_message_def intro: adds_same)
  next
    case (Some settled)
    let ?s = "\<lambda>k. s\<lparr>inventory := iv, counters := k\<rparr>"
    obtain k where "bind_res (dispatch_waiters env (?s k)) (grow env) = Inr s'"
    proof (cases settled)
      case (Inl e)
      with assms CreationFinished q Some that show ?thesis by (simp add: handle_database_worker_message_def Let_def)
    next
      case (Inr u)
      with assms CreationFinished q Some that [of "counters s"] show ?thesis
        by (simp add: handle_database_worker_message_def Let_def)
    qed
    then obtain s1 where "talks (?s k) s1" "grow env s1 = Inr s'"
      by (auto simp: bind_res_eq_Inr dest: talks_dispatch_waiters)
    then show ?thesis using adds_trans [OF extends_talks [of "?s k" s1] extends_grow] by simp
  qed
next
  case (CleanupFinished d r)
  with assms show ?thesis by (auto simp: handle_database_worker_message_def intro: adds_same)
qed

lemma extends_handle_message:
  assumes "handle_message env msg s = Inr (go, s')"
  shows "extends s s'"
proof (cases msg)
  case (ReleaseLease l c)
  with assms obtain r s1 where "release_lease env l s = Inr (r, s1)" "s' = snd (send_reply env c (ReleaseResult r) s1)"
    by (auto simp: handle_message_def bind_res_eq_Inr)
  then show ?thesis by (auto intro: adds_trans extends_release)
next
  case (LeaseMaxTimeReached l g)
  with assms show ?thesis
    by (auto simp: handle_message_def handle_max_time_def bind_res_eq_Inr adds_same split: option.splits if_splits
        dest!: extends_retire intro: adds_from)
qed (use assms in \<open>auto simp: handle_message_def handle_detach_def bind_res_eq_Inr adds_same split: option.splits
    dest: extends_attach_or_join extends_worker_message\<close>)

section \<open>Results of the workers\<close>

lemma grow_met: "growth_target env s \<le> supply_len (inventory s) \<Longrightarrow> grow env s = Inr s"
  by (simp add: grow_unfold growth_deficit_def growth_target_def)

text \<open>A result from a worker other than the failure of a creation.\<close>

definition fulfilled :: "'c EngineMessage \<Rightarrow> bool" where
  "fulfilled msg \<longleftrightarrow> (case msg of DatabaseWorker (CreationFinished d r) \<Rightarrow> \<not> isl r
                                | DatabaseWorker (CleanupFinished d r) \<Rightarrow> True | _ \<Rightarrow> False)"

text \<open>\<open>grow\<close> has nothing to do: it is switched off, or the supply meets its target.\<close>

definition quiescent :: "'c env \<Rightarrow> 'c WorkerEngine \<Rightarrow> bool" where
  "quiescent env s \<longleftrightarrow> unat (grow_batch_size (config s)) = 0 \<or> supplied env s"

text \<open>Handling one asks for no work and removes its identity from those under creation.\<close>

lemma fulfilled_handled:
  assumes "settled_inv s" "quiescent env s" "fulfilled msg" "handle_message env msg s = Inr (go, s')"
  shows "go" and "talks s s'" and "creating (inventory s') |\<subseteq>| creating (inventory s)"
    and "\<And>d r. msg = DatabaseWorker (CreationFinished d r) \<Longrightarrow> d |\<notin>| creating (inventory s')"
proof -
  obtain m where m: "msg = DatabaseWorker m" using assms(3) by (cases msg) (auto simp: fulfilled_def)
  with assms(4) have go: "go" and h: "handle_database_worker_message env m s = Inr s'"
    by (auto simp: handle_message_def bind_res_eq_Inr)
  show "go" by (rule go)
  have "talks s s' \<and> creating (inventory s') |\<subseteq>| creating (inventory s) \<and>
    (\<forall>d r. m = CreationFinished d r \<longrightarrow> d |\<notin>| creating (inventory s'))"
  proof (cases m)
    case (CleanupFinished d r)
    with h show ?thesis
      by (auto simp: handle_database_worker_message_def adds_same complete_cleanup_def split: sum.splits if_splits)
  next
    case (CreationFinished d r)
    then obtain n where r: "r = Inr n" using assms(3) m by (cases r) (auto simp: fulfilled_def)
    show ?thesis
    proof (cases "d |\<in>| creating (inventory s)")
      case False
      with h CreationFinished show ?thesis
        by (auto simp: handle_database_worker_message_def complete_creation_def adds_same)
    next
      case True
      let ?s = "s\<lparr>inventory := (inventory s)\<lparr>creating := creating (inventory s) |-| {|d|},
        ready := ready (inventory s) @ [\<lparr>db_id = d, db_name = n\<rparr>]\<rparr>\<rparr>"
      obtain s1 where s1: "dispatch_waiters env ?s = Inr s1" "grow env s1 = Inr s'"
        using h True r CreationFinished
        by (auto simp: handle_database_worker_message_def complete_creation_def Let_def bind_res_eq_Inr)
      have inv: "engine_inv ?s"
        using engine_inv_complete(1) [where s = s and d = d and r = "Inr n" and k = "counters s"] assms(1) True
        by (simp add: settled_inv_def complete_creation_def Let_def)
      have "supply_len (inventory ?s) = supply_len (inventory s)"
        using card_Suc_Diff1 [of "fset (creating (inventory s))" d] True by (simp add: supply_len_def fcard.rep_eq)
      moreover have "waiting_leases env ?s = waiting_leases env s" by (rule waiting_leases_cong) simp_all
      ultimately have met: "growth_target env ?s \<le> supply_len (inventory ?s)" if "supplied env s"
        using that True by (auto simp: supplied_def growth_target_def split: if_splits)
      have "grow env s1 = Inr s1"
      proof (cases "unat (grow_batch_size (config s)) = 0")
        case True
        then show ?thesis using keeps_dispatch_waiters [OF inv s1(1)] by (simp add: grow_unfold keeps_def)
      next
        case False
        then have "supplied env s" using assms(2) by (simp add: quiescent_def)
        from grow_met [OF met_dispatch_waiters [OF inv s1(1), rule_format, OF met [OF this]]] show ?thesis .
      qed
      with s1(2) have "s' = s1" by simp
      moreover have "talks s s1" using talks_dispatch_waiters [OF s1(1)] by simp
      ultimately show ?thesis using aside_dispatch_waiters [OF s1(1)] CreationFinished by (auto simp: aside_def)
    qed
  qed
  with m show "talks s s'" "creating (inventory s') |\<subseteq>| creating (inventory s)"
    "\<And>d r. msg = DatabaseWorker (CreationFinished d r) \<Longrightarrow> d |\<notin>| creating (inventory s')" by auto
qed

end
