(* ===== verification/Engine_Tests.thy ===== *)
theory Engine_Tests
  imports Engine_Simulator
begin

text \<open>
  The unit tests of the engine (crates/pgtest-core/src/worker_engine/mod.rs) on the simulator: each
  test is a definition that says whether its assertions hold, and a lemma that they do.
\<close>

section \<open>Assertions\<close>

text \<open>A run that ends without a panic in a state with a property.\<close>

definition passes :: "(sim_panic + Simulation) option \<Rightarrow> (Simulation \<Rightarrow> bool) \<Rightarrow> bool" where
  "passes r P = (case r of Some (Inr w) \<Rightarrow> P w | _ \<Rightarrow> False)"

definition leased :: "Simulation \<Rightarrow> string \<Rightarrow> (LeaseEntry \<Rightarrow> bool) \<Rightarrow> bool" where
  "leased w l P = (case fmlookup (leases (sim_engine w)) (LeaseId l) of None \<Rightarrow> False | Some e \<Rightarrow> P e)"

definition not_leased :: "Simulation \<Rightarrow> string \<Rightarrow> bool" where
  "not_leased w l = (case fmlookup (leases (sim_engine w)) (LeaseId l) of None \<Rightarrow> True | Some e \<Rightarrow> False)"

definition lease_count :: "Simulation \<Rightarrow> nat" where
  "lease_count w = fcard (fmdom (leases (sim_engine w)))"

abbreviation stock :: "Simulation \<Rightarrow> Database list" where
  "stock w \<equiv> ready (inventory (sim_engine w))"

definition nothing_creating :: "Simulation \<Rightarrow> bool" where
  "nothing_creating w = (fcard (creating (inventory (sim_engine w))) = 0)"

definition nothing_retiring :: "Simulation \<Rightarrow> bool" where
  "nothing_retiring w = (fcard (fmdom (retiring (inventory (sim_engine w)))) = 0)"

definition attached_reply :: "ConsumerReply \<Rightarrow> (ReadString \<Rightarrow> u64 \<Rightarrow> CancellationToken \<Rightarrow> bool) \<Rightarrow> bool" where
  "attached_reply r P = (case r of Attached name g token \<Rightarrow> P name g token | _ \<Rightarrow> False)"

definition test_attach :: "string \<Rightarrow> TestConsumer \<Rightarrow> TestConsumer EngineMessage" where
  "test_attach lease c = AttachOrJoin (LeaseId lease) c test_now"

definition test_consumer :: TestConsumer where
  "test_consumer = TestConsumer_new 0"

definition occupy_initial :: "TestConsumer \<Rightarrow> TestConsumer EngineMessage list" where
  "occupy_initial c = map (\<lambda>n. test_attach (''connection'' @ show_nat n) c) [1..<5]"

text \<open>The databases of a list of leases and those that are ready, in the order of their identities.\<close>

definition all_databases :: "string list \<Rightarrow> Simulation \<Rightarrow> Database list" where
  "all_databases ls w =
     sort_key (\<lambda>db. unat (id_num (db_id db)))
       ([database e. l \<leftarrow> ls, Some e \<leftarrow> [fmlookup (leases (sim_engine w)) (LeaseId l)]] @ stock w)"

lemma pump_done: "sim_inbox w = [] \<Longrightarrow> pump w = Some (Inr w)"
  by (subst pump.simps) simp

lemma pump_turn:
  "sim_inbox w = msg # rest \<Longrightarrow> sim_turn msg (w\<lparr>sim_inbox := rest\<rparr>) = Inr (True, w') \<Longrightarrow> pump w = pump w'"
  "sim_inbox w = msg # rest \<Longrightarrow> sim_turn msg (w\<lparr>sim_inbox := rest\<rparr>) = Inr (False, w') \<Longrightarrow>
     pump w = Some (Inr w')"
  by (subst pump.simps, simp)+

lemmas sim_eval = pump_done pump_turn sim_turn_def sim_adopt_def sim_perform_def sim_env_def TestConsumer_reply_def
  run_sim_def run_with_custom_config_def run_with_failing_pg_def run_simulation_def sim_start_def
  run_grow_def run_grow_with_def sim_grow_def grow_config_def remaining_def
  WorkerEngineConfig_default_def initial_databases_def generate_sequential_name_def sim_request_creation_def
  send_sim_message_def sim_request_cleanup_def accepts_creation_def test_now_def past_instant_def
  TestConsumer_new_def TestConsumer_failing_def test_consumer_def test_attach_def occupy_initial_def
  sim_messages_def sim_cancelled_def passes_def leased_def not_leased_def lease_count_def
  nothing_creating_def nothing_retiring_def attached_reply_def show_nat.simps engine_eval

section \<open>Leases\<close>

definition simulations_restart_the_sequence :: bool where
  "simulations_restart_the_sequence =
     list_all (\<lambda>i. passes (run_sim (occupy_initial test_consumer)) (\<lambda>w.
       let databases = all_databases (map (\<lambda>n. ''connection'' @ show_nat n) [1..<5]) w
       in lease_count w = 4 \<and> length databases = 8 \<and>
          map db_name databases = map (\<lambda>i. ''pgtest_'' @ show_nat (i + 1)) [0..<8])) [0..<2]"

definition immediate_available_templates :: bool where
  "immediate_available_templates =
     passes (run_sim [test_attach ''first'' test_consumer]) (\<lambda>w.
       case sim_messages test_consumer w of
         [] \<Rightarrow> False
       | r # _ \<Rightarrow> attached_reply r (\<lambda>name g token.
           leased w ''first'' (\<lambda>e. db_name (database e) = name \<and> db_id (database e) = DatabaseId 1) \<and>
           length (stock w) = 3 \<and> \<not> sim_cancelled token w))"

definition starvation_replenishes_ready_supply :: bool where
  "starvation_replenishes_ready_supply =
     passes (run_sim [test_attach ''first'' test_consumer, test_attach ''second'' test_consumer,
                      test_attach ''third'' test_consumer])
       (\<lambda>w. lease_count w = 3 \<and> length (stock w) = 5 \<and> nothing_creating w)"

definition joining_a_lease_shares_its_database :: bool where
  "joining_a_lease_shares_its_database =
     passes (run_sim [test_attach ''shared'' test_consumer, test_attach ''shared'' test_consumer]) (\<lambda>w.
       let messages = sim_messages test_consumer w in
       length messages = 2 \<and>
       list_all (\<lambda>r. attached_reply r (\<lambda>name g token.
         leased w ''shared'' (\<lambda>e. name = db_name (database e) \<and> g = generation e))) messages \<and>
       lease_count w = 1 \<and> leased w ''shared'' (\<lambda>e. conns e = 2) \<and> length (stock w) = 3 \<and>
       waiters (sim_engine w) = [])"

definition detach_reduces_connections :: bool where
  "detach_reduces_connections =
     passes (run_sim [test_attach ''shared'' test_consumer, test_attach ''shared'' test_consumer,
                      Detach (LeaseId ''shared'') 1]) (\<lambda>w.
       leased w ''shared'' (\<lambda>e. conns e = 1 \<and> db_id (database e) = DatabaseId 1) \<and>
       length (stock w) = 3 \<and> nothing_retiring w \<and> detach_on_zero (counters (sim_engine w)) = 0)"

definition detach_on_zero_connections_is_noop :: bool where
  "detach_on_zero_connections_is_noop =
     passes (run_sim [test_attach ''first'' test_consumer, Detach (LeaseId ''first'') 1,
                      Detach (LeaseId ''first'') 1]) (\<lambda>w.
       leased w ''first'' (\<lambda>e. conns e = 0 \<and> db_id (database e) = DatabaseId 1) \<and>
       length (stock w) = 3 \<and> nothing_retiring w \<and> detach_on_zero (counters (sim_engine w)) = 1)"

definition detach_unknown_lease_is_ignored :: bool where
  "detach_unknown_lease_is_ignored =
     passes (run_sim [Detach (LeaseId ''ghost'') 1]) (\<lambda>w.
       lease_count w = 0 \<and> length (stock w) = 4 \<and> detach_on_zero (counters (sim_engine w)) = 0)"

lemma lease_tests:
  simulations_restart_the_sequence immediate_available_templates starvation_replenishes_ready_supply
  joining_a_lease_shares_its_database detach_reduces_connections detach_on_zero_connections_is_noop
  detach_unknown_lease_is_ignored
  by (simp_all add: simulations_restart_the_sequence_def all_databases_def immediate_available_templates_def
      starvation_replenishes_ready_supply_def joining_a_lease_shares_its_database_def detach_reduces_connections_def
      detach_on_zero_connections_is_noop_def detach_unknown_lease_is_ignored_def sim_eval)

section \<open>Waiting clients\<close>

text \<open>A claim that was made before its time limit.\<close>

definition expired_attach :: "string \<Rightarrow> TestConsumer EngineMessage" where
  "expired_attach lease = AttachOrJoin (LeaseId lease) test_consumer past_instant"

definition single_waiter_is_fulfilled :: bool where
  "single_waiter_is_fulfilled =
     passes (run_sim (occupy_initial test_consumer @ [test_attach ''waiting'' test_consumer])) (\<lambda>w.
       leased w ''waiting'' (\<lambda>e. db_id (database e) = DatabaseId 5 \<and>
         attached_reply (last (sim_messages test_consumer w)) (\<lambda>name g token. name = db_name (database e))) \<and>
       waiters (sim_engine w) = [] \<and> length (sim_messages test_consumer w) = 5)"

definition second_waiter_is_served_when_first_times_out :: bool where
  "second_waiter_is_served_when_first_times_out =
     passes (run_sim (occupy_initial test_consumer @ [expired_attach ''expired'', test_attach ''live'' test_consumer])) (\<lambda>w.
       not_leased w ''expired'' \<and> leased w ''live'' (\<lambda>e. db_id (database e) = DatabaseId 5) \<and>
       waiter_timeouts (counters (sim_engine w)) = 1 \<and> waiters (sim_engine w) = [] \<and>
       length (sim_messages test_consumer w) = 5)"

definition all_waiters_timing_out :: bool where
  "all_waiters_timing_out =
     passes (run_sim (occupy_initial test_consumer @ map expired_attach [''expired_a'', ''expired_b''])) (\<lambda>w.
       lease_count w = 4 \<and> length (stock w) = 4 \<and> list_ex (\<lambda>db. db_id db = DatabaseId 5) (stock w) \<and>
       waiter_timeouts (counters (sim_engine w)) = 2 \<and> waiters (sim_engine w) = [] \<and>
       length (sim_messages test_consumer w) = 4)"

definition duplicate_waiter_joins :: bool where
  "duplicate_waiter_joins =
     passes (run_sim (occupy_initial test_consumer @
              [test_attach ''shared'' test_consumer, test_attach ''shared'' test_consumer])) (\<lambda>w.
       leased w ''shared'' (\<lambda>e. conns e = 2 \<and> db_id (database e) = DatabaseId 5) \<and>
       length (stock w) = 3 \<and> list_ex (\<lambda>db. db_id db = DatabaseId 6) (stock w) \<and>
       waiters (sim_engine w) = [] \<and> length (sim_messages test_consumer w) = 6)"

lemma waiter_tests:
  single_waiter_is_fulfilled second_waiter_is_served_when_first_times_out all_waiters_timing_out
  duplicate_waiter_joins
  by (simp_all add: single_waiter_is_fulfilled_def second_waiter_is_served_when_first_times_out_def
      all_waiters_timing_out_def duplicate_waiter_joins_def expired_attach_def sim_eval)

section \<open>Expiry, shutdown and failures\<close>

definition expired_lease_can_attach_to_a_fresh_database :: bool where
  "expired_lease_can_attach_to_a_fresh_database =
     passes (run_sim [test_attach ''test'' test_consumer, LeaseMaxTimeReached (LeaseId ''test'') 1,
                      test_attach ''test'' test_consumer]) (\<lambda>w.
       case sim_messages test_consumer w of
         old # new # _ \<Rightarrow>
           attached_reply old (\<lambda>old_name old_generation old_cancel.
           attached_reply new (\<lambda>new_name new_generation new_cancel.
             old_name \<noteq> new_name \<and> old_generation \<noteq> new_generation \<and>
             sim_cancelled old_cancel w \<and> \<not> sim_cancelled new_cancel w \<and>
             leased w ''test'' (\<lambda>e. db_name (database e) = new_name) \<and>
             rejected_attach_max_lifetime (counters (sim_engine w)) = 1 \<and> nothing_retiring w))
       | _ \<Rightarrow> False)"

definition shutdown_cancels_sessions :: bool where
  "shutdown_cancels_sessions =
     passes (run_sim [test_attach ''first'' test_consumer, Shutdown, test_attach ''second'' test_consumer,
                      Detach (LeaseId ''first'') 1]) (\<lambda>w.
       length (sim_messages test_consumer w) = 1 \<and> lease_count w = 1 \<and>
       leased w ''first'' (\<lambda>e. conns e = 1 \<and> sim_cancelled (cancellation e) w))"

definition transient_creation_failure_recovers_the_waiter :: bool where
  "transient_creation_failure_recovers_the_waiter =
     passes (run_with_failing_pg [test_attach ''waiting'' test_consumer] 1
              (WorkerEngineConfig_default\<lparr>initial_slots := 0, starvation_threshold := 0, grow_batch_size := 1\<rparr>)) (\<lambda>w.
       template_create_failures (counters (sim_engine w)) = 1 \<and>
       leased w ''waiting'' (\<lambda>e. db_id (database e) = DatabaseId 2) \<and> waiters (sim_engine w) = [] \<and>
       length (sim_messages test_consumer w) = 1 \<and> length (stock w) = 1)"

definition failed_join_reply_does_not_count_a_connection :: bool where
  "failed_join_reply_does_not_count_a_connection =
     list_all (\<lambda>queued.
       passes (run_sim ((if queued then occupy_initial test_consumer else []) @
                [test_attach ''shared'' test_consumer, test_attach ''shared'' (TestConsumer_failing 1),
                 test_attach ''shared'' test_consumer])) (\<lambda>w.
         leased w ''shared'' (\<lambda>e. conns e = 2 \<and> \<not> sim_cancelled (cancellation e) w) \<and>
         waiters (sim_engine w) = [] \<and> nothing_retiring w)) [False, True]"

definition failed_fresh_reply_returns_the_database :: bool where
  "failed_fresh_reply_returns_the_database =
     list_all (\<lambda>queued.
       passes (run_sim ((if queued then occupy_initial test_consumer else []) @
                [test_attach ''unreachable'' (TestConsumer_failing 1)])) (\<lambda>w.
         not_leased w ''unreachable'' \<and> waiters (sim_engine w) = [] \<and> nothing_retiring w \<and>
         list_ex (\<lambda>db. db_id db = DatabaseId (if queued then 5 else 1)) (stock w) \<and>
         length (sim_messages test_consumer w) = (if queued then 4 else 0))) [False, True]"

lemma failure_tests:
  expired_lease_can_attach_to_a_fresh_database shutdown_cancels_sessions
  transient_creation_failure_recovers_the_waiter failed_join_reply_does_not_count_a_connection
  failed_fresh_reply_returns_the_database
  by (simp_all add: expired_lease_can_attach_to_a_fresh_database_def shutdown_cancels_sessions_def
      transient_creation_failure_recovers_the_waiter_def failed_join_reply_does_not_count_a_connection_def
      failed_fresh_reply_returns_the_database_def sim_eval)

section \<open>Growth\<close>

definition stock_ids :: "Simulation \<Rightarrow> DatabaseId list" where
  "stock_ids w = map db_id (stock w)"

definition growth_adds_a_full_batch :: bool where
  "growth_adds_a_full_batch =
     passes (run_sim [test_attach ''first'' test_consumer, test_attach ''second'' test_consumer,
                      test_attach ''third'' test_consumer]) (\<lambda>w.
       stock_ids w = map DatabaseId [4, 5, 6, 7, 8] \<and> nothing_creating w)"

definition later_growth_recovers_after_submission_failure :: bool where
  "later_growth_recovers_after_submission_failure =
     passes (run_grow [Inl FailedToSendTheMessage, Inr ()]) (\<lambda>w.
       nothing_creating w \<and> length (stock w) = 1 \<and>
       unable_to_start_database_slots (counters (sim_engine w)) = 1 \<and> remaining w = 1 \<and>
       passes (sim_grow w) (\<lambda>w'. stock_ids w' = [DatabaseId 1, DatabaseId 3] \<and> remaining w' = 0))"

definition rejected_submission_stops_the_batch :: bool where
  "rejected_submission_stops_the_batch =
     passes (run_grow [Inl FailedToSendTheMessage, Inl FailedToSendTheMessage, Inl FailedToSendTheMessage]) (\<lambda>w.
       nothing_creating w \<and> length (stock w) = 1 \<and>
       unable_to_start_database_slots (counters (sim_engine w)) = 1 \<and> remaining w = 2)"

definition grow_creates_a_full_batch :: bool where
  "grow_creates_a_full_batch =
     passes (run_grow_with (WorkerEngineConfig_default\<lparr>initial_slots := 1, starvation_threshold := 2,
              grow_batch_size := 2\<rparr>) [Inr ()]) (\<lambda>w.
       stock_ids w = [DatabaseId 1, DatabaseId 2, DatabaseId 3] \<and> nothing_creating w \<and> remaining w = 0)"

definition growth_rounds_a_small_deficit_up :: bool where
  "growth_rounds_a_small_deficit_up =
     passes (run_grow_with (WorkerEngineConfig_default\<lparr>initial_slots := 3, starvation_threshold := 4,
              grow_batch_size := 4\<rparr>) [Inr ()]) (\<lambda>w.
       length (stock w) = 7 \<and> last (stock_ids w) = DatabaseId 7 \<and> nothing_creating w \<and> remaining w = 0)"

definition growth_is_unnecessary_above_the_threshold :: bool where
  "growth_is_unnecessary_above_the_threshold =
     passes (run_grow_with (WorkerEngineConfig_default\<lparr>initial_slots := 4, starvation_threshold := 3,
              grow_batch_size := 4\<rparr>) []) (\<lambda>w.
       length (stock w) = 4 \<and> nothing_creating w \<and> remaining w = 0)"

lemma growth_tests:
  growth_adds_a_full_batch later_growth_recovers_after_submission_failure rejected_submission_stops_the_batch
  grow_creates_a_full_batch growth_rounds_a_small_deficit_up growth_is_unnecessary_above_the_threshold
  by (simp_all add: growth_adds_a_full_batch_def later_growth_recovers_after_submission_failure_def
      rejected_submission_stops_the_batch_def grow_creates_a_full_batch_def growth_rounds_a_small_deficit_up_def
      growth_is_unnecessary_above_the_threshold_def stock_ids_def sim_eval)

end
