(* ===== verification/Simulator_Properties.thy ===== *)
theory Simulator_Properties
  imports Engine_Tests Engine_Creations
begin

text \<open>
  Every simulation ends, and it ends with nobody waiting and nothing under creation: a failed
  creation is asked for again, a successful one makes no new work, and whoever waits is covered by a
  creation whose result is still in the inbox.
\<close>

section \<open>The workers of a simulation\<close>

definition failing_io :: "sim_io \<Rightarrow> bool" where
  "failing_io io \<longleftrightarrow> (case io of FailingIO fails before pushed \<Rightarrow> True | _ \<Rightarrow> False)"

text \<open>The failures that are still to come.\<close>

definition failures_left :: "sim_io \<Rightarrow> nat" where
  "failures_left io =
     (case io of FailingIO fails before pushed \<Rightarrow> if fails \<and> pushed < before then 1 else 0 | _ \<Rightarrow> 0)"

definition unfulfilled :: "'c EngineMessage list \<Rightarrow> nat" where
  "unfulfilled msgs = length (filter (\<lambda>msg. \<not> fulfilled msg) msgs)"

definition result_in :: "'c EngineMessage list \<Rightarrow> DatabaseId \<Rightarrow> bool" where
  "result_in msgs d \<longleftrightarrow> (\<exists>r. DatabaseWorker (CreationFinished d r) \<in> set msgs)"

lemma unfulfilled_simps [simp]:
  "unfulfilled [] = 0" "unfulfilled (msg # msgs) = (if fulfilled msg then 0 else 1) + unfulfilled msgs"
  "unfulfilled (msgs @ msgs') = unfulfilled msgs + unfulfilled msgs'"
  by (simp_all add: unfulfilled_def)

lemma result_in_simps [simp]:
  "\<not> result_in [] d"
  "result_in (DatabaseWorker (CreationFinished d' r) # msgs) d \<longleftrightarrow> d' = d \<or> result_in msgs d"
  "result_in (msgs @ msgs') d \<longleftrightarrow> result_in msgs d \<or> result_in msgs' d"
  by (auto simp: result_in_def)

text \<open>
  The workers answer the creations \<open>D\<close>, by results at the end of the inbox, and use up the failure that
  they report.
\<close>

definition worked :: "DatabaseId set \<Rightarrow> Simulation \<Rightarrow> Simulation \<Rightarrow> bool" where
  "worked D w w' \<longleftrightarrow> sim_engine w' = sim_engine w \<and> failing_io (sim_io w') \<and>
     (\<exists>rs. sim_inbox w' = sim_inbox w @ rs \<and> Shutdown \<notin> set rs \<and> (\<forall>d \<in> D. result_in rs d) \<and>
        unfulfilled rs + failures_left (sim_io w') \<le> failures_left (sim_io w))"

lemma worked_refl: "failing_io (sim_io w) \<Longrightarrow> worked {} w w"
  by (simp add: worked_def)

lemma worked_trans: "worked D w w1 \<Longrightarrow> worked D' w1 w' \<Longrightarrow> worked (D \<union> D') w w'"
proof -
  assume a: "worked D w w1" "worked D' w1 w'"
  obtain rs rs' where "sim_inbox w1 = sim_inbox w @ rs" "sim_inbox w' = sim_inbox w1 @ rs'"
    "Shutdown \<notin> set rs" "Shutdown \<notin> set rs'" "\<forall>d \<in> D. result_in rs d" "\<forall>d \<in> D'. result_in rs' d"
    "unfulfilled rs + failures_left (sim_io w1) \<le> failures_left (sim_io w)"
    "unfulfilled rs' + failures_left (sim_io w') \<le> failures_left (sim_io w1)"
    using a by (auto simp: worked_def)
  then show ?thesis using a unfolding worked_def by (intro conjI exI [of _ "rs @ rs'"]) auto
qed

lemma failing_creations_answer:
  assumes "failing_io (sim_io w)" "batch_fits request" "set is \<subseteq> {..<amount request}"
  shows "\<exists>w'. failing_creations request is w = Inr w' \<and> worked (batch_id request ` set is) w w'"
  using assms(1,3)
proof (induction "is" arbitrary: w)
  case Nil
  then show ?case by (simp add: worked_refl)
next
  case (Cons i rest)
  obtain fails before pushed where io: "sim_io w = FailingIO fails before pushed"
    using Cons.prems(1) by (auto simp: failing_io_def split: sim_io.splits)
  have d: "database_id request i = Inr (batch_id request i)"
    using database_id_Inr [OF assms(2)] Cons.prems(2) by simp
  obtain r n where r: "(if fails \<and> pushed + 1 = before
      then (Inl (OperationFailed ''injected creation failure''), sim_sequence w)
      else (case generate_sequential_name (sim_template w) (sim_sequence w) of (name, n) \<Rightarrow> (Inr name, n))) = (r, n)"
    by (rule prod.exhaust)
  define w1 where "w1 = send_sim_message (DatabaseWorker (CreationFinished (batch_id request i) r))
      (w\<lparr>sim_sequence := n, sim_io := FailingIO fails before (pushed + 1)\<rparr>)"
  have step: "failing_creations request (i # rest) w = failing_creations request rest w1"
    using r by (simp add: io d w1_def)
  have "worked {batch_id request i} w w1"
    using r unfolding worked_def
    by (intro conjI exI [of _ "[DatabaseWorker (CreationFinished (batch_id request i) r)]"])
      (auto simp: w1_def send_sim_message_def failing_io_def failures_left_def io fulfilled_def
        split: if_splits prod.splits)
  moreover have "failing_io (sim_io w1)" by (simp add: w1_def send_sim_message_def failing_io_def)
  ultimately show ?case using Cons.IH [of w1] Cons.prems(2) worked_trans step by fastforce
qed

lemma sim_perform_answers:
  assumes "failing_io (sim_io w)" "is_order k \<longrightarrow> order_ok env k" "creations_accepted env"
  shows "\<exists>w'. sim_perform k w = Inr w' \<and> worked (set_mset (order_ids k)) w w'"
proof (cases k)
  case (RequestCreation request sent)
  then have request: "sent" "batch_fits request" using assms(2,3) by (auto simp: order_ok_def creations_accepted_def)
  have "sim_perform k w = failing_creations request [0..<amount request] w"
    using assms(1) RequestCreation by (auto simp: sim_perform_def sim_request_creation_def failing_io_def split: sim_io.splits)
  with failing_creations_answer [OF assms(1) request(2), of "[0..<amount request]"] show ?thesis
    using RequestCreation request(1) by (auto simp: request_ids_def atLeast0LessThan)
next
  case (RequestCleanup request sent)
  with assms(1) show ?thesis
    by (simp add: sim_perform_def sim_request_cleanup_def send_sim_message_def worked_def fulfilled_def)
qed (use assms(1) in \<open>simp_all add: sim_perform_def worked_def\<close>)

lemma sim_performs_answers:
  assumes "failing_io (sim_io w)" "list_all (order_ok env) (filter is_order ks)" "creations_accepted env"
  shows "\<exists>w'. sim_performs ks w = Inr w' \<and> worked (set_mset (ordered ks)) w w'"
  using assms(1,2)
proof (induction ks arbitrary: w)
  case Nil
  then show ?case by (simp add: worked_refl)
next
  case (Cons k ks)
  obtain w1 where w1: "sim_perform k w = Inr w1" "worked (set_mset (order_ids k)) w w1"
    using sim_perform_answers [OF Cons.prems(1) _ assms(3), of k] Cons.prems(2) by (auto split: if_splits)
  then have "failing_io (sim_io w1)" by (simp add: worked_def)
  with Cons.IH [of w1] Cons.prems(2) obtain w' where
    "sim_performs ks w1 = Inr w'" "worked (set_mset (ordered ks)) w1 w'" by (auto split: if_splits)
  with w1 worked_trans [OF w1(2)] show ?case by simp
qed

text \<open>Without a request nothing is answered.\<close>

lemma sim_performs_talk:
  assumes "list_all (\<lambda>k. \<not> is_job k) ks"
  shows "\<exists>bs. sim_performs ks w = Inr (w\<lparr>sim_buffers := bs\<rparr>)"
  using assms
proof (induction ks arbitrary: w)
  case Nil
  show ?case by (intro exI [of _ "sim_buffers w"]) simp
next
  case (Cons k ks)
  have "\<exists>bs. sim_perform k w = Inr (w\<lparr>sim_buffers := bs\<rparr>)"
    using Cons.prems by (cases k) (auto simp: sim_perform_def is_job_def intro: exI [of _ "sim_buffers w"])
  then obtain bs where k: "sim_perform k w = Inr (w\<lparr>sim_buffers := bs\<rparr>)" ..
  obtain bs' where "sim_performs ks (w\<lparr>sim_buffers := bs\<rparr>) = Inr (w\<lparr>sim_buffers := bs, sim_buffers := bs'\<rparr>)"
    using Cons.IH [of "w\<lparr>sim_buffers := bs\<rparr>"] Cons.prems by auto
  with k show ?case by (intro exI [of _ bs']) simp
qed

section \<open>Turns\<close>

text \<open>The surroundings of a simulation whose workers answer everything.\<close>

definition free_env :: "TestConsumer env" where
  "free_env = \<lparr>accepts = (\<lambda>c msg. \<not> fail_send c), creation_open = (\<lambda>request. True), cleanup_open = (\<lambda>request. True),
     timer_ok = (\<lambda>l g. True), elapsed_ms = (\<lambda>t. test_now - t)\<rparr>"

lemma sim_env_free: "failing_io (sim_io w) \<Longrightarrow> sim_env w = free_env"
  by (auto simp: sim_env_def free_env_def TestConsumer_reply_def accepts_creation_def failing_io_def fun_eq_iff split: sim_io.splits)

lemma free_env_accepts: "creations_accepted free_env"
  by (simp add: creations_accepted_def free_env_def)

text \<open>Every database under creation has its result in the inbox.\<close>

definition working :: "WorkerEngineConfig \<Rightarrow> Simulation \<Rightarrow> bool" where
  "working cfg w \<longleftrightarrow> settled_inv (sim_engine w) \<and> config (sim_engine w) = cfg \<and>
     quiescent free_env (sim_engine w) \<and> failing_io (sim_io w) \<and>
     (\<forall>d. d |\<in>| creating (inventory (sim_engine w)) \<longrightarrow> result_in (sim_inbox w) d)"

text \<open>What is still to be done: the messages that make new work, then all of them.\<close>

definition duties :: "Simulation \<Rightarrow> nat \<times> nat" where
  "duties w = (unfulfilled (sim_inbox w) + failures_left (sim_io w), length (sim_inbox w))"

lemma under_way_handled:
  assumes "settled_inv s" "handle_message env msg s = Inr (go, s')"
    and "orders s' = orders s @ filter is_order ks" "d |\<in>| creating (inventory s')"
  shows "d \<in># ordered ks \<or> d |\<in>| creating (inventory s) \<and> \<not> result_in [msg] d"
proof -
  have eq: "pending s' + reported msg (creating (inventory s)) = pending s + ordered ks"
    using tracks_handle_message [OF assms(1,2)] assms(3) by (auto simp: tracks_def ordered_filter)
  from arg_cong [OF this, of "\<lambda>M. count M d"] assms(4)
  show ?thesis
    by (cases "d \<in># ordered ks")
      (auto simp: pending_def reported_def result_in_def count_mset_set' not_in_iff split: if_splits)
qed

text \<open>One message: the engine handles it, and the workers answer what it asks for.\<close>

lemma engine_working:
  assumes "working cfg w" "handle_message free_env msg (sim_engine w) = Inr (go, e)"
  shows "go \<or> msg = Shutdown" "settled_inv e" "config e = cfg" "quiescent free_env e"
    "list_all (order_ok free_env) (filter is_order (drop (length (calls (sim_engine w))) (calls e)))"
    "orders e = orders (sim_engine w) @ filter is_order (drop (length (calls (sim_engine w))) (calls e))"
proof -
  let ?s = "sim_engine w"
  have s: "settled_inv ?s" "config ?s = cfg" "quiescent free_env ?s" using assms(1) by (simp_all add: working_def)
  show "go \<or> msg = Shutdown"
    using assms(2) by (auto simp: handle_message_def bind_res_eq_Inr split: EngineMessage.splits)
  show e: "settled_inv e" "config e = cfg"
    using outcome_InrD [OF settled_inv_handle_message [OF s(1)] assms(2)] config_handle_message [OF s(1) assms(2)] s(2)
    by simp_all
  show "quiescent free_env e"
    using supplied_handle_message [OF s(1) assms(2) _ free_env_accepts] s(2,3) e(2) by (auto simp: quiescent_def)
  obtain ks where ks: "calls e = calls ?s @ ks" using extends_handle_message [OF assms(2)] by (auto simp: adds_def)
  then have o: "orders e = orders ?s @ filter is_order ks" by (simp add: orders_def)
  then show "orders e = orders ?s @ filter is_order (drop (length (calls ?s)) (calls e))" using ks by simp
  show "list_all (order_ok free_env) (filter is_order (drop (length (calls ?s)) (calls e)))"
    using tracks_handle_message [OF s(1) assms(2)] o ks by (auto simp: tracks_def)
qed

abbreviation exhausted :: "sim_panic \<Rightarrow> bool" where
  "exhausted p \<equiv> p = EnginePanic DatabaseIdentityExhausted \<or> p = EnginePanic LeaseGenerationExhausted"

lemma sim_turn_working:
  assumes "working cfg w" "sim_inbox w = msg # rest"
  shows "outcome exhausted (\<lambda>(go, w'). (go \<or> msg = Shutdown) \<and> working cfg w' \<and>
           (duties w', duties w) \<in> less_than <*lex*> less_than \<and>
           (Shutdown \<in> set (sim_inbox w') \<longrightarrow> Shutdown \<in> set rest)) (sim_turn msg (w\<lparr>sim_inbox := rest\<rparr>))"
proof -
  let ?s = "sim_engine w" and ?w = "w\<lparr>sim_inbox := rest\<rparr>"
  have w: "settled_inv ?s" "failing_io (sim_io w)" "sim_env ?w = free_env" "quiescent free_env ?s"
    using assms(1) by (simp_all add: working_def sim_env_free)
  show ?thesis
  proof (cases "handle_message free_env msg ?s")
    case (Inl q)
    with settled_inv_handle_message [OF w(1), of free_env msg] w(3) show ?thesis
      by (auto simp: sim_turn_def exhaustion_def)
  next
    case (Inr x)
    obtain go e where h: "handle_message free_env msg ?s = Inr (go, e)" using Inr by (cases x) simp
    note e = engine_working [OF assms(1) h]
    define ks where "ks = drop (length (calls ?s)) (calls e)"
    obtain w' where w': "sim_performs ks (?w\<lparr>sim_engine := e\<rparr>) = Inr w'"
      "worked (set_mset (ordered ks)) (?w\<lparr>sim_engine := e\<rparr>) w'"
      using sim_performs_answers [OF _ e(5) free_env_accepts, of "?w\<lparr>sim_engine := e\<rparr>"] w(2) by (auto simp: ks_def)
    then obtain rs where rs: "sim_engine w' = e" "failing_io (sim_io w')" "sim_inbox w' = rest @ rs" "Shutdown \<notin> set rs"
      "\<forall>d. d \<in># ordered ks \<longrightarrow> result_in rs d" "unfulfilled rs + failures_left (sim_io w') \<le> failures_left (sim_io w)"
      by (auto simp: worked_def)
    have turn: "sim_turn msg ?w = Inr (go, w')" using h w(3) w'(1) by (simp add: sim_turn_def sim_adopt_def ks_def)
    have "result_in (sim_inbox w') d" if "d |\<in>| creating (inventory e)" for d
      using under_way_handled [OF w(1) h e(6) that] rs(3,5) assms by (auto simp: ks_def working_def result_in_def)
    then have "working cfg w'" using e rs(1,2) by (simp add: working_def)
    moreover have "(duties w', duties w) \<in> less_than <*lex*> less_than"
    proof (cases "fulfilled msg")
      case False
      with rs(3,6) assms(2) show ?thesis by (simp add: duties_def)
    next
      case True
      have "list_all (\<lambda>k. \<not> is_job k) ks"
        using fulfilled_handled(2) [OF w(1,4) True h] by (auto simp: adds_def ks_def)
      from sim_performs_talk [OF this, of "?w\<lparr>sim_engine := e\<rparr>"] w'(1)
      have "sim_inbox w' = rest" "sim_io w' = sim_io w" by auto
      with assms(2) True show ?thesis by (simp add: duties_def)
    qed
    ultimately show ?thesis using e(1) rs(3,4) by (simp add: turn)
  qed
qed

section \<open>Runs\<close>

lemma pump_working:
  assumes "working cfg w"
  shows "\<exists>r. pump w = Some r \<and> outcome exhausted
           (\<lambda>w'. working cfg w' \<and> (Shutdown \<in> set (sim_inbox w) \<or> sim_inbox w' = [])) r"
  using assms
proof (induction w rule: wf_induct_rule [OF wf_inv_image [OF wf_lex_prod [OF wf_less_than wf_less_than], of duties]])
  case (1 w)
  show ?case
  proof (cases "sim_inbox w")
    case Nil
    then have "pump w = Some (Inr w)" by (subst pump.simps) simp
    with Nil 1 show ?thesis by simp
  next
    case (Cons msg rest)
    note turn = sim_turn_working [OF 1(2) Cons]
    show ?thesis
    proof (cases "sim_turn msg (w\<lparr>sim_inbox := rest\<rparr>)")
      case (Inl p)
      then have "pump w = Some (Inl p)" using Cons by (subst pump.simps) simp
      with Inl turn show ?thesis by auto
    next
      case (Inr x)
      obtain go w' where x: "x = (go, w')" by (cases x)
      have w': "go \<or> msg = Shutdown" "working cfg w'" "(w', w) \<in> inv_image (less_than <*lex*> less_than) duties"
        "Shutdown \<in> set (sim_inbox w') \<Longrightarrow> Shutdown \<in> set rest"
        using turn unfolding Inr x by (auto simp: in_inv_image)
      have p: "pump w = (if go then pump w' else Some (Inr w'))" using Cons Inr x by (subst pump.simps) simp
      obtain r where "pump w' = Some r" "outcome exhausted
          (\<lambda>w''. working cfg w'' \<and> (Shutdown \<in> set (sim_inbox w') \<or> sim_inbox w'' = [])) r"
        using 1(1) [OF w'(3,2)] by blast
      then have "\<exists>r. pump w' = Some r \<and> outcome exhausted
          (\<lambda>w''. working cfg w'' \<and> (Shutdown \<in> set (sim_inbox w) \<or> sim_inbox w'' = [])) r"
        using w'(4) Cons by (auto elim!: outcome_mono)
      with p w'(1,2) Cons show ?thesis by (cases go) simp_all
    qed
  qed
qed

lemma sim_start_working:
  obtains w where "sim_start (FailingIO fails before 0) cfg msgs = Inr w" "working cfg w" "sim_inbox w = msgs"
proof -
  let ?n = "unat (initial_slots cfg)" and ?create = "initial_databases ''pgtest''"
  have reports: "reports_initial ?create cfg" by (auto simp: reports_once_def initial_databases_def comp_def image_image)
  obtain r e where init: "try_init ?create (WorkerEngine_new cfg) = Inr (r, e)" "settled_inv (e :: TestConsumer WorkerEngine)"
    using settled_inv_try_init [where create = ?create and cfg = cfg, OF reports] by blast
  with booted_queue [OF init(1)] booted_creating [OF reports init(1)] that show thesis
    by (simp add: sim_start_def working_def quiescent_def supplied_def failing_io_def)
qed

lemma working_done:
  assumes "working cfg w" "sim_inbox w = []"
  shows "creating (inventory (sim_engine w)) = {||}"
    and "0 < unat (grow_batch_size cfg) \<Longrightarrow> waiters (sim_engine w) = []"
proof -
  let ?s = "sim_engine w"
  show none: "creating (inventory ?s) = {||}" using assms(1,2) by (auto simp: working_def)
  assume batch: "0 < unat (grow_batch_size cfg)"
  then have s: "settled_inv ?s" "supplied free_env ?s" "unat (grow_batch_size (config ?s)) \<noteq> 0"
    using assms(1) by (auto simp: working_def quiescent_def)
  have "group_waiters ?s = fmempty \<Longrightarrow> waiters ?s = []" using s(1) by (auto simp: settled_inv_def engine_inv_def queue_inv_def)
  moreover have "ready (inventory ?s) \<noteq> []" if "growth_target free_env ?s \<le> supply_len (inventory ?s)"
    using that none by (auto simp: growth_target_def supply_len_def)
  ultimately show "waiters ?s = []" using s by (auto simp: supplied_def settled_inv_def queue_settled_def)
qed

text \<open>
  C20: every simulation ends, and it serves everyone it can. Whatever messages the inbox holds at the
  beginning and whichever creation fails, the loop of the engine returns, and it panics only when a
  64-bit counter is exhausted. Unless it was told to shut down, the inbox is then empty and nothing
  is under creation; when growth is not disabled by a batch size of zero besides, no client waits.
\<close>

theorem simulation_serves_everyone:
  "\<exists>r. run_simulation (FailingIO fails before 0) msgs cfg = Some r \<and>
       (case r of
          Inl p \<Rightarrow> p = EnginePanic DatabaseIdentityExhausted \<or> p = EnginePanic LeaseGenerationExhausted
        | Inr w \<Rightarrow>
            (Shutdown \<notin> set msgs \<longrightarrow>
               sim_inbox w = [] \<and> creating (inventory (sim_engine w)) = {||} \<and>
               (0 < unat (grow_batch_size cfg) \<longrightarrow> waiters (sim_engine w) = [])))"
proof -
  obtain w where w: "sim_start (FailingIO fails before 0) cfg msgs = Inr w" "working cfg w" "sim_inbox w = msgs"
    by (rule sim_start_working)
  obtain r where r: "pump w = Some r" "outcome exhausted
      (\<lambda>w'. working cfg w' \<and> (Shutdown \<in> set (sim_inbox w) \<or> sim_inbox w' = [])) r"
    using pump_working [OF w(2)] by blast
  then have "run_simulation (FailingIO fails before 0) msgs cfg = Some r" using w(1) by (simp add: run_simulation_def)
  with r(2) w(3) working_done show ?thesis by (auto simp: outcome_def split: sum.splits)
qed

text \<open>A client waits for the first database of all, whose creation fails once: it gets the second.\<close>

theorem simulation_serves_everyone_witness:
  "\<exists>w. run_simulation (FailingIO True 1 0) [AttachOrJoin (LeaseId ''waiting'') (TestConsumer_new 0) test_now]
          (WorkerEngineConfig_default\<lparr>initial_slots := 0, starvation_threshold := 0, grow_batch_size := 1\<rparr>) = Some (Inr w) \<and>
       leased w ''waiting'' (\<lambda>e. db_id (database e) = DatabaseId 2) \<and> template_create_failures (counters (sim_engine w)) = 1 \<and>
       waiters (sim_engine w) = [] \<and> creating (inventory (sim_engine w)) = {||}"
proof -
  let ?cfg = "WorkerEngineConfig_default\<lparr>initial_slots := 0, starvation_threshold := 0, grow_batch_size := 1\<rparr>"
  let ?msgs = "[AttachOrJoin (LeaseId ''waiting'') (TestConsumer_new 0) test_now]"
  obtain w where w: "run_simulation (FailingIO True 1 0) ?msgs ?cfg = Some (Inr w)"
    "leased w ''waiting'' (\<lambda>e. db_id (database e) = DatabaseId 2)" "template_create_failures (counters (sim_engine w)) = 1"
    using failure_tests(3)
    by (auto simp: transient_creation_failure_recovers_the_waiter_def run_with_failing_pg_def passes_def
        test_attach_def test_consumer_def split: option.splits sum.splits)
  have "Shutdown \<notin> set ?msgs" "0 < unat (grow_batch_size ?cfg)" by simp_all
  with simulation_serves_everyone [of True 1 ?msgs ?cfg] w show ?thesis by auto
qed

end
