(* ===== verification/Data_Tests.thy ===== *)
theory Data_Tests
  imports Inventory Database_Name Connection
begin

text \<open>
  Unit tests of lease identifiers, database names, the inventory and the database field (lease_id.rs,
  database_name.rs, database_inventory.rs, connection.rs): each test is a definition that says whether its assertions
  hold, and a lemma that they do.
\<close>

section \<open>Lease identifiers\<close>

text \<open>The UTF-8 bytes of two characters of the tests.\<close>

definition e_acute :: string where
  "e_acute = [CHR 0xC3, CHR 0xA9]"

definition snow_sign :: string where
  "snow_sign = [CHR 0xE9, CHR 0x9B, CHR 0xAA]"

definition repeat :: "nat \<Rightarrow> string \<Rightarrow> string" where
  "repeat n s = concat (replicate n s)"

definition accepts_lease :: "string \<Rightarrow> bool" where
  "accepts_lease v = (case LeaseId_new v of Inl e \<Rightarrow> False | Inr l \<Rightarrow> lease_str l = v)"

definition validates_utf8_byte_boundaries_and_forbidden_characters :: bool where
  "validates_utf8_byte_boundaries_and_forbidden_characters =
     (list_all (\<lambda>v. LeaseId_new v = Inl InvalidLeaseId)
        ['''', repeat 257 ''a'', repeat 129 e_acute, repeat 128 e_acute @ ''a'', ''a/b'', ''a'' @ [NUL] @ ''b''] \<and>
      list_all accepts_lease
        [''a'', repeat 256 ''a'', repeat 128 e_acute, '' Mixed Case '' @ [CHR 0x27] @ '' '' @ snow_sign @ '' ''])"

definition accepts_read_strings_and_supports_borrowed_map_lookup :: bool where
  "accepts_read_strings_and_supports_borrowed_map_lookup =
     (case LeaseId_new ''shared'' of
        Inl e \<Rightarrow> False
      | Inr lease \<Rightarrow>
          LeaseId_new ''shared'' = Inr lease \<and>
          (let leases = [lease \<mapsto> 42 :: nat] in
           leases lease = Some 42 \<and> leases (LeaseId ''shared'') = Some 42 \<and> lease_str lease = ''shared''))"

lemma length_repeat [simp]: "length (repeat n s) = n * length s"
  by (simp add: repeat_def length_concat sum_list_replicate)

lemma set_repeat: "set (repeat n s) \<subseteq> set s"
  by (auto simp: repeat_def)

lemma accepts_lease_iff: "accepts_lease v \<longleftrightarrow> valid_lease_str v"
  by (auto simp: accepts_lease_def LeaseId_new_def valid_lease_str_def Suc_le_eq split: sum.splits)

lemma lease_id_tests:
  validates_utf8_byte_boundaries_and_forbidden_characters
  accepts_read_strings_and_supports_borrowed_map_lookup
proof -
  have "valid_lease_str (repeat 256 ''a'')" "valid_lease_str (repeat 128 e_acute)"
    using set_repeat [of 256 "''a''"] set_repeat [of 128 e_acute] by (auto simp: valid_lease_str_def e_acute_def NUL_def)
  then show validates_utf8_byte_boundaries_and_forbidden_characters
    by (simp add: validates_utf8_byte_boundaries_and_forbidden_characters_def accepts_lease_iff)
      (simp add: valid_lease_str_def e_acute_def snow_sign_def NUL_def)
qed (simp add: accepts_read_strings_and_supports_borrowed_map_lookup_def LeaseId_new_def NUL_def)

section \<open>Database names\<close>

definition rsplit_once :: "char \<Rightarrow> string \<Rightarrow> (string \<times> string) option" where
  "rsplit_once c s =
     (case split_once c (rev s) of None \<Rightarrow> None | Some (b, a) \<Rightarrow> Some (rev a, rev b))"

definition ascii_alphabetic :: "char \<Rightarrow> bool" where
  "ascii_alphabetic c \<longleftrightarrow>
     65 \<le> (of_char c :: nat) \<and> (of_char c :: nat) \<le> 90 \<or> 97 \<le> (of_char c :: nat) \<and> (of_char c :: nat) \<le> 122"

text \<open>The loop of the test, for one template and the random draws of the two names.\<close>

definition generated_name_checked :: "(nat \<Rightarrow> nat) \<Rightarrow> (nat \<Rightarrow> nat) \<Rightarrow> string \<Rightarrow> bool" where
  "generated_name_checked draw draw' template =
     (let names = PostgresDatabaseName_new draw template;
          generated = generate_database_name draw' names
      in length generated \<le> 63 \<and> name names = template \<and>
         (case rsplit_once (CHR ''_'') generated of
            None \<Rightarrow> False
          | Some (prefix, suffix) \<Rightarrow>
              length suffix = 32 \<and> list_all ascii_alphabetic suffix \<and>
              (case rsplit_once (CHR ''_'') prefix of
                 None \<Rightarrow> False
               | Some (truncated, discriminator) \<Rightarrow>
                   take (length truncated) template = truncated \<and> length truncated \<le> 25 \<and> length discriminator = 4)))"

definition truncate_never_underflows_and_fits_identifier :: "(nat \<Rightarrow> nat) \<Rightarrow> (nat \<Rightarrow> nat) \<Rightarrow> bool" where
  "truncate_never_underflows_and_fits_identifier draw draw' =
     (length (truncate_name draw (repeat 40 ''a'')) = 30 \<and>
      truncate_name draw ''pgtest'' = ''pgtest'' \<and>
      truncate_name draw (repeat 25 ''b'') = repeat 25 ''b'' \<and>
      list_all (generated_name_checked draw draw') [repeat 26 ''a'', repeat 63 ''a'', repeat 21 snow_sign])"

lemma rsplit_once_append: "c \<notin> set b \<Longrightarrow> rsplit_once c (a @ c # b) = Some (a, b)"
proof -
  assume "c \<notin> set b"
  then have "split_once c (rev b @ c # rev a) = Some (rev b, rev a)" by (simp add: split_once_Some)
  then show ?thesis by (simp add: rsplit_once_def)
qed

lemma charset_alphabetic: "list_all ascii_alphabetic CHARSET"
  by (simp add: CHARSET_def ascii_alphabetic_def)

lemma draws_alphabetic:
  assumes "draws_in_range draw"
  shows "list_all ascii_alphabetic (map (\<lambda>i. CHARSET ! draw i) is)" "CHR ''_'' \<notin> set (map (\<lambda>i. CHARSET ! draw i) is)"
proof -
  have letter: "ascii_alphabetic (CHARSET ! draw i)" for i
    using assms charset_alphabetic by (simp add: draws_in_range_def list_all_length)
  have "\<not> ascii_alphabetic (CHR ''_'')" by (simp add: ascii_alphabetic_def)
  then have "CHR ''_'' \<noteq> CHARSET ! draw i" for i using letter [of i] by metis
  with letter show "list_all ascii_alphabetic (map (\<lambda>i. CHARSET ! draw i) is)"
    "CHR ''_'' \<notin> set (map (\<lambda>i. CHARSET ! draw i) is)"
    by (auto simp: list_all_iff)
qed

lemma long_name_checked:
  assumes "25 < length template" "draws_in_range draw" "draws_in_range draw'"
  shows "generated_name_checked draw draw' template"
proof -
  let ?b = "back_to_boundary template MAX_PREFIX_LEN"
  have b: "?b \<le> 25" using back_to_boundary_le [of template MAX_PREFIX_LEN] by (simp add: MAX_PREFIX_LEN_def GENERATED_ID_LEN_def)
  note id = draws_alphabetic [OF assms(3), of "[0..<GENERATED_ID_LEN]", folded generate_id_def]
  note test = draws_alphabetic [OF assms(2), of "[0..<4]", folded generate_parallel_test_id_def]
  have n: "truncate_name draw template = take ?b template @ CHR ''_'' # generate_parallel_test_id draw"
    using assms(1) by (simp add: truncate_name_def MAX_PREFIX_LEN_def GENERATED_ID_LEN_def)
  have g: "generate_database_name draw' (PostgresDatabaseName_new draw template) =
      (take ?b template @ CHR ''_'' # generate_parallel_test_id draw) @ CHR ''_'' # generate_id draw'"
    by (simp add: generate_database_name_def PostgresDatabaseName_new_def n)
  have len: "length (generate_id draw') = 32" "length (generate_parallel_test_id draw) = 4"
    by (simp_all add: generate_id_def generate_parallel_test_id_def GENERATED_ID_LEN_def)
  show ?thesis
    unfolding generated_name_checked_def Let_def g rsplit_once_append [OF id(2)]
    using b id(1) len assms(1) rsplit_once_append [OF test(2), of "take ?b template"]
    by (simp add: PostgresDatabaseName_new_def min_def)
qed

lemma database_name_tests:
  assumes "draws_in_range draw" "draws_in_range draw'"
  shows "truncate_never_underflows_and_fits_identifier draw draw'"
proof -
  have "is_char_boundary (repeat 40 ''a'') 25"
    by (simp add: is_char_boundary_def repeat_def continuation_def)
  then have "back_to_boundary (repeat 40 ''a'') 25 = 25" by (simp add: back_to_boundary.simps)
  then have "length (truncate_name draw (repeat 40 ''a'')) = 30"
    by (simp add: truncate_name_def MAX_PREFIX_LEN_def GENERATED_ID_LEN_def generate_parallel_test_id_def)
  then show ?thesis
    using long_name_checked [OF _ assms] unfolding truncate_never_underflows_and_fits_identifier_def
    by (simp add: truncate_name_def MAX_PREFIX_LEN_def GENERATED_ID_LEN_def snow_sign_def)
qed

section \<open>The inventory\<close>

definition reserves_ranges_without_reusing_cancelled_ids :: bool where
  "reserves_ranges_without_reusing_cancelled_ids =
     (let iv = DatabaseInventory_default in
      reserve_creations 0 iv = Inr (None, iv) \<and>
      (case reserve_creations 3 iv of
         Inr (Some batch, iv1) \<Rightarrow>
           first_database_id batch = DatabaseId 1 \<and> fcard (creating iv1) = 3 \<and>
           (case fold (\<lambda>index (ok, iv). case database_id batch index of
                    Inl p \<Rightarrow> (False, iv)
                  | Inr d \<Rightarrow> (let (removed, iv') = cancel_creation d iv in (ok \<and> removed, iv')))
                  [0..<amount batch] (True, iv1) of
              (all_removed, iv2) \<Rightarrow>
                all_removed \<and>
                (case reserve_creations 2 iv2 of
                   Inr (Some next_batch, iv3) \<Rightarrow>
                     first_database_id next_batch = DatabaseId 4 \<and> database_id next_batch 1 = Inr (DatabaseId 5)
                 | _ \<Rightarrow> False))
       | _ \<Rightarrow> False))"

text \<open>A panic leaves the inventory as it was, since the model returns no other.\<close>

definition overflowing_range_does_not_partially_reserve_ids :: bool where
  "overflowing_range_does_not_partially_reserve_ids =
     (let iv = DatabaseInventory_default\<lparr>next_database_id := 18446744073709551614\<rparr> in
      isl (reserve_creations 2 iv) \<and> creating iv = {||} \<and> next_database_id iv = 18446744073709551614 \<and>
      reserve_creations 0 iv = Inr (None, iv) \<and>
      (case reserve_creations 1 iv of
         Inr (Some batch, iv1) \<Rightarrow> first_database_id batch = DatabaseId 18446744073709551615
       | _ \<Rightarrow> False))"

lemma inventory_tests:
  reserves_ranges_without_reusing_cancelled_ids overflowing_range_does_not_partially_reserve_ids
  by (simp_all add: reserves_ranges_without_reusing_cancelled_ids_def overflowing_range_does_not_partially_reserve_ids_def
      reserve_creations_def cancel_creation_def database_id_def u64_try_from_def checked_add_def
      DatabaseInventory_default_def Let_def upt_rec eval_simps)

section \<open>The database field\<close>

definition connection_field_validates_lease_ids :: bool where
  "connection_field_validates_lease_ids =
     (parse_connection_field ''template'' = Inl InvalidFormat \<and>
      (case parse_connection_field ''template/'' of Inl (FieldInvalidLeaseId e) \<Rightarrow> True | _ \<Rightarrow> False) \<and>
      list_all (\<lambda>input. isl (parse_connection_field input))
        ['''', ''template'', ''/lease'', ''template/'', ''template/a/b'', ''template/a'' @ [NUL] @ ''b''] \<and>
      isl (parse_connection_field (''template/'' @ repeat 257 ''a'')) \<and>
      list_all (\<lambda>v. case parse_connection_field (''template/'' @ v) of
            Inl e \<Rightarrow> False
          | Inr (db, lease) \<Rightarrow> db = ''template'' \<and> lease_str lease = v)
        ['' Mixed Case '' @ snow_sign @ '' '', repeat 128 e_acute])"

lemma parse_field:
  "CHR ''/'' \<notin> set db \<Longrightarrow> db \<noteq> [] \<Longrightarrow> CHR ''/'' \<notin> set v \<Longrightarrow>
     parse_connection_field (db @ CHR ''/'' # v) =
       (case LeaseId_new v of Inl e \<Rightarrow> Inl (FieldInvalidLeaseId e) | Inr l \<Rightarrow> Inr (db, l))"
  using split_once_Some [of "CHR ''/''" "db @ CHR ''/'' # v" db v] by (simp add: parse_connection_field_def)

lemma connection_field_tests: connection_field_validates_lease_ids
proof -
  have field: "''template/'' @ v = ''template'' @ CHR ''/'' # v" for v by simp
  have long: "isl (parse_connection_field (''template/'' @ repeat 257 ''a''))"
    using set_repeat [of 257 "''a''"] unfolding field by (subst parse_field) (auto simp: LeaseId_new_def)
  have "valid_lease_str (repeat 128 e_acute)" "valid_lease_str ('' Mixed Case '' @ snow_sign @ '' '')"
    using set_repeat [of 128 e_acute] by (auto simp: valid_lease_str_def e_acute_def snow_sign_def NUL_def)
  moreover have "parse_connection_field (''template/'' @ v) = Inr (''template'', LeaseId v)" if "valid_lease_str v" for v
  proof -
    have "CHR ''/'' \<notin> set v" "LeaseId_new v = Inr (LeaseId v)" using that by (simp_all add: valid_lease_str_def)
    then show ?thesis unfolding field by (subst parse_field) (simp_all del: LeaseId_new_Inr)
  qed
  ultimately have fields: "parse_connection_field (''template/'' @ repeat 128 e_acute) = Inr (''template'', LeaseId (repeat 128 e_acute))"
    "parse_connection_field (''template/'' @ '' Mixed Case '' @ snow_sign @ '' '') =
       Inr (''template'', LeaseId ('' Mixed Case '' @ snow_sign @ '' ''))" by blast+
  show ?thesis
    unfolding connection_field_validates_lease_ids_def list.pred_inject fields
    using long by (simp add: parse_connection_field_def split_once_def LeaseId_new_def NUL_def)
qed

end
