(* ===== verification/Wire_Tests.thy ===== *)
theory Wire_Tests
  imports Postgres_Upstream Listeners
begin

text \<open>
  Unit tests of the start-up with PostgreSQL (crates/pgtest-wire/src/postgres_upstream.rs) and of the
  socket file (unix_listener.rs): each test is a definition that says whether its assertions hold, and a
  lemma that they do for every codec, every environment that behaves as documented.
\<close>

section \<open>The start-up with PostgreSQL\<close>

text \<open>The backend of a test writes its reply two bytes at a time and closes the connection.\<close>

fun chunks_of_two :: "u8 list \<Rightarrow> u8 list list" where
  "chunks_of_two (a # b # rest) = [a, b] # chunks_of_two rest"
| "chunks_of_two [a] = [[a]]"
| "chunks_of_two [] = []"

definition test_params :: "string \<rightharpoonup> string" where
  "test_params = [''user'' \<mapsto> ''postgres'']"

definition connect_with_reply :: "'p codec \<Rightarrow> u8 list \<Rightarrow> 'p UpstreamError + UpstreamSession" where
  "connect_with_reply cd reply =
     connect_upstream cd (\<lambda>address. Inr (map Inr (chunks_of_two reply))) (\<lambda>out. Inr ()) ''test'' test_params ''127.0.0.1'' 5432"

text \<open>
  What the tests rely on of the codec: the parameters of the tests fit into a startup message, an
  authentication message of twelve bytes is within the limit, and the decoder knows the codes 0 and 3 and
  reports 99 by an error.
\<close>

definition pgwire_codec :: "'p codec \<Rightarrow> 'p \<Rightarrow> bool" where
  "pgwire_codec cd invalid_code \<longleftrightarrow>
     \<not> isl (encode_startup cd (test_params(''database'' \<mapsto> ''test''))) \<and>
     12 \<le> max_authentication cd \<and> max_authentication cd < 2147483647 \<and>
     decode_authentication cd [82, 0, 0, 0, 8, 0, 0, 0, 0] = Inr (Some True) \<and>
     decode_authentication cd [82, 0, 0, 0, 8, 0, 0, 0, 3] = Inr (Some False) \<and>
     decode_authentication cd [82, 0, 0, 0, 8, 0, 0, 0, 99] = Inl (OtherProtocolError invalid_code)"

definition upstream_failures_keep_their_error_kind :: "'p codec \<Rightarrow> 'p \<Rightarrow> bool" where
  "upstream_failures_keep_their_error_kind cd invalid_code \<longleftrightarrow>
     connect_with_reply cd [] = Inl (Io UnexpectedEof) \<and>
     connect_with_reply cd [88, 0, 0, 0, 4] = Inl (UnexpectedMessage 88) \<and>
     connect_with_reply cd [69, 0, 0, 0, 4] = Inl StartupRejected \<and>
     connect_with_reply cd [82, 0, 0, 0, 8, 0, 0, 0, 3] = Inl UnsupportedAuthentication \<and>
     connect_with_reply cd [82, 0, 0, 0, 8, 0, 0, 0, 99] = Inl (Protocol (OtherProtocolError invalid_code))"

definition malformed_upstream_lengths_return_errors :: "'p codec \<Rightarrow> bool" where
  "malformed_upstream_lengths_return_errors cd =
     (list_all (\<lambda>reply. case connect_with_reply cd reply of Inl (InvalidFrameLength n) \<Rightarrow> True | _ \<Rightarrow> False)
        [[82, 0, 0, 0, 4], [82, 0, 0, 0, 8, 0, 0, 0, 5], [82, 0, 0, 0, 3], [82, 255, 255, 255, 255],
         [82, 0, 0, 0, 8, 0, 0, 0, 0, 90, 0, 0, 0, 3]] \<and>
      (case connect_with_reply cd (82 # be_bytes (max_authentication cd + 1)) of
         Inl (Protocol (MessageTooLarge m n)) \<Rightarrow> True | _ \<Rightarrow> False))"

definition startup_preserves_the_opaque_burst :: "'p codec \<Rightarrow> bool" where
  "startup_preserves_the_opaque_burst cd =
     list_all (\<lambda>burst. case connect_with_reply cd ([82, 0, 0, 0, 8, 0, 0, 0, 0] @ burst) of
                       Inl e \<Rightarrow> False | Inr session \<Rightarrow> session_burst session = burst)
       [[83, 0, 0, 0, 8, 97, 0, 98, 0, 90, 0, 0, 0, 5, 73], [69, 0, 0, 0, 4]]"

text \<open>A parameter that is as long as a whole startup message may be is refused by the encoder.\<close>

definition oversized_startup_returns_the_encoding_error :: "'p codec \<Rightarrow> nat \<Rightarrow> bool" where
  "oversized_startup_returns_the_encoding_error cd max_startup =
     (case authenticate cd (\<lambda>out. Inr ()) ''test'' [''application_name'' \<mapsto> replicate max_startup (CHR ''a'')] [] of
        Inl (Protocol (MessageTooLarge m n)) \<Rightarrow> True | _ \<Rightarrow> False)"

lemma test_startup [simp]: "(forwardable test_params)(''database'' \<mapsto> ''test'') = test_params(''database'' \<mapsto> ''test'')"
  by (auto simp: forwardable_def test_params_def restrict_map_def)

lemma connect_with_reply_eq:
  assumes "pgwire_codec cd x"
  shows "connect_with_reply cd reply =
    (case read_frame 0 (max_authentication cd) [] (map Inr (chunks_of_two reply)) of
         (Inl e, buf, rs1) \<Rightarrow> Inl e
       | (Inr (tag, frame_end), buf, rs1) \<Rightarrow>
           if tag = 82 then
             let len = int frame_end - 1 in
             if len < 8 then Inl (InvalidFrameLength len)
             else let code = from_be_bytes (take 4 (drop 5 buf)) in
                  if code = 5 \<and> len < 12 then Inl (InvalidFrameLength len)
                  else case decode_authentication cd (take frame_end buf) of
                         Inl e \<Rightarrow> Inl (Protocol e)
                       | Inr None \<Rightarrow> Inl (InvalidFrameLength len)
                       | Inr (Some ok) \<Rightarrow>
                           if ok then
                             (case wait_for_ready_for_query (drop frame_end buf) rs1 of
                                (Inl e, buf, rs2) \<Rightarrow> Inl e
                              | (Inr burst, buf, rs2) \<Rightarrow> Inr \<lparr>upstream_reads = rs2, session_burst = burst\<rparr>)
                           else Inl UnsupportedAuthentication
           else if tag = 69 then Inl StartupRejected
           else Inl (UnexpectedMessage tag))"
  using assms
  by (cases "encode_startup cd (test_params(''database'' \<mapsto> ''test''))")
    (auto simp: connect_with_reply_def connect_upstream_def connect_stream_def authenticate_def send_startup_def
      pgwire_codec_def Let_def bind_res_def split: sum.splits prod.splits option.splits)

lemma failure_kind_tests:
  assumes "pgwire_codec cd x"
  shows "upstream_failures_keep_their_error_kind cd x"
  using assms unfolding upstream_failures_keep_their_error_kind_def connect_with_reply_eq [OF assms]
  by (simp add: pgwire_codec_def read_frame_def from_be_bytes_def)

lemma malformed_length_tests:
  fixes cd :: "'p codec"
  assumes "pgwire_codec cd x"
  shows "malformed_upstream_lengths_return_errors cd"
proof -
  have m: "12 \<le> max_authentication cd" "max_authentication cd < 2147483647" using assms by (simp_all add: pgwire_codec_def)
  have n: "nat (1 + int k) = Suc k" for k by simp
  have "chunks_of_two (82 # be_bytes n) = [[82, be_bytes n ! 0], [be_bytes n ! 1, be_bytes n ! 2], [be_bytes n ! 3]]" for n
    by (simp add: be_bytes_def)
  then have "read_frame 0 (max_authentication cd) [] (map Inr (chunks_of_two (82 # be_bytes (max_authentication cd + 1)))) =
      (Inl (Protocol (MessageTooLarge (max_authentication cd) (max_authentication cd + 1)) :: 'p UpstreamError), 82 # be_bytes (max_authentication cd + 1), [])"
    using be_bytes_value [of "max_authentication cd + 1"] m
    by (simp add: read_frame_def Let_def) (simp add: be_bytes_def n)
  then have "case connect_with_reply cd (82 # be_bytes (max_authentication cd + 1)) of
         Inl (Protocol (MessageTooLarge m n)) \<Rightarrow> True | _ \<Rightarrow> False"
    by (simp add: connect_with_reply_eq [OF assms])
  moreover have "decode_authentication cd [82, 0, 0, 0, 8, 0, 0, 0, 0] = Inr (Some True)"
    using assms by (simp add: pgwire_codec_def)
  ultimately show ?thesis
    using m unfolding malformed_upstream_lengths_return_errors_def list.pred_inject connect_with_reply_eq [OF assms]
    by (simp add: read_frame_def from_be_bytes_def wait_for_ready_for_query_def wait_frames.simps)
qed

lemma burst_tests:
  assumes "pgwire_codec cd x"
  shows "startup_preserves_the_opaque_burst cd"
  using assms unfolding startup_preserves_the_opaque_burst_def connect_with_reply_eq [OF assms]
  by (simp add: pgwire_codec_def read_frame_def from_be_bytes_def wait_for_ready_for_query_def wait_frames.simps)

lemma oversized_startup_tests:
  assumes "\<And>params v. params ''application_name'' = Some v \<Longrightarrow> max_startup \<le> length v \<Longrightarrow>
      \<exists>m n. encode_startup cd params = Inl (MessageTooLarge m n)"
  shows "oversized_startup_returns_the_encoding_error cd max_startup"
proof -
  let ?params = "(forwardable [''application_name'' \<mapsto> replicate max_startup (CHR ''a'')])(''database'' \<mapsto> ''test'')"
  obtain m n where "encode_startup cd ?params = Inl (MessageTooLarge m n)"
    using assms [of ?params "replicate max_startup (CHR ''a'')"] by (auto simp: forwardable_def)
  then show ?thesis by (simp add: oversized_startup_returns_the_encoding_error_def authenticate_def send_startup_def)
qed

text \<open>A codec for which the hypotheses hold.\<close>

definition toy_codec :: "nat codec" where
  "toy_codec = \<lparr>encode_startup = (\<lambda>params. case params ''application_name'' of
       Some v \<Rightarrow> if 10000 \<le> length v then Inl (MessageTooLarge 10000 (length v)) else Inr [] | None \<Rightarrow> Inr []),
     decode_authentication = (\<lambda>b. if last b = 0 then Inr (Some True) else if last b = 3 then Inr (Some False)
       else Inl (OtherProtocolError 99)),
     max_authentication = 4096\<rparr>"

lemma toy_codec_tests:
  "upstream_failures_keep_their_error_kind toy_codec 99" "malformed_upstream_lengths_return_errors toy_codec"
  "startup_preserves_the_opaque_burst toy_codec" "oversized_startup_returns_the_encoding_error toy_codec 10000"
proof -
  have "pgwire_codec toy_codec 99" by (simp add: pgwire_codec_def toy_codec_def test_params_def)
  then show "upstream_failures_keep_their_error_kind toy_codec 99" "malformed_upstream_lengths_return_errors toy_codec"
    "startup_preserves_the_opaque_burst toy_codec"
    by (rule failure_kind_tests malformed_length_tests burst_tests)+
  show "oversized_startup_returns_the_encoding_error toy_codec 10000"
    by (rule oversized_startup_tests) (auto simp: toy_codec_def)
qed

section \<open>The socket file\<close>

text \<open>The directory of a test exists and is its own canonical path; a node that is no socket is a regular file.\<close>

definition test_socket_env :: "'io \<Rightarrow> u64 \<times> u64 \<Rightarrow> 'io socket_env" where
  "test_socket_env in_use node =
     \<lparr>canonicalize = Inr, address_in_use = in_use, new_socket = (\<lambda>path. Inr node), metadata_error = None, remove_works = True\<rparr>"

definition regular_file :: "u64 \<Rightarrow> u64 \<Rightarrow> inode" where
  "regular_file d i = \<lparr>is_socket = False, dev = d, ino = i\<rparr>"

definition connectable :: "string \<Rightarrow> fs \<Rightarrow> bool" where
  "connectable path fs = (case fs path of None \<Rightarrow> False | Some node \<Rightarrow> is_socket node)"

definition failed_second_bind_preserves_the_live_socket :: "'io socket_env \<Rightarrow> string \<Rightarrow> bool" where
  "failed_second_bind_preserves_the_live_socket env directory =
     (case BoundUnixListener_bind env directory 6432 Map.empty of
        (Inl e, fs1) \<Rightarrow> False
      | (Inr listener, fs1) \<Rightarrow>
          (case BoundUnixListener_bind env directory 6432 fs1 of
             (r, fs2) \<Rightarrow> isl r \<and> connectable (socket_path listener) fs2 \<and>
                         SocketFile_drop env listener fs2 (socket_path listener) = None))"

definition existing_regular_file_is_not_overwritten :: "'io socket_env \<Rightarrow> string \<Rightarrow> inode \<Rightarrow> bool" where
  "existing_regular_file_is_not_overwritten env directory file =
     (let path = join_path directory ''.s.PGSQL.6432'' in
      case BoundUnixListener_bind env directory 6432 [path \<mapsto> file] of
        (r, fs1) \<Rightarrow> isl r \<and> fs1 path = Some file)"

definition dropping_listener_preserves_a_replacement_path :: "'io socket_env \<Rightarrow> string \<Rightarrow> inode \<Rightarrow> bool" where
  "dropping_listener_preserves_a_replacement_path env directory file =
     (case BoundUnixListener_bind env directory 6432 Map.empty of
        (Inl e, fs1) \<Rightarrow> False
      | (Inr listener, fs1) \<Rightarrow>
          (let path = socket_path listener;
               fs2 = (fs1(path := None))(path \<mapsto> file)
           in SocketFile_drop env listener fs2 path = Some file))"

lemma socket_file_tests:
  "failed_second_bind_preserves_the_live_socket (test_socket_env in_use node) directory"
  "existing_regular_file_is_not_overwritten (test_socket_env in_use node) directory (regular_file d i)"
  "dropping_listener_preserves_a_replacement_path (test_socket_env in_use node) directory (regular_file d i)"
proof -
  have port: "show_nat 6432 = ''6432''" by (simp add: show_nat.simps char_of_def bit_simps)
  show "failed_second_bind_preserves_the_live_socket (test_socket_env in_use node) directory"
    "existing_regular_file_is_not_overwritten (test_socket_env in_use node) directory (regular_file d i)"
    "dropping_listener_preserves_a_replacement_path (test_socket_env in_use node) directory (regular_file d i)"
    by (cases node; simp add: failed_second_bind_preserves_the_live_socket_def existing_regular_file_is_not_overwritten_def
        dropping_listener_preserves_a_replacement_path_def BoundUnixListener_bind_def bind_path_def symlink_metadata_def
        SocketFile_drop_def connectable_def test_socket_env_def regular_file_def port Let_def)+
qed

end
