(* ===== verification/Manager_Tests.thy ===== *)
theory Manager_Tests
  imports Engine_Simulator Manager_Properties
begin

text \<open>
  Unit tests of the manager (crates/pgtest-core/src/worker_manager.rs): each test is a definition that
  says whether its assertions hold, and a lemma that they do. A test awaits one task after the other, so
  that it is one interleaving of the steps of the manager. PostgreSQL is a source of names; assertions on
  its contents and on stack sizes are left out.
\<close>

section \<open>Managers\<close>

text \<open>\<open>names\<close> are the databases that PostgreSQL creates, in order.\<close>

definition no_growth_config :: "u16 \<Rightarrow> WorkerEngineConfig" where
  "no_growth_config slots =
     WorkerEngineConfig_default\<lparr>initial_slots := slots, grow_batch_size := 0, lease_claim_timeout_ms := 30000\<rparr>"

definition start_test_manager ::
  "PostgresManager \<Rightarrow> (nat \<Rightarrow> string) \<Rightarrow> WorkerEngineConfig \<Rightarrow> WorkerEngineManager option" where
  "start_test_manager client names cfg =
     (case try_init (\<lambda>n. map (\<lambda>i. (i, Inr (names i))) [0..<n]) (WorkerEngine_new cfg) of
        Inr (Inr u, engine) \<Rightarrow>
          Some \<lparr>worker_inbox = [], pg_client = client, lease_claim_timeout = lease_claim_timeout_ms cfg,
                engine_handle = engine, engine_running = True, unread = [], receivers = fmempty, next_channel = 0,
                sessions = [], creation_channel = [], creation_worker = True, cleanup_channel = [],
                cleanup_worker = True, timers = [], creation_jobs = [], cleanup_jobs = [], shutdown_token = False,
                clock = 0, handled = []\<rparr>
      | _ \<Rightarrow> None)"

definition start_with_deferred_workers :: "PostgresManager \<Rightarrow> (nat \<Rightarrow> string) \<Rightarrow> WorkerEngineManager option" where
  "start_with_deferred_workers client names =
     start_test_manager client names
       (WorkerEngineConfig_default\<lparr>initial_slots := 1, starvation_threshold := 0, grow_batch_size := 1\<rparr>)"

text \<open>The engine handles what the inbox holds.\<close>

fun engine_turns :: "nat \<Rightarrow> WorkerEngineManager \<Rightarrow> WorkerEngineManager option" where
  "engine_turns 0 w = Some w"
| "engine_turns (Suc n) w = (case engine_turn w of Inl p \<Rightarrow> None | Inr w' \<Rightarrow> engine_turns n w')"

definition sync_inbox :: "WorkerEngineManager \<Rightarrow> WorkerEngineManager option" where
  "sync_inbox w = engine_turns (length (worker_inbox w)) w"

text \<open>Every task ends after the shutdown token is cancelled; a clean-up that has not begun is dropped.\<close>

definition stop_tasks :: "WorkerEngineManager \<Rightarrow> WorkerEngineManager" where
  "stop_tasks w =
     (timer_stop 0 ^^ length (timers w)) (cleanup_worker_turn (creation_worker_turn (\<lambda>request. []) w))"

definition drain_and_snapshot :: "WorkerEngineManager \<Rightarrow> ConsumerWorker WorkerEngine option" where
  "drain_and_snapshot w =
     Option.bind (sync_inbox w) (\<lambda>w1.
     Option.bind (sync_inbox (stop_tasks (begin_shutdown w1))) (\<lambda>w2.
       if \<not> tracker_empty w2 then None
       else Option.bind (sync_inbox (finish_shutdown w2)) (\<lambda>w3. Some (engine_handle w3))))"

text \<open>An attachment that is awaited while the engine runs.\<close>

definition test_template :: "WorkerEngineManager \<Rightarrow> string" where
  "test_template w = name (template_database_name (pg_client w))"

definition attach_now ::
  "string \<Rightarrow> LeaseId \<Rightarrow> WorkerEngineManager \<Rightarrow> ((AttachError + LeaseSession) poll \<times> WorkerEngineManager) option" where
  "attach_now database_name lease w =
     (case attach_request database_name lease w of
        (Inl e, w1) \<Rightarrow> Some (Ready (Inl e), w1)
      | (Inr ch, w1) \<Rightarrow> map_option (attach_await ch) (sync_inbox w1))"

definition attach_session ::
  "string \<Rightarrow> WorkerEngineManager \<Rightarrow> (LeaseSession \<times> WorkerEngineManager) option" where
  "attach_session lease w =
     (case attach_now (test_template w) (LeaseId lease) w of
        Some (Ready (Inr session), w1) \<Rightarrow> Some (session, w1)
      | _ \<Rightarrow> None)"

text \<open>An attachment that has to wait: the channel of its reply.\<close>

definition enqueue_attach :: "string \<Rightarrow> WorkerEngineManager \<Rightarrow> (nat \<times> WorkerEngineManager) option" where
  "enqueue_attach lease w =
     (case attach_request (test_template w) (LeaseId lease) w of
        (Inl e, w1) \<Rightarrow> None
      | (Inr ch, w1) \<Rightarrow>
          Option.bind (sync_inbox w1) (\<lambda>w2.
            case attach_await ch w2 of (Pending, w3) \<Rightarrow> Some (ch, w3) | _ \<Rightarrow> None))"

text \<open>
  The double of the creation worker: it answers one identity at a time, from the batch it took last or
  else from the next request of the channel.
\<close>

definition deliver_creation ::
  "string \<Rightarrow> DatabaseId list \<Rightarrow> WorkerEngineManager \<Rightarrow> (DatabaseId list \<times> WorkerEngineManager) option" where
  "deliver_creation database_name pending_ids w =
     Option.bind
       (if pending_ids \<noteq> [] then Some (pending_ids, w)
        else case creation_channel w of
               [] \<Rightarrow> None
             | request # rest \<Rightarrow>
                 (case map_res (database_id request) [0..<amount request] of
                    Inl p \<Rightarrow> None | Inr ids \<Rightarrow> Some (ids, w\<lparr>creation_channel := rest\<rparr>)))
       (\<lambda>(ids, w1). case ids of
          [] \<Rightarrow> None
        | d # rest \<Rightarrow>
            map_option (Pair rest) (sync_inbox (post [DatabaseWorker (CreationFinished d (Inr database_name))] w1)))"

definition holds_in :: "'a option \<Rightarrow> ('a \<Rightarrow> bool) \<Rightarrow> bool" where
  "holds_in r P = (case r of None \<Rightarrow> False | Some x \<Rightarrow> P x)"

definition fails :: "('e + 'a) poll \<Rightarrow> bool" where
  "fails r = (case r of Ready (Inl e) \<Rightarrow> True | _ \<Rightarrow> False)"

definition lease_conns :: "'c WorkerEngine \<Rightarrow> string \<Rightarrow> u16 option" where
  "lease_conns e l = map_option conns (fmlookup (leases e) (LeaseId l))"

section \<open>Sessions\<close>

definition immediate_available_manager :: "PostgresManager \<Rightarrow> (nat \<Rightarrow> string) \<Rightarrow> bool" where
  "immediate_available_manager client names =
     holds_in (start_test_manager client names WorkerEngineConfig_default) (\<lambda>w.
       holds_in (sync_inbox (finish_shutdown (stop_tasks (begin_shutdown w)))) (\<lambda>w1. \<not> engine_running w1))"

definition last_session_dropped_keeps_the_database :: "PostgresManager \<Rightarrow> (nat \<Rightarrow> string) \<Rightarrow> bool" where
  "last_session_dropped_keeps_the_database client names =
     holds_in (start_test_manager client names (WorkerEngineConfig_default\<lparr>lease_claim_timeout_ms := 5000\<rparr>)) (\<lambda>w.
     holds_in (attach_session ''connection1'' w) (\<lambda>(session, w1).
     holds_in (drain_and_snapshot (end_session 0 w1)) (\<lambda>snapshot.
       lease_conns snapshot ''connection1'' = Some 0 \<and> fcard (fmdom (leases snapshot)) = 1 \<and>
       length (ready (inventory snapshot)) = unat (initial_slots WorkerEngineConfig_default - 1))))"

definition dropped_session_is_not_tracked :: "PostgresManager \<Rightarrow> (nat \<Rightarrow> string) \<Rightarrow> bool" where
  "dropped_session_is_not_tracked client names =
     holds_in (start_test_manager client names (WorkerEngineConfig_default\<lparr>lease_claim_timeout_ms := 5000\<rparr>)) (\<lambda>w.
     holds_in (attach_session ''connection1'' w) (\<lambda>(kept, w1).
     holds_in (attach_session ''connection1'' w1) (\<lambda>(session, w2).
     holds_in (drain_and_snapshot (end_session 1 w2)) (\<lambda>snapshot.
       lease_conns snapshot ''connection1'' = Some 1 \<and> fcard (fmdom (leases snapshot)) = 1 \<and>
       length (ready (inventory snapshot)) = unat (initial_slots WorkerEngineConfig_default - 1)))))"

definition attach_unknown_template_rejected :: "PostgresManager \<Rightarrow> (nat \<Rightarrow> string) \<Rightarrow> bool" where
  "attach_unknown_template_rejected client names =
     holds_in (start_test_manager client names WorkerEngineConfig_default) (\<lambda>w.
     holds_in (attach_now ''not_the_template'' (LeaseId ''connection1'') w) (\<lambda>(result, w1).
       fails result \<and> holds_in (drain_and_snapshot w1) (\<lambda>snapshot. fcard (fmdom (leases snapshot)) = 0)))"

definition attach_times_out_without_free_slots :: "PostgresManager \<Rightarrow> (nat \<Rightarrow> string) \<Rightarrow> bool" where
  "attach_times_out_without_free_slots client names =
     holds_in (start_test_manager client names (WorkerEngineConfig_default
       \<lparr>initial_slots := 0, grow_batch_size := 0, lease_claim_timeout_ms := 100\<rparr>)) (\<lambda>w.
     holds_in (enqueue_attach ''connection1'' w) (\<lambda>(ch, w1).
       fst (attach_await ch (w1\<lparr>clock := clock w1 + 99\<rparr>)) = Pending \<and>
       (case attach_await ch (w1\<lparr>clock := clock w1 + 100\<rparr>) of
          (result, w2) \<Rightarrow>
            fails result \<and>
            holds_in (drain_and_snapshot w2) (\<lambda>snapshot.
              fcard (fmdom (leases snapshot)) = 0 \<and> waiters snapshot = [LeaseId ''connection1'']))))"

lemmas manager_test_eval = start_test_manager_def start_with_deferred_workers_def WorkerEngineConfig_default_def
  no_growth_config_def sync_inbox_def stop_tasks_def drain_and_snapshot_def test_template_def attach_now_def
  attach_session_def enqueue_attach_def deliver_creation_def holds_in_def fails_def lease_conns_def
  begin_shutdown_def finish_shutdown_def tracker_empty_def creation_worker_turn_def cleanup_worker_turn_def
  timer_stop_def timer_cancelled_def is_cancelled_def remove_at_def drop_session_def drop_receiver_def drop_reply_def
  attach_await_def attach_limit_def poll_receiver_def take_reply_def sender_alive_def message_channel_def
  end_session_def send_delayed_message_def
  attach_request_def send_message_def post_def engine_turn_def env_of_def request_creation_def request_cleanup_def
  perform_def reply_def LeaseSession_new_def

lemma session_tests:
  "immediate_available_manager client names" "last_session_dropped_keeps_the_database client names"
  "dropped_session_is_not_tracked client names"
  by (simp_all add: immediate_available_manager_def last_session_dropped_keeps_the_database_def
      dropped_session_is_not_tracked_def manager_test_eval engine_eval)

lemma rejection_tests:
  "name (template_database_name client) \<noteq> ''not_the_template'' \<Longrightarrow> attach_unknown_template_rejected client names"
  "attach_times_out_without_free_slots client names"
  by (simp_all add: attach_unknown_template_rejected_def attach_times_out_without_free_slots_def
      manager_test_eval engine_eval)

section \<open>Creations while clients wait\<close>

text \<open>The lease that holds the only database ends: its session is dropped and its time is over.\<close>

definition end_holder :: "WorkerEngineManager \<Rightarrow> WorkerEngineManager" where
  "end_holder w = post [LeaseMaxTimeReached (LeaseId ''holder'') 1] (end_session 0 w)"

definition creation_after_attach_timeout_leaves_the_new_database_ready ::
  "PostgresManager \<Rightarrow> (nat \<Rightarrow> string) \<Rightarrow> string \<Rightarrow> bool" where
  "creation_after_attach_timeout_leaves_the_new_database_ready client names fresh =
     holds_in (start_with_deferred_workers client names) (\<lambda>w.
     holds_in (attach_session ''holder'' w) (\<lambda>(session, w1).
     holds_in (enqueue_attach ''timed_out'' (w1\<lparr>lease_claim_timeout := 100\<rparr>)) (\<lambda>(ch, w2).
       fst (attach_await ch (w2\<lparr>clock := clock w2 + 99\<rparr>)) = Pending \<and>
       (case attach_await ch (w2\<lparr>clock := clock w2 + 100\<rparr>) of
          (result, w3) \<Rightarrow>
            fails result \<and>
            holds_in (deliver_creation fresh [] (end_holder w3)) (\<lambda>(pending_ids, w4).
            holds_in (drain_and_snapshot w4) (\<lambda>snapshot.
              fcard (fmdom (leases snapshot)) = 0 \<and> waiters snapshot = [] \<and>
              length (ready (inventory snapshot)) = 1 \<and> db_name (ready (inventory snapshot) ! 0) = fresh \<and>
              fresh \<noteq> session_database_name session \<and> fcard (fmdom (retiring (inventory snapshot))) = 1))))))"

definition queued_attach_receives_creation_while_cleanup_is_pending ::
  "PostgresManager \<Rightarrow> (nat \<Rightarrow> string) \<Rightarrow> string \<Rightarrow> bool" where
  "queued_attach_receives_creation_while_cleanup_is_pending client names fresh =
     holds_in (start_with_deferred_workers client names) (\<lambda>w.
     holds_in (attach_session ''holder'' w) (\<lambda>(session, w1).
     holds_in (enqueue_attach ''waiting'' w1) (\<lambda>(ch, w2).
     holds_in (deliver_creation fresh [] (end_holder w2)) (\<lambda>(pending_ids, w3).
       case attach_await ch w3 of
         (Ready (Inr received_session), w4) \<Rightarrow>
           session_database_name received_session = fresh \<and>
           holds_in (drain_and_snapshot w4) (\<lambda>snapshot.
             waiters snapshot = [] \<and> lease_conns snapshot ''holder'' = None \<and>
             fcard (fmdom (leases snapshot)) = 1 \<and> lease_conns snapshot ''waiting'' = Some 1 \<and>
             map_option (db_name \<circ> database) (fmlookup (leases snapshot) (LeaseId ''waiting'')) =
               Some (session_database_name received_session) \<and>
             fcard (fmdom (retiring (inventory snapshot))) = 1 \<and> ready (inventory snapshot) = [])
       | _ \<Rightarrow> False))))"

definition creation_skips_a_cancelled_attach ::
  "PostgresManager \<Rightarrow> (nat \<Rightarrow> string) \<Rightarrow> string \<Rightarrow> bool" where
  "creation_skips_a_cancelled_attach client names fresh =
     holds_in (start_with_deferred_workers client names) (\<lambda>w.
     holds_in (attach_session ''holder'' w) (\<lambda>(session, w1).
     holds_in (enqueue_attach ''cancelled'' w1) (\<lambda>(ch, w2).
     holds_in (deliver_creation fresh [] (end_holder (drop_receiver ch w2))) (\<lambda>(pending_ids, w3).
       clock w3 < clock w + 30000 \<and>
       holds_in (drain_and_snapshot w3) (\<lambda>snapshot.
         fcard (fmdom (leases snapshot)) = 0 \<and> waiters snapshot = [] \<and>
         db_name (ready (inventory snapshot) ! 0) = fresh \<and> fresh \<noteq> session_database_name session \<and>
         length (ready (inventory snapshot)) = 1)))))"

lemma creation_tests:
  "fresh \<noteq> names 0 \<Longrightarrow> creation_after_attach_timeout_leaves_the_new_database_ready client names fresh"
  "queued_attach_receives_creation_while_cleanup_is_pending client names fresh"
  "fresh \<noteq> names 0 \<Longrightarrow> creation_skips_a_cancelled_attach client names fresh"
  by (simp_all add: creation_after_attach_timeout_leaves_the_new_database_ready_def end_holder_def
      queued_attach_receives_creation_while_cleanup_is_pending_def creation_skips_a_cancelled_attach_def
      manager_test_eval engine_eval)

section \<open>Shutdown\<close>

definition closed_inbox_fails_the_caller :: "PostgresManager \<Rightarrow> (nat \<Rightarrow> string) \<Rightarrow> bool" where
  "closed_inbox_fails_the_caller client names =
     holds_in (start_test_manager client names (no_growth_config 0)) (\<lambda>w.
     holds_in (sync_inbox (post [Shutdown] w)) (\<lambda>w1.
       \<not> engine_running w1 \<and>
       holds_in (attach_now (test_template w1) (LeaseId ''after_shutdown'') w1) (\<lambda>(result, w2).
         tracker_empty (stop_tasks (begin_shutdown w2)) \<and> fails result)))"

text \<open>The delayed message of the test is a parameter; its token is not cancelled.\<close>

definition pending_delayed_message_is_cancelled_by_shutdown ::
  "PostgresManager \<Rightarrow> (nat \<Rightarrow> string) \<Rightarrow> ConsumerWorker EngineMessage \<Rightarrow> u64 \<Rightarrow> bool" where
  "pending_delayed_message_is_cancelled_by_shutdown client names msg g =
     holds_in (start_test_manager client names (no_growth_config 0)) (\<lambda>w.
       case send_delayed_message msg 60000 (ChildToken g) w of
         (r, w1) \<Rightarrow>
           \<not> isl r \<and> length (timers w1) = length (timers w) + 1 \<and> worker_inbox w1 = [] \<and>
           (let w2 = stop_tasks (begin_shutdown w1) in
            tracker_empty w2 \<and>
            holds_in (sync_inbox (finish_shutdown w2)) (\<lambda>w3. \<not> engine_running w3 \<and> handled w3 = [Shutdown])))"

lemma shutdown_tests:
  "closed_inbox_fails_the_caller client names" "pending_delayed_message_is_cancelled_by_shutdown client names msg g"
  by (simp_all add: closed_inbox_fails_the_caller_def pending_delayed_message_is_cancelled_by_shutdown_def
      manager_test_eval engine_eval)

end
