(* ===== verification/Control_Tests.thy ===== *)
theory Control_Tests
  imports Control_Panel
begin

text \<open>
  The unit tests of the control panel (statement.rs and protocol.rs of
  crates/pgtest-wire/src/control_panel): each test is a definition that says whether its assertions
  hold, and a lemma that they do.
\<close>

section \<open>Queries\<close>

text \<open>
  A query as it is written in a test, with a few characters spelled otherwise: a backquote stands for a
  single quote, a hash for a double quote, a tilde for a tab, a caret for a carriage return and a bar
  for a line feed.
\<close>

definition spelled :: "string \<Rightarrow> string" where
  "spelled = map (\<lambda>c. if c = CHR ''`'' then QUOTE else if c = CHR ''#'' then CHR 0x22
                      else if c = CHR ''~'' then CHR 0x09 else if c = CHR ''^'' then CHR 0x0D
                      else if c = CHR ''|'' then CHR 0x0A else c)"

definition parses_to :: "PgTestQueryTypeControlStatement \<Rightarrow> string \<Rightarrow> bool" where
  "parses_to statement query \<longleftrightarrow> parse_control (spelled query) = Inr statement"

definition is_refused :: "string \<Rightarrow> bool" where
  "is_refused query \<longleftrightarrow> isl (parse_control (spelled query))"

definition parse_valid_ping_queries :: bool where
  "parse_valid_ping_queries = parses_to Ping ''SELECT 1''"

definition parse_valid_ping_queries_with_trailing_semicolon :: bool where
  "parse_valid_ping_queries_with_trailing_semicolon = parses_to Ping ''select 1;''"

definition parse_valid_ping_queries_with_intercalate_new_line :: bool where
  "parse_valid_ping_queries_with_intercalate_new_line = parses_to Ping ''SELECT|            1''"

definition parse_valid_simple_release_command :: bool where
  "parse_valid_simple_release_command =
     parses_to (Release (Literal ''test-42'')) ''SELECT pgtest_release(`test-42`)''"

definition parse_valid_middle_quote_characters_release_command :: bool where
  "parse_valid_middle_quote_characters_release_command =
     parses_to (Release (Literal (spelled ''suite`s test''))) ''SELECT pgtest_release(`suite``s test`)''"

definition parse_valid_ping_whitespace_and_case_variations :: bool where
  "parse_valid_ping_whitespace_and_case_variations =
     list_all (parses_to Ping) ['' SeLeCt~1 '', ''~SELECT^|1 ;|'', ''SELECT 1~;^|'']"

definition utf8_literal :: string where
  "utf8_literal = ''prueba-'' @ [CHR 0xC3, CHR 0xB1] @ ''-'' @ [CHR 0xF0, CHR 0x9F, CHR 0xA6, CHR 0x80]"

definition parse_valid_release_literals_preserves_and_decodes_the_value :: bool where
  "parse_valid_release_literals_preserves_and_decodes_the_value =
     list_all (\<lambda>(query, expected). parses_to (Release (Literal (spelled expected))) query)
       [(''SELECT pgtest_release(``)'', ''''),
        (''SELECT pgtest_release(`$1`)'', ''$1''),
        (''SELECT pgtest_release(`MiXeD Case`)'', ''MiXeD Case''),
        (''SELECT pgtest_release(`  test-42  `)'', ''  test-42  ''),
        (''SELECT pgtest_release(`'' @ utf8_literal @ ''`)'', utf8_literal),
        (''SELECT pgtest_release(`line|break`)'', ''line|break''),
        (''SELECT pgtest_release(`a``b``c`)'', ''a`b`c''),
        (''SELECT pgtest_release(```test```)'', ''`test`''),
        (''SELECT pgtest_release(``````)'', ''``''),
        (''SELECT pgtest_release(`SELECT 1; DROP DATABASE example;`)'', ''SELECT 1; DROP DATABASE example;'')]"

definition parse_valid_release_whitespace_and_case_variations :: bool where
  "parse_valid_release_whitespace_and_case_variations =
     list_all (parses_to (Release (Literal ''test-42'')))
       ['' select PGTEST_RELEASE(`test-42`); '',
        ''SELECT|pgtest_release(~`test-42`^|) ;'',
        ''SELECT pgtest_release (`test-42`)'',
        ''~SeLeCt^|PgTeSt_ReLeAsE ~( `test-42` ) ;|'']"

definition parse_valid_release_parameters_use_zero_based_index :: bool where
  "parse_valid_release_parameters_use_zero_based_index =
     list_all (parses_to (Release (Parameter 0)))
       [''SELECT pgtest_release($1)'',
        ''SELECT pgtest_release($1::text)'',
        ''select PGTEST_RELEASE($1::TEXT);'',
        ''SELECT pgtest_release( $1 :: text )'',
        ''SELECT pgtest_release($1|::~TeXt);'',
        ''SELECT pgtest_release ( $1::text );'']"

definition parse_rejects_invalid_ping_queries :: bool where
  "parse_rejects_invalid_ping_queries =
     list_all is_refused
       ['''', '' ~^|'', '';'', ''SELECT'', ''SELECT1'', ''SELECT 10'', ''SELECT 01'', ''SELECT 1.0'', ''SELECT 1 extra'',
        ''SELECT 1 + 1'', ''SELECT 1, 1'', ''SELECT `1`'', ''SELECT 1;;'']"

definition parse_rejects_malformed_release_literals :: bool where
  "parse_rejects_malformed_release_literals =
     list_all is_refused
       [''SELECT pgtest_release()'',
        ''SELECT pgtest_release(test-42)'',
        ''SELECT pgtest_release(#test-42#)'',
        ''SELECT pgtest_release(NULL)'',
        ''SELECT pgtest_release(1)'',
        ''SELECT pgtest_release(`unfinished)'',
        ''SELECT pgtest_release(`suite`s test`)'',
        ''SELECT pgtest_release(`test-42```)`'',
        ''SELECT pgtest_release(`test-42`'',
        ''SELECT pgtest_release `test-42`)'',
        ''SELECT pgtest_release(`a`, `b`)'',
        ''SELECT pgtest_release(`a` `b`)'',
        ''SELECT pgtest_release(`test-42`))'',
        ''SELECT pgtest_release(`test-42`);;'']"

definition parse_rejects_unsupported_parameters_and_casts :: bool where
  "parse_rejects_unsupported_parameters_and_casts =
     list_all is_refused
       [''SELECT pgtest_release($0)'',
        ''SELECT pgtest_release($2)'',
        ''SELECT pgtest_release($10)'',
        ''SELECT pgtest_release($01)'',
        ''SELECT pgtest_release($-1)'',
        ''SELECT pgtest_release($ 1)'',
        ''SELECT pgtest_release($1::)'',
        ''SELECT pgtest_release($1::varchar)'',
        ''SELECT pgtest_release($1::integer)'',
        ''SELECT pgtest_release($1::text_extra)'',
        ''SELECT pgtest_release($1::text::text)'',
        ''SELECT pgtest_release($1, $2)'']"

definition parse_rejects_other_commands_and_trailing_sql :: bool where
  "parse_rejects_other_commands_and_trailing_sql =
     list_all is_refused
       [''BEGIN'',
        ''COMMIT'',
        ''DROP DATABASE example'',
        ''SELECT other_function(`test-42`)'',
        ''SELECTpgtest_release(`test-42`)'',
        ''SELECT pgtest_release_extra(`test-42`)'',
        ''SELECT 1; SELECT 1'',
        ''SELECT pgtest_release(`test-42`); SELECT 1'',
        ''SELECT pgtest_release($1::text); SELECT 1'',
        ''SELECT pgtest_release(`test-42`) trailing'']"

text \<open>An executable form of \<open>lower\<close>, on the bits of the character.\<close>

lemma lower_code [code]:
  "lower (Char b0 b1 b2 b3 b4 b5 b6 b7) =
     (if \<not> b7 \<and> b6 \<and> \<not> b5 \<and> (b0 \<or> b1 \<or> b2 \<or> b3 \<or> b4) \<and> \<not> (b4 \<and> b3 \<and> (b2 \<or> b1 \<and> b0))
      then Char b0 b1 b2 b3 b4 True b6 b7 else Char b0 b1 b2 b3 b4 b5 b6 b7)"
  by (cases b0; cases b1; cases b2; cases b3; cases b4; cases b5; cases b6; cases b7) (simp_all add: lower_def char_of_def bit_simps)

lemma ping_tests:
  parse_valid_ping_queries parse_valid_ping_queries_with_trailing_semicolon
  parse_valid_ping_queries_with_intercalate_new_line parse_valid_ping_whitespace_and_case_variations
  by code_simp+

lemma release_literal_tests:
  parse_valid_simple_release_command parse_valid_middle_quote_characters_release_command
  parse_valid_release_whitespace_and_case_variations
  by code_simp+

lemma release_value_tests: parse_valid_release_literals_preserves_and_decodes_the_value
  by code_simp

lemma release_parameter_tests: parse_valid_release_parameters_use_zero_based_index
  by code_simp

lemma ping_rejection_tests: parse_rejects_invalid_ping_queries
  by code_simp

lemma literal_rejection_tests: parse_rejects_malformed_release_literals
  by code_simp

lemma parameter_rejection_tests: parse_rejects_unsupported_parameters_and_casts
  by code_simp

lemma command_rejection_tests: parse_rejects_other_commands_and_trailing_sql
  by code_simp

section \<open>Lease identifiers of a release\<close>

definition snow :: string where
  "snow = [CHR 0xE9, CHR 0x9B, CHR 0xAA]"

definition rejected_with :: "string \<Rightarrow> 'e PgWireError + LeaseId \<Rightarrow> bool" where
  "rejected_with code r \<longleftrightarrow> (case r of Inl (UserError severity c message) \<Rightarrow> c = code | _ \<Rightarrow> False)"

definition release_lease_validation_preserves_protocol_errors :: "'e itself \<Rightarrow> bool" where
  "release_lease_validation_preserves_protocol_errors errors =
     (list_all (\<lambda>v. rejected_with ''22023'' (parse_lease_id v :: 'e PgWireError + LeaseId))
        ['''', ''a/b'', ''a'' @ [NUL] @ ''b'', replicate 257 (CHR ''a'')] \<and>
      (let v = '' Mixed Case '' @ snow @ '' '' in
       case (parse_lease_id v :: 'e PgWireError + LeaseId) of Inl e \<Rightarrow> False | Inr l \<Rightarrow> lease_str l = v))"

text \<open>
  A portal that binds one parameter in a format; what pgwire decodes from it is a parameter of the test.
\<close>

definition release_parameters_validate_ids_and_preserve_null_error ::
  "(nat \<Rightarrow> string option \<Rightarrow> 'e Portal) \<Rightarrow> bool" where
  "release_parameters_validate_ids_and_preserve_null_error bound =
     list_all (\<lambda>format.
       list_all (\<lambda>(v, error_code).
         let result = resolve_lease_id (Parameter 0) (bound format v) in
         case error_code of
           Some code \<Rightarrow> rejected_with code result
         | None \<Rightarrow> (case result of Inl e \<Rightarrow> False | Inr l \<Rightarrow> Some (lease_str l) = v))
         [(None, Some ''22004''), (Some ''a/b'', Some ''22023''), (Some ('' Mixed Case '' @ snow @ '' ''), None)])
       [0, 1]"

lemma lease_validation_tests: "release_lease_validation_preserves_protocol_errors errors"
  by (simp add: release_lease_validation_preserves_protocol_errors_def rejected_with_def parse_lease_id_def
      LeaseId_new_def NUL_def snow_def release_error_def user_error_def Let_def)

lemma lease_parameter_tests:
  assumes "\<And>format v. portal_parameter (bound format v) 0 TEXT = Inr v"
  shows "release_parameters_validate_ids_and_preserve_null_error bound"
  by (simp add: release_parameters_validate_ids_and_preserve_null_error_def resolve_lease_id_def assms
      rejected_with_def parse_lease_id_def LeaseId_new_def NUL_def snow_def release_error_def user_error_def Let_def)

end
