(* ===== verification/Listener_Tests.thy ===== *)
theory Listener_Tests
  imports Manager_Tests Control_Tests Connection Listeners
begin

text \<open>
  Tests of a running listener (crates/pgtest-wire/src/wire_listener.rs): each test is a definition that
  says whether its assertions hold, and a lemma that they do. The sockets are left out: a client is its
  startup message or its queries, and the codec and the portal store are those of \<^const>\<open>map_pgwire\<close>.
\<close>

section \<open>Handles of a TCP listener\<close>

text \<open>A listener that has accepted the connection number 1, whose session is running.\<close>

definition owned_tcp_shutdown_releases_manager :: "'a \<Rightarrow> bool" where
  "owned_tcp_shutdown_releases_manager address =
     (case run_with_handle (\<lambda>a. Inr a :: unit + 'a) address of
        Inl e \<Rightarrow> False
      | Inr listener \<Rightarrow>
          (let busy = listener\<lparr>tcp_task :=
                 map_option (\<lambda>t. case t of Accepting l \<Rightarrow> Accepting (listen tcp_turn [Arrives (Inr 1), Turn] l) | _ \<Rightarrow> t)
                   (tcp_task listener)\<rparr>
           in map_option manager_clones (tcp_task busy) = Some 2 \<and>
              map_option manager_clones (TcpWireListener_shutdown busy) = Some 0))"

definition dropping_owned_tcp_listener_aborts_its_task :: "'a \<Rightarrow> bool" where
  "dropping_owned_tcp_listener_aborts_its_task address =
     (case run_with_handle (\<lambda>a. Inr a :: unit + 'a) address of
        Inl e \<Rightarrow> False
      | Inr listener \<Rightarrow>
          tcp_local_addr listener = address \<and>
          map_option manager_clones (tcp_task listener) = Some 1 \<and>
          map_option manager_clones (snd (TcpWireListener_drop listener)) = Some 0)"

lemma tcp_handle_tests:
  "owned_tcp_shutdown_releases_manager address" "dropping_owned_tcp_listener_aborts_its_task address"
  by (simp_all add: owned_tcp_shutdown_releases_manager_def dropping_owned_tcp_listener_aborts_its_task_def
      run_with_handle_def TcpWireListener_shutdown_def TcpWireListener_drop_def await_task_def abort_task_def
      manager_clones_def sessions_running_def new_listener_def tcp_turn_def accept_one_def join_next_def joinable_def Let_def)

section \<open>Queries of a control connection\<close>

text \<open>The result of a query, when the manager runs while a release is awaited.\<close>

definition finish_query ::
  "(Response \<Rightarrow> 'a) \<Rightarrow> (unit, 'a) query_state \<times> WorkerEngineManager
     \<Rightarrow> ((unit PgWireError + 'a) \<times> WorkerEngineManager) option" where
  "finish_query k q =
     (case q of
        (Finished r, w) \<Rightarrow> Some (r, w)
      | (AwaitRelease ch format, w) \<Rightarrow>
          Option.bind (sync_inbox w) (\<lambda>w1.
            case panel_resume map_pgwire k ch format w1 of (Finished r, w2) \<Rightarrow> Some (r, w2) | _ \<Rightarrow> None))"

definition simple_query ::
  "string \<Rightarrow> WorkerEngineManager \<Rightarrow> ((unit PgWireError + Response list) \<times> WorkerEngineManager) option" where
  "simple_query query w = finish_query (\<lambda>r. [r]) (simple_do_query map_pgwire query w)"

text \<open>\<open>query_one\<close> prepares, binds and executes; the messages Parse and Bind name nothing.\<close>

definition prepare_typed ::
  "string \<Rightarrow> u32 list \<Rightarrow> (unit PgWireError + unit) \<times> (string \<rightharpoonup> StoredStatement Entry) \<times> (string \<rightharpoonup> unit Portal Entry)" where
  "prepare_typed query types =
     on_parse map_pgwire (\<lambda>m. Inr ()) \<lparr>parse_name = None, parse_query = query, type_oids = types\<rparr> (Map.empty, Map.empty)"

definition query_one ::
  "string \<Rightarrow> string option list \<Rightarrow> WorkerEngineManager \<Rightarrow> ((unit PgWireError + Response) \<times> WorkerEngineManager) option" where
  "query_one query parameters w =
     (case prepare_typed query [] of
        (Inl e, store) \<Rightarrow> Some (Inl e, w)
      | (Inr u, store) \<Rightarrow>
          (case on_bind map_pgwire (\<lambda>m. Inr ())
                  \<lparr>bind_portal_name = None, bind_statement_name = None, parameter_format_codes = [],
                   bind_parameters = map (map_option (map (\<lambda>c. of_char c))) parameters,
                   result_column_format_codes = []\<rparr> store of
             (Inl e, store1) \<Rightarrow> Some (Inl e, w)
           | (Inr u, store1) \<Rightarrow>
               (case get_portal map_pgwire store1 ''default'' of
                  Some (EntryValue portal) \<Rightarrow> finish_query (\<lambda>r. r) (extended_do_query map_pgwire portal w)
                | _ \<Rightarrow> None)))"

definition is_row :: "string \<Rightarrow> u8 list \<Rightarrow> Response \<Rightarrow> bool" where
  "is_row column row r = (case r of QueryResponse schema rows \<Rightarrow> map field_name schema = [column] \<and> rows = [row])"

definition has_row :: "string \<Rightarrow> u8 list \<Rightarrow> unit PgWireError + Response \<Rightarrow> bool" where
  "has_row column row result = (case result of Inl e \<Rightarrow> False | Inr r \<Rightarrow> is_row column row r)"

definition has_code :: "string \<Rightarrow> unit PgWireError + 'a \<Rightarrow> bool" where
  "has_code code result = (case result of Inl (UserError severity c message) \<Rightarrow> c = code | _ \<Rightarrow> False)"

definition simple_rows :: "WorkerEngineManager \<Rightarrow> (WorkerEngineManager \<Rightarrow> bool) \<Rightarrow> bool" where
  "simple_rows w next \<longleftrightarrow>
     holds_in (simple_query ''SELECT 1'' w) (\<lambda>(r, w1).
       (case r of Inr [x] \<Rightarrow> is_row ''?column?'' [49] x | _ \<Rightarrow> False) \<and>
     holds_in (simple_query (spelled ''SELECT pgtest_release(`simple-release`)'') w1) (\<lambda>(r, w2).
       (case r of Inr [x] \<Rightarrow> is_row ''pgtest_release'' [116] x | _ \<Rightarrow> False) \<and> next w2))"

definition extended_rows :: "WorkerEngineManager \<Rightarrow> (WorkerEngineManager \<Rightarrow> bool) \<Rightarrow> bool" where
  "extended_rows w next \<longleftrightarrow>
     holds_in (query_one ''SELECT 1'' [] w) (\<lambda>(r, w1). has_row ''?column?'' [49] r \<and>
     holds_in (query_one (spelled ''SELECT pgtest_release(`extended-release`)'') [] w1) (\<lambda>(r, w2).
       has_row ''pgtest_release'' [116] r \<and>
     holds_in (query_one ''SELECT pgtest_release($1::text)'' [Some ''parameter-release''] w2) (\<lambda>(r, w3).
       has_row ''pgtest_release'' [116] r \<and> next w3)))"

definition refused_queries :: "WorkerEngineManager \<Rightarrow> bool" where
  "refused_queries w \<longleftrightarrow>
     list_all (\<lambda>(query, code). holds_in (simple_query (spelled query) w) (\<lambda>(r, w1). has_code code r))
       [(''SELECT pgtest_release($1)'', ''42P02''), (''SELECT pgtest_release(`a/b`)'', ''22023''),
        (''SELECT 2'', ''0A000'')] \<and>
     list_all (\<lambda>(query, types, code). has_code code (fst (prepare_typed (spelled query) types)))
       [(''SELECT 1'', [25], ''42804''), (''SELECT pgtest_release(`literal`)'', [25], ''42804''),
        (''SELECT pgtest_release($1)'', [23], ''42804''), (''SELECT pgtest_release($1)'', [25, 25], ''0A000'')] \<and>
     list_all (\<lambda>(v, code). holds_in (query_one ''SELECT pgtest_release($1::text)'' [v] w) (\<lambda>(r, w1). has_code code r))
       [(None, ''22004''), (Some ''a/b'', ''22023'')]"

definition assert_control_queries :: "WorkerEngineManager \<Rightarrow> bool" where
  "assert_control_queries control \<longleftrightarrow>
     simple_rows control (\<lambda>w1. extended_rows w1 (\<lambda>w2. refused_queries w2 \<and>
       holds_in (query_one ''SELECT 1'' [] w2) (\<lambda>(r, w3). has_row ''?column?'' [49] r)))"

lemma query_statements:
  "parse_control ''SELECT 1'' = Inr Ping" "parse_control (spelled ''SELECT 1'') = Inr Ping"
  "parse_control (spelled ''SELECT pgtest_release(`simple-release`)'') = Inr (Release (Literal ''simple-release''))"
  "parse_control (spelled ''SELECT pgtest_release(`extended-release`)'') = Inr (Release (Literal ''extended-release''))"
  "parse_control ''SELECT pgtest_release($1::text)'' = Inr (Release (Parameter 0))"
  "parse_control (spelled ''SELECT pgtest_release($1)'') = Inr (Release (Parameter 0))"
  "parse_control (spelled ''SELECT pgtest_release(`a/b`)'') = Inr (Release (Literal ''a/b''))"
  "parse_control (spelled ''SELECT pgtest_release(`literal`)'') = Inr (Release (Literal ''literal''))"
  "parse_control (spelled ''SELECT 2'') = Inl InvalidControlQuery"
  by code_simp+

definition control_connection_test :: "PostgresManager \<Rightarrow> (nat \<Rightarrow> string) \<Rightarrow> bool" where
  "control_connection_test client names =
     holds_in (start_test_manager client names WorkerEngineConfig_default) assert_control_queries"

section \<open>A lease over both kinds of connections\<close>

definition unix_lease_flow :: "PostgresManager \<Rightarrow> (nat \<Rightarrow> string) \<Rightarrow> bool" where
  "unix_lease_flow client names =
     holds_in (start_test_manager client names WorkerEngineConfig_default) (\<lambda>w.
     holds_in (attach_session ''unix-test'' w) (\<lambda>(application, w1).
       session_database_name application \<in> range names \<and>
     holds_in (query_one ''SELECT 1'' [] w1) (\<lambda>(ping, w2). has_row ''?column?'' [49] ping \<and>
     holds_in (query_one ''SELECT pgtest_release($1::text)'' [Some ''unix-test''] (end_session 0 w2)) (\<lambda>(r, w3).
       has_row ''pgtest_release'' [116] r \<and>
     holds_in (attach_now (test_template w3) (LeaseId ''unix-test'') w3) (\<lambda>(result, w4). fails result)))))"

section \<open>Refused connections\<close>

text \<open>
  A client with the given database field; the manager answers its attachment, and an upstream
  connection would fail.
\<close>

definition test_client :: "WorkerEngineManager \<Rightarrow> string \<Rightarrow> unit conn_env" where
  "test_client w field =
     \<lparr>client_startup = Some [''user'' \<mapsto> ''postgres'', ''database'' \<mapsto> field], startup_in_time = True,
      negotiated = True, auth_sent = True,
      attach_answer = (\<lambda>database_name lease. case attach_now database_name lease w of
          Some (Ready r, w1) \<Rightarrow> r | _ \<Rightarrow> Inl AttachEngineUnavailable),
      lease_cancelled = False, upstream = (\<lambda>database_name params. Inl StartupRejected), read_ahead = [],
      relay = \<lparr>upstream_writes = (\<lambda>bs. True), client_writes = (\<lambda>bs. True), copy_ends_ok = True, cancelled_after = None\<rparr>\<rparr>"

definition refused_as :: "string \<Rightarrow> conn_action list \<Rightarrow> bool" where
  "refused_as code actions = list_ex (\<lambda>a. case a of SendError severity c message \<Rightarrow> c = code | _ \<Rightarrow> False) actions"

definition unexpected_databases_are_refused :: "PostgresManager \<Rightarrow> (nat \<Rightarrow> string) \<Rightarrow> bool" where
  "unexpected_databases_are_refused client names =
     holds_in (start_test_manager client names WorkerEngineConfig_default) (\<lambda>w.
       list_all (\<lambda>(database, code). refused_as code (handle_connection (test_client w database)))
         [(''postgres'', ''22023''), (test_template w @ ''/'', ''22023''), (test_template w @ ''/a/b'', ''22023''),
          (''unknown_template/lease'', ''3D000'')])"

lemmas panel_eval = simple_query_def query_one_def prepare_typed_def is_row_def has_row_def
  has_code_def simple_do_query_def extended_do_query_def on_parse_def on_bind_def map_pgwire_def parse_sql_def
  query_statements get_parameter_types_def validate_format_codes_def resolve_lease_id_def parse_lease_id_def
  ping_def ping_schema_def user_error_def unsupported_command_def release_error_def LeaseId_new_def NUL_def Let_def

lemma simple_ping: "simple_query ''SELECT 1'' w = Some (Inr [QueryResponse (ping_schema TextFormat) [[49]]], w)"
  by (simp add: panel_eval finish_query_def)

lemma extended_ping: "query_one ''SELECT 1'' [] w = Some (Inr (QueryResponse (ping_schema TextFormat) [[49]]), w)"
  by (simp add: panel_eval finish_query_def)

lemma simple_release:
  "simple_query (spelled ''SELECT pgtest_release(`simple-release`)'') w =
     finish_query (\<lambda>r. [r]) (panel_release (LeaseId ''simple-release'') TextFormat w)"
  by (simp add: panel_eval)

lemma extended_release:
  "query_one (spelled ''SELECT pgtest_release(`extended-release`)'') [] w =
     finish_query (\<lambda>r. r) (panel_release (LeaseId ''extended-release'') TextFormat w)"
  by (simp add: panel_eval)

lemma char_bytes: "map ((\<lambda>b. char_of (unat b)) \<circ> (\<lambda>c. of_char c :: u8)) s = s"
proof -
  have "unat (of_nat (of_char c) :: u8) = of_char c" for c
    unfolding unat_of_nat by simp
  then have "unat (of_char c :: u8) = of_char c" for c by (metis of_nat_of_char)
  then show ?thesis by (simp add: comp_def)
qed

lemma parameter_release:
  assumes "LeaseId_new l = Inr (LeaseId l)"
  shows "query_one ''SELECT pgtest_release($1::text)'' [Some l] w =
     finish_query (\<lambda>r. r) (panel_release (LeaseId l) TextFormat w)"
  using assms by (simp del: LeaseId_new_Inr add: query_one_def prepare_typed_def extended_do_query_def on_parse_def on_bind_def
      map_pgwire_def parse_sql_def query_statements get_parameter_types_def validate_format_codes_def
      resolve_lease_id_def parse_lease_id_def char_bytes Let_def)

lemma parameter_refused:
  assumes "LeaseId_new l = Inl e"
  shows "query_one ''SELECT pgtest_release($1::text)'' [Some l] w = Some (Inl (release_error ReleaseInvalidLeaseId), w)"
  using assms by (simp del: LeaseId_new_Inl add: query_one_def prepare_typed_def extended_do_query_def on_parse_def
      on_bind_def map_pgwire_def parse_sql_def query_statements get_parameter_types_def validate_format_codes_def
      resolve_lease_id_def parse_lease_id_def char_bytes Let_def)

lemma parameter_null:
  "query_one ''SELECT pgtest_release($1::text)'' [None] w =
     Some (Inl (user_error ''22004'' ''Lease ID cannot be NULL''), w)"
  by (simp add: panel_eval)

lemma refused_test: "refused_queries w"
proof -
  have "LeaseId_new ''a/b'' = Inl InvalidLeaseId" by (simp add: LeaseId_new_def NUL_def)
  note parameter_refused [OF this]
  then show ?thesis
    by (simp add: refused_queries_def parameter_null simple_query_def prepare_typed_def has_code_def
        simple_do_query_def on_parse_def map_pgwire_def parse_sql_def query_statements get_parameter_types_def
        parse_lease_id_def user_error_def unsupported_command_def release_error_def LeaseId_new_def NUL_def
        holds_in_def finish_query_def)
qed

lemmas release_eval = finish_query_def panel_release_def panel_resume_def released_def release_request_def
  release_await_def ConsumerWorker_new_def

lemma encoded_release: "encode_bool map_pgwire schema b = Inr [116]"
  by (simp add: map_pgwire_def)

lemma test_leases:
  "LeaseId_new ''unix-test'' = Inr (LeaseId ''unix-test'')"
  "LeaseId_new ''parameter-release'' = Inr (LeaseId ''parameter-release'')"
  by (simp_all add: LeaseId_new_def NUL_def)

lemma unix_lease_flow_test: "unix_lease_flow client names"
  by (simp add: unix_lease_flow_def extended_ping parameter_release [OF test_leases(1)] encoded_release release_eval
      has_row_def is_row_def ping_schema_def release_schema_def manager_test_eval engine_eval)

lemma control_connection_tests: "control_connection_test client names"
  by (simp add: control_connection_test_def assert_control_queries_def simple_rows_def extended_rows_def
      refused_test simple_ping simple_release extended_ping extended_release parameter_release [OF test_leases(2)]
      encoded_release release_eval has_row_def is_row_def ping_schema_def release_schema_def
      manager_test_eval engine_eval)

text \<open>A field that is neither the control database nor a template with a lease is refused.\<close>

lemma bad_field_refused:
  assumes "field \<noteq> ''pgtest''" "isl (parse_connection_field field)"
  shows "refused_as ''22023'' (handle_connection (test_client w field))"
  using assms by (auto simp: refused_as_def handle_connection_def startup_params_def test_client_def attach_client_def
      reject_connection_def isl_def)

lemma bad_fields:
  "isl (parse_connection_field ''postgres'')" "isl (parse_connection_field (template @ ''/''))"
  "isl (parse_connection_field (template @ ''/a/b''))"
proof -
  have "isl (parse_connection_field s)" if "\<And>db l. s = db @ ''/'' @ lease_str l \<Longrightarrow> CHR ''/'' \<notin> set db \<Longrightarrow> \<not> valid_lease_str (lease_str l)" for s
    using parse_connection_field_sound [of s] that by (metis isl_def sum.exhaust prod.exhaust)
  note * = this
  show "isl (parse_connection_field ''postgres'')" by code_simp
  show "isl (parse_connection_field (template @ ''/''))"
  proof (rule *)
    fix db l
    assume "template @ ''/'' = db @ ''/'' @ lease_str l"
    then have "lease_str l = [] \<or> last (lease_str l) = CHR ''/''" by (metis append_is_Nil_conv last_appendR last.simps list.simps(3))
    then have "lease_str l = [] \<or> CHR ''/'' \<in> set (lease_str l)" by (metis last_in_set)
    then show "\<not> valid_lease_str (lease_str l)" by (auto simp: valid_lease_str_def)
  qed
  show "isl (parse_connection_field (template @ ''/a/b''))"
  proof (rule *)
    fix db l
    assume "template @ ''/a/b'' = db @ ''/'' @ lease_str l" "CHR ''/'' \<notin> set db"
    then have "length (filter ((=) (CHR ''/'')) (template @ ''/a/b'')) \<le> Suc (length (filter ((=) (CHR ''/'')) (lease_str l)))"
      by (auto simp: filter_empty_conv)
    then have "filter ((=) (CHR ''/'')) (lease_str l) \<noteq> []" by auto
    then have "CHR ''/'' \<in> set (lease_str l)" by (auto simp: filter_empty_conv)
    then show "\<not> valid_lease_str (lease_str l)" by (simp add: valid_lease_str_def)
  qed
qed

lemma unknown_template_refused:
  assumes "test_template w \<noteq> ''unknown_template''"
  shows "refused_as ''3D000'' (handle_connection (test_client w ''unknown_template/lease''))"
proof -
  have "parse_connection_field ''unknown_template/lease'' = Inr (''unknown_template'', LeaseId ''lease'')" by code_simp
  with assms show ?thesis
    by (auto simp: refused_as_def handle_connection_def startup_params_def test_client_def attach_client_def
      reject_connection_def attach_now_def attach_request_def test_template_def attach_code_def)
qed

lemma unexpected_databases_test:
  assumes "name (template_database_name client) \<noteq> ''unknown_template''"
  shows "unexpected_databases_are_refused client names"
proof -
  have "holds_in (start_test_manager client names WorkerEngineConfig_default)
      (\<lambda>w. name (template_database_name (pg_client w)) = name (template_database_name client))"
    by (simp add: manager_test_eval engine_eval)
  moreover have "test_template w @ ''/'' \<noteq> ''pgtest''" "test_template w @ ''/a/b'' \<noteq> ''pgtest''" for w
    by (auto simp: append_eq_Cons_conv)
  ultimately show ?thesis
    using assms
    by (auto simp: unexpected_databases_are_refused_def holds_in_def test_template_def
        intro!: bad_field_refused bad_fields unknown_template_refused split: option.splits)
qed

end
