(* ===== verification/Cli_Tests.thy ===== *)
theory Cli_Tests
  imports Cli
begin

text \<open>
  Unit tests of the command line (apps/cli/src/args.rs): each test is a definition that says whether its
  assertions hold, and a lemma that they do. The arguments are values of their types, as bpaf gives
  them; the rejection of texts that are not of the type of the argument is left out.
\<close>

section \<open>Options\<close>

text \<open>\<open>UPSTREAM\<close>: the required arguments; each test adds its own.\<close>

definition UPSTREAM :: RawOptions where
  "UPSTREAM =
     \<lparr>raw_pg_host = Some ''localhost'', raw_pg_port = Some 5432, raw_pg_user = Some ''postgres'',
      raw_pg_database = Some ''template'', raw_listen_addr = None, raw_listen_port = None,
      raw_unix_socket_dir = None, raw_unix_socket_port = None, raw_creation_pool = None,
      raw_cleanup_pool = None, raw_initial_size = None, raw_starvation_threshold = None,
      raw_grow_batch_size = None, raw_lease_claim_timeout_ms = None, raw_max_lease_records = None,
      raw_log_filter = None\<rparr>"

definition parsed_as :: "RawOptions \<Rightarrow> (ServeOptions \<Rightarrow> bool) \<Rightarrow> bool" where
  "parsed_as r P = (case serve_options r of None \<Rightarrow> False | Some options \<Rightarrow> P options)"

definition rejected :: "RawOptions \<Rightarrow> bool" where
  "rejected r \<longleftrightarrow> serve_options r = None"

text \<open>127.0.0.1 and ::1\<close>

definition localhost4 :: IpAddr where
  "localhost4 = V4 2130706433"

definition localhost6 :: IpAddr where
  "localhost6 = V6 1"

definition listeners_are_explicit_and_can_be_combined :: bool where
  "listeners_are_explicit_and_can_be_combined \<longleftrightarrow>
     rejected UPSTREAM \<and>
     parsed_as (UPSTREAM\<lparr>raw_listen_addr := Some localhost6, raw_listen_port := Some 0\<rparr>)
       (\<lambda>tcp. unix_socket_dir tcp = None \<and> map_option snd (tcp_address tcp) = Some 0) \<and>
     parsed_as (UPSTREAM\<lparr>raw_unix_socket_dir := Some ''/tmp'', raw_unix_socket_port := Some 7432\<rparr>)
       (\<lambda>unix. listen_addr unix = None \<and> unix_socket_port unix = Some 7432) \<and>
     parsed_as (UPSTREAM\<lparr>raw_listen_addr := Some localhost4, raw_unix_socket_dir := Some ''/tmp''\<rparr>) (\<lambda>options. True) \<and>
     rejected (UPSTREAM\<lparr>raw_listen_addr := Some localhost4, raw_unix_socket_port := Some 7432\<rparr>) \<and>
     rejected (UPSTREAM\<lparr>raw_unix_socket_dir := Some ''/tmp'', raw_listen_port := Some 7432\<rparr>) \<and>
     parsed_as (UPSTREAM\<lparr>raw_listen_addr := Some localhost4, raw_listen_port := Some 8432\<rparr>)
       (\<lambda>tcp. tcp_address tcp = Some (localhost4, 8432))"

definition each_upstream_value_is_required :: bool where
  "each_upstream_value_is_required \<longleftrightarrow>
     (let args = UPSTREAM\<lparr>raw_listen_addr := Some localhost4\<rparr> in
      list_all rejected
        [args\<lparr>raw_pg_host := None\<rparr>, args\<lparr>raw_pg_port := None\<rparr>, args\<lparr>raw_pg_user := None\<rparr>,
         args\<lparr>raw_pg_database := None\<rparr>])"

definition defaults_match_server_configuration :: bool where
  "defaults_match_server_configuration \<longleftrightarrow>
     parsed_as (UPSTREAM\<lparr>raw_listen_addr := Some localhost4\<rparr>) (\<lambda>options.
       map_option snd (tcp_address options) = Some 6432 \<and>
       postgres_config options =
         \<lparr>pgtest_pg_host = ''localhost'', pgtest_pg_port = 5432, pgtest_pg_user = ''postgres'',
          pgtest_pg_database = ''template'', pgtest_pg_creation_pool_connection = 10,
          pgtest_pg_cleanup_pool_connection = 5\<rparr> \<and>
       engine_config options =
         \<lparr>initial_slots = 16, starvation_threshold = 8, grow_batch_size = 16,
          lease_claim_timeout_ms = 30000, max_lease_records = 100000\<rparr> \<and>
       (case unix_socket_port options of None \<Rightarrow> 6432 | Some p \<Rightarrow> p) = 6432 \<and>
       log_filter options = ''info'')"

definition overrides_reach_the_engine_and_postgres_configs :: bool where
  "overrides_reach_the_engine_and_postgres_configs \<longleftrightarrow>
     parsed_as
       (UPSTREAM\<lparr>raw_unix_socket_dir := Some ''/tmp'', raw_creation_pool := Some 2, raw_cleanup_pool := Some 3,
         raw_initial_size := Some 4, raw_starvation_threshold := Some 5, raw_grow_batch_size := Some 0,
         raw_lease_claim_timeout_ms := Some 60000, raw_max_lease_records := Some 7,
         raw_log_filter := Some ''warn''\<rparr>)
       (\<lambda>options.
         pgtest_pg_creation_pool_connection (postgres_config options) = 2 \<and>
         pgtest_pg_cleanup_pool_connection (postgres_config options) = 3 \<and>
         engine_config options =
           \<lparr>initial_slots = 4, starvation_threshold = 5, grow_batch_size = 0,
            lease_claim_timeout_ms = 60000, max_lease_records = 7\<rparr> \<and>
         log_filter options = ''warn'')"

text \<open>Values that are of their types and still refused.\<close>

definition invalid_values_are_rejected :: bool where
  "invalid_values_are_rejected \<longleftrightarrow>
     (let unix = UPSTREAM\<lparr>raw_unix_socket_dir := Some ''/tmp''\<rparr>;
          tcp = UPSTREAM\<lparr>raw_listen_addr := Some localhost4\<rparr>
      in list_all rejected
           [unix\<lparr>raw_creation_pool := Some 0\<rparr>, unix\<lparr>raw_cleanup_pool := Some 0\<rparr>,
            unix\<lparr>raw_max_lease_records := Some 0\<rparr>, unix\<lparr>raw_unix_socket_port := Some 0\<rparr>,
            tcp\<lparr>raw_pg_host := Some []\<rparr>, tcp\<lparr>raw_pg_port := Some 0\<rparr>,
            tcp\<lparr>raw_pg_user := Some []\<rparr>, tcp\<lparr>raw_pg_database := Some []\<rparr>])"

definition socket_directory_must_exist :: "(string \<Rightarrow> bool) \<Rightarrow> string \<Rightarrow> bool" where
  "socket_directory_must_exist is_dir missing =
     parsed_as (UPSTREAM\<lparr>raw_unix_socket_dir := Some missing\<rparr>) (\<lambda>options. isl (validate is_dir options))"

lemmas options_eval = parsed_as_def rejected_def UPSTREAM_def localhost4_def localhost6_def
  serve_options_def parse_serve_options_def required_def fallback_def optional_def positive_port_def
  positive_pool_def positive_capacity_def tcp_address_def postgres_config_def engine_config_def validate_def

lemma options_tests:
  listeners_are_explicit_and_can_be_combined each_upstream_value_is_required
  defaults_match_server_configuration overrides_reach_the_engine_and_postgres_configs
  invalid_values_are_rejected
  by (simp_all add: listeners_are_explicit_and_can_be_combined_def each_upstream_value_is_required_def
      defaults_match_server_configuration_def overrides_reach_the_engine_and_postgres_configs_def
      invalid_values_are_rejected_def options_eval)

lemma socket_directory_test: "\<not> is_dir missing \<Longrightarrow> socket_directory_must_exist is_dir missing"
  by (simp add: socket_directory_must_exist_def options_eval)

end
