(* ===== verification/Postgres_Tests.thy ===== *)
theory Postgres_Tests
  imports Testcontainer
begin

text \<open>
  Unit tests of the PostgreSQL client (crates/pgtest-database-operations: manager.rs and
  manager/creation.rs): each test is a definition that says whether its assertions hold, and a lemma
  that they do. PostgreSQL is its answers to the statements, so that assertions on the contents of its
  catalog and on the state of a pool are left out.
\<close>

section \<open>Start of the PostgreSQL client\<close>

definition zero_pool_limits_are_rejected_before_connecting :: "server \<Rightarrow> (nat \<Rightarrow> nat) \<Rightarrow> bool" where
  "zero_pool_limits_are_rejected_before_connecting sv draw =
     list_all (\<lambda>(config, variable). start_manager sv draw config = (Inl (InvalidPoolSize variable), []))
       [(PostgresConfig_default\<lparr>pgtest_pg_creation_pool_connection := 0\<rparr>, ''PGTEST_CREATION_POOL_CONNECTION''),
        (PostgresConfig_default\<lparr>pgtest_pg_cleanup_pool_connection := 0\<rparr>, ''PGTEST_CLEANUP_POOL_CONNECTION'')]"

text \<open>No connection is accepted at the address of the closed listener.\<close>

definition startup_connects_eagerly :: "server \<Rightarrow> (nat \<Rightarrow> nat) \<Rightarrow> u16 \<Rightarrow> bool" where
  "startup_connects_eagerly sv draw listener_port =
     (case fst (start_manager (sv\<lparr>pool_connects := \<lambda>purpose. False\<rparr>) draw
             (PostgresConfig_default\<lparr>pgtest_pg_host := ''127.0.0.1'', pgtest_pg_port := listener_port\<rparr>)) of
        Inl (UnableToConnectToPostgres url) \<Rightarrow> True
      | _ \<Rightarrow> False)"

text \<open>
  The container of the tests runs PostgreSQL 18: \<open>execute\<close> is what it answers. Dropping a database
  that is absent succeeds, so that the second drop is answered like the first.
\<close>

definition start_ok :: "server \<Rightarrow> PostgresConfig \<Rightarrow> (nat \<Rightarrow> nat) \<Rightarrow> (string \<Rightarrow> 'e + unit) \<Rightarrow> bool" where
  "start_ok sv pg_config draw execute =
     (case start_manager sv draw pg_config of
        (Inl e, events) \<Rightarrow> False
      | (Inr manager, events) \<Rightarrow>
          version manager = 18 \<and>
          (case create_ddl_database manager draw (Inr ()) execute of
             Inl e \<Rightarrow> False
           | Inr database_name \<Rightarrow>
               drop_ddl_database (Inr ()) execute database_name = Inr () \<and>
               drop_ddl_database (Inr ()) execute database_name = Inr ()))"

lemma client_start_tests:
  "zero_pool_limits_are_rejected_before_connecting sv draw" "startup_connects_eagerly sv draw listener_port"
  by (simp_all add: zero_pool_limits_are_rejected_before_connecting_def startup_connects_eagerly_def
      start_manager_def PostgresConfig_default_def connect_pool_def)

definition container_server :: server where
  "container_server =
     \<lparr>pool_configured = (\<lambda>p. True), pool_connects = (\<lambda>p. True), exists_connects = True,
      version_connects = True, like_rows = (\<lambda>pat. Some [pat]), version_num = Some 180001\<rparr>"

lemma start_ok_test: "start_ok container_server PostgresConfig_default draw (\<lambda>sql. Inr ())"
  by (simp add: start_ok_def start_manager_def container_server_def PostgresConfig_default_def connect_pool_def
      database_exists_def is_valid_version_def MIN_SERVER_VERSION_NUM_def create_ddl_database_def
      create_on_connection_def drop_ddl_database_def drop_on_connection_def Let_def signed_divide_int_def)

section \<open>Batches of the PostgreSQL client\<close>

text \<open>
  A server that refuses to drop its own template database and the database of the connection. The
  results come in any order: \<open>pick\<close> is the scheduler.
\<close>

definition protecting_server :: "string \<Rightarrow> string + unit" where
  "protecting_server sql =
     (if sql = drop_query ''template0'' \<or> sql = drop_query ''postgres'' then Inl ''refused'' else Inr ())"

definition cleanup_batch_names :: "PostgresManager \<Rightarrow> string list" where
  "cleanup_batch_names manager =
     map (\<lambda>index. name (template_database_name manager) @ ''_Batch '' @ [DQUOTE] @ show_nat index)
       [0..<Suc CLEANUP_PIPELINE_DEPTH]"

definition cleanup_batch_reports_every_result :: "(nat \<Rightarrow> nat list \<Rightarrow> nat) \<Rightarrow> PostgresManager \<Rightarrow> bool" where
  "cleanup_batch_reports_every_result pick manager =
     (let batch = ''template0'' # ''postgres'' # cleanup_batch_names manager;
          (result, results) = drop_ddl_databases pick (Inr ()) protecting_server batch
      in result = Inr () \<and> distinct (map fst results) \<and> length results = length batch \<and>
         list_all (\<lambda>(index, r). case r of
             Inl (UnableToDropDatabase database_name source) \<Rightarrow> index < 2 \<and> database_name = batch ! index
           | Inl e \<Rightarrow> False
           | Inr u \<Rightarrow> 2 \<le> index) results)"

definition closed_cleanup_pool_reports_nothing :: "(nat \<Rightarrow> nat list \<Rightarrow> nat) \<Rightarrow> 'e \<Rightarrow> (string \<Rightarrow> 'e + unit) \<Rightarrow> bool" where
  "closed_cleanup_pool_reports_nothing pick pool_closed execute \<longleftrightarrow>
     drop_ddl_databases pick (Inl pool_closed) execute [] = (Inr (), []) \<and>
     (case drop_ddl_databases pick (Inl pool_closed) execute [''unused''] of
        (Inl (UnableToDropDatabase database_name source), results) \<Rightarrow> results = []
      | _ \<Rightarrow> False)"

definition closed_pools_report_operation_errors ::
  "PostgresManager \<Rightarrow> (nat \<Rightarrow> nat) \<Rightarrow> 'e \<Rightarrow> (string \<Rightarrow> 'e + ('e + string) list) \<Rightarrow> (string \<Rightarrow> 'e + unit) \<Rightarrow> bool" where
  "closed_pools_report_operation_errors manager draw pool_closed list_databases execute \<longleftrightarrow>
     (case create_ddl_database manager draw (Inl pool_closed) execute of
        Inl (UnableToCreateDatabase database_name source) \<Rightarrow> source = pool_closed
      | _ \<Rightarrow> False) \<and>
     (case drop_ddl_database (Inl pool_closed) execute ''db'' of
        Inl (UnableToDropDatabase database_name source) \<Rightarrow> source = pool_closed
      | _ \<Rightarrow> False) \<and>
     isl (fst (drop_ddl_templates_like manager (Inl pool_closed) list_databases execute))"

text \<open>The indices that a batch of creations reports, with what each result has to satisfy.\<close>

definition reports_all ::
  "nat \<Rightarrow> (('e PostgresOperationsError + ReadString) \<Rightarrow> bool)
     \<Rightarrow> run_panic + (nat \<times> ('e PostgresOperationsError + ReadString)) list \<Rightarrow> bool" where
  "reports_all amount P batch =
     (case batch of
        Inl panic \<Rightarrow> False
      | Inr results \<Rightarrow> sort (map fst results) = [0..<amount] \<and> list_all (\<lambda>(index, r). P r) results)"

definition bounded_creation_with_one_connection ::
  "(nat \<Rightarrow> nat list \<Rightarrow> nat) \<Rightarrow> PostgresManager \<Rightarrow> (nat \<Rightarrow> nat \<Rightarrow> nat) \<Rightarrow> bool" where
  "bounded_creation_with_one_connection pick manager draw =
     reports_all 33 (\<lambda>r. \<not> isl r)
       (create_ddl_databases pick
          (manager\<lparr>creation_concurrency := 1,
             template_database_name :=
               PostgresDatabaseName_new (draw 0) (name (template_database_name manager) @ ''_'' @ [DQUOTE] @ ''Template'')\<rparr>)
          draw (\<lambda>index. Inr ()) (\<lambda>sql. Inr () :: string + unit) 33)"

definition creation_on_a_closed_pool ::
  "(nat \<Rightarrow> nat list \<Rightarrow> nat) \<Rightarrow> PostgresManager \<Rightarrow> (nat \<Rightarrow> nat \<Rightarrow> nat) \<Rightarrow> 'e \<Rightarrow> (string \<Rightarrow> 'e + unit) \<Rightarrow> bool" where
  "creation_on_a_closed_pool pick manager draw pool_closed execute \<longleftrightarrow>
     create_ddl_databases pick manager draw (\<lambda>index. Inl pool_closed) execute 0 = Inr [] \<and>
     reports_all 3 (\<lambda>r. case r of Inl (UnableToCreateDatabase database_name source) \<Rightarrow> True | _ \<Rightarrow> False)
       (create_ddl_databases pick (manager\<lparr>creation_concurrency := 1\<rparr>) draw (\<lambda>index. Inl pool_closed) execute 3)"

definition overlapping_creation_batches ::
  "(nat \<Rightarrow> nat list \<Rightarrow> nat) \<Rightarrow> (nat \<Rightarrow> nat list \<Rightarrow> nat) \<Rightarrow> PostgresManager
     \<Rightarrow> (nat \<Rightarrow> nat \<Rightarrow> nat) \<Rightarrow> (nat \<Rightarrow> nat \<Rightarrow> nat) \<Rightarrow> (nat \<Rightarrow> nat) \<Rightarrow> bool" where
  "overlapping_creation_batches pick1 pick2 manager draw1 draw2 draw \<longleftrightarrow>
     (let m = manager\<lparr>creation_concurrency := 2\<rparr>; answer = (\<lambda>sql. Inr () :: string + unit) in
      reports_all 7 (\<lambda>r. \<not> isl r) (create_ddl_databases pick1 m draw1 (\<lambda>index. Inr ()) answer 7) \<and>
      reports_all 8 (\<lambda>r. \<not> isl r) (create_ddl_databases pick2 m draw2 (\<lambda>index. Inr ()) answer 8) \<and>
      \<not> isl (create_ddl_database m draw (Inr ()) answer))"

lemma closed_pool_tests:
  "closed_cleanup_pool_reports_nothing pick pool_closed execute"
  "closed_pools_report_operation_errors manager draw pool_closed list_databases execute"
  by (simp_all add: closed_cleanup_pool_reports_nothing_def closed_pools_report_operation_errors_def
      drop_ddl_databases_def create_ddl_database_def drop_ddl_database_def drop_ddl_templates_like_def)

lemma sort_reported:
  assumes "reports_once n rs"
  shows "sort (map fst rs) = [0..<n]"
  by (rule sorted_distinct_set_unique) (use assms in \<open>auto simp: reports_once_def\<close>)

lemma reports_all_creations:
  assumes "0 < creation_concurrency m" "\<And>i. P (create_ddl_database m (draw i) (acquired i) execute)"
  shows "reports_all n P (create_ddl_databases pick m draw acquired execute n)"
proof -
  obtain rs where "create_ddl_databases pick m draw acquired execute n = Inr rs" "reports_once n rs"
    "\<forall>(i, r) \<in> set rs. r = create_ddl_database m (draw i) (acquired i) execute"
    using create_ddl_databases_reports [OF assms(1)] by blast
  moreover from this assms(2) have "\<forall>(i, r) \<in> set rs. P r" by fastforce
  ultimately show ?thesis by (auto simp: reports_all_def sort_reported list_all_iff)
qed

lemma created_Inr: "\<not> isl (create_ddl_database m draw (Inr ()) (\<lambda>sql. Inr ()))"
  by (simp add: create_ddl_database_def create_on_connection_def Let_def)

lemma creation_batch_tests:
  "bounded_creation_with_one_connection pick manager draw"
  "creation_on_a_closed_pool pick manager draw pool_closed execute"
  "overlapping_creation_batches pick1 pick2 manager draw1 draw2 draw'"
proof -
  show "bounded_creation_with_one_connection pick manager draw"
    unfolding bounded_creation_with_one_connection_def
    by (intro reports_all_creations created_Inr) simp
  show "overlapping_creation_batches pick1 pick2 manager draw1 draw2 draw'"
    unfolding overlapping_creation_batches_def Let_def
    by (intro conjI reports_all_creations created_Inr) simp_all
  show "creation_on_a_closed_pool pick manager draw pool_closed execute"
    unfolding creation_on_a_closed_pool_def
    by (intro conjI reports_all_creations) (simp_all add: create_ddl_databases_def create_ddl_database_def Let_def)
qed

text \<open>The names of the batch are quoted differently from the two that the server protects.\<close>

lemma drop_query_inject: "drop_query a = drop_query b \<longleftrightarrow> a = b"
proof
  assume "drop_query a = drop_query b"
  moreover have "read_quoted (quote_ident x @ '' WITH (FORCE)'') = Some (x, '' WITH (FORCE)'')" for x
    by (rule read_quote_ident) (simp add: DQUOTE_def)
  ultimately show "a = b" by (auto simp: drop_query_def) (metis option.inject prod.inject)
qed simp

lemma batch_names_unprotected: "x \<in> set (cleanup_batch_names manager) \<Longrightarrow> protecting_server (drop_query x) = Inr ()"
proof -
  assume "x \<in> set (cleanup_batch_names manager)"
  then have "DQUOTE \<in> set x" by (auto simp: cleanup_batch_names_def)
  then have "x \<noteq> ''template0''" "x \<noteq> ''postgres''" by (auto simp: DQUOTE_def)
  then show "protecting_server (drop_query x) = Inr ()" by (simp add: protecting_server_def drop_query_inject)
qed

lemma drop_batch:
  assumes "names \<noteq> []"
  obtains order where "distinct order" "set order = {..<length names}" "length order = length names"
    and "drop_ddl_databases pick (Inr ()) execute names =
      (Inr (), map (\<lambda>i. (i, drop_on_connection execute (names ! i))) order)"
proof -
  let ?order = "window_run pick 0 (take CLEANUP_PIPELINE_DEPTH [0..<length names]) (drop CLEANUP_PIPELINE_DEPTH [0..<length names])"
  have "0 < CLEANUP_PIPELINE_DEPTH" by (simp add: CLEANUP_PIPELINE_DEPTH_def)
  note order = window_run_upt [OF this, of pick "length names"]
  show thesis
  proof (rule that [OF order])
    show "length ?order = length names" using distinct_card [OF order(1)] order(2) by simp
    show "drop_ddl_databases pick (Inr ()) execute names =
        (Inr (), map (\<lambda>i. (i, drop_on_connection execute (names ! i))) ?order)"
      using assms by (simp add: drop_ddl_databases_def)
  qed
qed

lemma cleanup_batch_test: "cleanup_batch_reports_every_result pick manager"
proof -
  define batch where "batch = ''template0'' # ''postgres'' # cleanup_batch_names manager"
  obtain order where o: "distinct order" "set order = {..<length batch}" "length order = length batch"
    and r: "drop_ddl_databases pick (Inr ()) protecting_server batch =
      (Inr (), map (\<lambda>i. (i, drop_on_connection protecting_server (batch ! i))) order)"
    by (rule drop_batch [of batch]) (simp add: batch_def)
  have "case drop_on_connection protecting_server (batch ! i) of
      Inl (UnableToDropDatabase database_name source) \<Rightarrow> i < 2 \<and> database_name = batch ! i
    | Inl e \<Rightarrow> False | Inr u \<Rightarrow> 2 \<le> i" if "i < length batch" for i
  proof (cases "i < 2")
    case True
    then have "i = 0 \<or> i = 1" by linarith
    then show ?thesis by (auto simp: batch_def drop_on_connection_def protecting_server_def)
  next
    case False
    with that have "batch ! i \<in> set (cleanup_batch_names manager)" by (auto simp: batch_def nth_Cons')
    from batch_names_unprotected [OF this] False show ?thesis by (simp add: drop_on_connection_def)
  qed
  with o show ?thesis
    unfolding cleanup_batch_reports_every_result_def Let_def batch_def [symmetric] r
    by (simp add: comp_def list_all_iff)
qed

text \<open>The batch of the client that the engine uses, with a database between the two refused ones.\<close>

definition batch_reports_each_success_and_failure_once ::
  "(nat \<Rightarrow> nat list \<Rightarrow> nat) \<Rightarrow> PostgresManager \<Rightarrow> (nat \<Rightarrow> nat) \<Rightarrow> bool" where
  "batch_reports_each_success_and_failure_once pick manager draw =
     (case create_database (\<lambda>e. e) manager draw (Inr ()) protecting_server of
        Inl e \<Rightarrow> False
      | Inr db \<Rightarrow>
          (let results = drop_databases pick (\<lambda>e. e) (Inr ()) protecting_server [''postgres'', db, ''template0'']
           in length results = 3 \<and> (1, Inr ()) \<in> set results \<and>
              list_all (\<lambda>index. list_ex (\<lambda>(i, r). i = index \<and> isl r) results) [0, 2]) \<and>
          drop_databases pick (\<lambda>e. e) (Inr ()) protecting_server [db] = [(0, Inr ())])"

lemma created_database: "create_database (\<lambda>e. e) manager draw (Inr ()) protecting_server =
    Inr (generate_database_name draw (template_database_name manager))"
  by (simp add: create_database_def create_ddl_database_def create_on_connection_def protecting_server_def
      create_query_def drop_query_def Let_def)

lemma drop_databases_answers:
  assumes "names \<noteq> []"
  shows "set (drop_databases pick show_error (Inr ()) execute names) =
      (\<lambda>i. (i, drop_database show_error (Inr ()) execute (names ! i))) ` {..<length names}"
    and "length (drop_databases pick show_error (Inr ()) execute names) = length names"
proof -
  obtain order where o: "distinct order" "set order = {..<length names}" "length order = length names"
    and r: "drop_ddl_databases pick (Inr ()) execute names =
      (Inr (), map (\<lambda>i. (i, drop_on_connection execute (names ! i))) order)"
    by (rule drop_batch [OF assms])
  show "set (drop_databases pick show_error (Inr ()) execute names) =
      (\<lambda>i. (i, drop_database show_error (Inr ()) execute (names ! i))) ` {..<length names}"
    "length (drop_databases pick show_error (Inr ()) execute names) = length names"
    using o by (auto simp: drop_databases_def r drop_database_def drop_ddl_database_def)
qed

lemma client_batch_test:
  assumes "generate_database_name draw (template_database_name manager) \<notin> {''postgres'', ''template0''}"
  shows "batch_reports_each_success_and_failure_once pick manager draw"
proof -
  define db where "db = generate_database_name draw (template_database_name manager)"
  have n: "{..<length [''postgres'', db, ''template0'']} = {0, 1, 2}" by auto
  have ok: "drop_database (\<lambda>e. e) (Inr ()) protecting_server db = Inr ()"
    using assms [folded db_def]
    by (simp add: drop_database_def drop_ddl_database_def drop_on_connection_def protecting_server_def drop_query_inject)
  obtain x where x: "drop_databases pick (\<lambda>e. e) (Inr ()) protecting_server [db] = [x]"
    using drop_databases_answers(2) [of "[db]" pick "\<lambda>e. e" protecting_server] by (auto simp: length_Suc_conv)
  have "set (drop_databases pick (\<lambda>e. e) (Inr ()) protecting_server [db]) = {(0, Inr ())}"
    using drop_databases_answers(1) [of "[db]" pick "\<lambda>e. e" protecting_server] ok by (simp add: lessThan_Suc)
  with x have "drop_databases pick (\<lambda>e. e) (Inr ()) protecting_server [db] = [(0, Inr ())]" by simp
  with drop_databases_answers [of "[''postgres'', db, ''template0'']" pick "\<lambda>e. e" protecting_server] assms [folded db_def]
  show ?thesis
    unfolding batch_reports_each_success_and_failure_once_def created_database db_def [symmetric] Let_def n
    by (simp add: list_ex_iff drop_database_def drop_ddl_database_def drop_on_connection_def
        protecting_server_def drop_query_inject)
qed

section \<open>The window of requests\<close>

text \<open>
  The scheduler completes the requests in the order that the test sends their results. A request can
  only complete when it has been started: for another one \<open>completing\<close> gives no position.
\<close>

definition completing :: "nat list \<Rightarrow> nat \<Rightarrow> nat list \<Rightarrow> nat" where
  "completing order k in_flight = length (takeWhile (\<lambda>i. i \<noteq> order ! k) in_flight)"

definition window_refills_after_out_of_order_success_and_failure :: bool where
  "window_refills_after_out_of_order_success_and_failure \<longleftrightarrow>
     run_bounded (completing [1, 2, 3, 0, 4]) 5 2 (\<lambda>index. if index = 2 then Inl ''failed'' else Inr ()) =
       Inr [(1, Inr ()), (2, Inl ''failed''), (3, Inr ()), (0, Inr ()), (4, Inr ())]"

lemma window_test: window_refills_after_out_of_order_success_and_failure
  by code_simp

end
