(* ===== verification/Startup_Tests.thy ===== *)
theory Startup_Tests
  imports Manager_Tests Postgres_Tests
begin

text \<open>
  Tests of the start-up and of the replies of the manager (crates/pgtest-core/src: worker_manager.rs,
  worker_manager/cleanup_tests.rs and worker_manager/reply_tests.rs): each test is a definition that says
  whether its assertions hold, and a lemma that they do.
\<close>

section \<open>Start-up\<close>

text \<open>A PostgreSQL server that accepts connections and statements.\<close>

definition obliging :: "'e cluster \<Rightarrow> 'e cluster" where
  "obliging cl = cl\<lparr>checks := container_server, creation_connection := \<lambda>i. Inr (), answer_to := \<lambda>sql. Inr ()\<rparr>"

definition startup_prefills_a_large_batch_on_one_connection :: "'e cluster \<Rightarrow> bool" where
  "startup_prefills_a_large_batch_on_one_connection cl =
     (case WorkerEngineManager_start (obliging cl)
             (PostgresConfig_default\<lparr>pgtest_pg_creation_pool_connection := 1\<rparr>)
             (WorkerEngineConfig_default\<lparr>initial_slots := 33\<rparr>) of
        Inr (Inr manager) \<Rightarrow>
          holds_in (drain_and_snapshot manager) (\<lambda>engine.
            length (ready (inventory engine)) = 33 \<and> creating (inventory engine) = {||} \<and>
            card (set (map db_id (ready (inventory engine)))) = 33)
      | _ \<Rightarrow> False)"

text \<open>The template has been dropped: every creation fails.\<close>

definition startup_returns_initial_creation_failure :: "'e cluster \<Rightarrow> 'e \<Rightarrow> PostgresManager \<Rightarrow> bool" where
  "startup_returns_initial_creation_failure cl no_template client =
     (case start_workers ((obliging cl)\<lparr>answer_to := \<lambda>sql. Inl no_template\<rparr>) client (no_growth_config 1) of
        Inr (Inl (InitialDatabaseCreation e)) \<Rightarrow> True
      | _ \<Rightarrow> False)"

definition zero_lease_record_limit_is_rejected_before_connecting :: "'e cluster \<Rightarrow> bool" where
  "zero_lease_record_limit_is_rejected_before_connecting cl \<longleftrightarrow>
     (case WorkerEngineManager_start cl PostgresConfig_default (WorkerEngineConfig_default\<lparr>max_lease_records := 0\<rparr>) of
        Inr (Inl InvalidLeaseRecordLimit) \<Rightarrow> True
      | _ \<Rightarrow> False)"

definition startup_preserves_postgres_configuration_errors :: "'e cluster \<Rightarrow> bool" where
  "startup_preserves_postgres_configuration_errors cl \<longleftrightarrow>
     (case WorkerEngineManager_start cl (PostgresConfig_default\<lparr>pgtest_pg_creation_pool_connection := 0\<rparr>)
             WorkerEngineConfig_default of
        Inr (Inl (StartPostgres e)) \<Rightarrow> e = InvalidPoolSize ''PGTEST_CREATION_POOL_CONNECTION''
      | _ \<Rightarrow> False)"

lemma start_rejection_tests:
  "zero_lease_record_limit_is_rejected_before_connecting cl" "startup_preserves_postgres_configuration_errors cl"
  by (simp_all add: zero_lease_record_limit_is_rejected_before_connecting_def
      startup_preserves_postgres_configuration_errors_def WorkerEngineManager_start_def WorkerEngineConfig_default_def
      prepare_postgres_def start_manager_def PostgresConfig_default_def)

lemma creation_outcomes:
  assumes "0 < creation_concurrency client"
    and "create_databases (completes cl) (display cl) client (draws cl) (creation_connection cl) (answer_to cl) n = Inr results"
  shows "\<forall>(i, r) \<in> set results. \<exists>x. r = map_sum (ddl_error (display cl)) id
    (create_ddl_database client (draws cl i) (creation_connection cl i) (answer_to cl))"
proof -
  obtain rs where "create_ddl_databases (completes cl) client (draws cl) (creation_connection cl) (answer_to cl) n = Inr rs"
    "\<forall>(i, r) \<in> set rs. r = create_ddl_database client (draws cl i) (creation_connection cl i) (answer_to cl)"
    using create_ddl_databases_reports [OF assms(1)] by blast
  with assms(2) show ?thesis by (auto simp: create_databases_Inr)
qed

lemma initial_creation_failure_test:
  assumes "0 < creation_concurrency client"
  shows "startup_returns_initial_creation_failure cl no_template client"
proof -
  let ?cl = "(obliging cl)\<lparr>answer_to := \<lambda>sql. Inl no_template\<rparr>"
  show ?thesis
    using assms
  proof (cases rule: start_workers_cases [where client = client and cl = ?cl and cfg = "no_growth_config 1"])
    case (failed e results)
    then show ?thesis by (simp add: startup_returns_initial_creation_failure_def)
  next
    case (started w results)
    have one: "unat (initial_slots (no_growth_config 1)) = 1" by (simp add: no_growth_config_def)
    with started(3) have "0 \<in> fst ` set results" by (simp add: reports_once_def)
    then obtain r where r: "(0, r) \<in> set results" by auto
    with creation_outcomes [OF assms started(2)] have "isl r"
      by (auto simp: create_ddl_database_def create_on_connection_def obliging_def Let_def)
    with r obtain e where "(0, Inl e) \<in> set results" by (auto simp: isl_def)
    then have "e \<in> set (failures results)" by (force simp: failures_def)
    with started(4) show ?thesis by simp
  qed
qed

text \<open>Draining a manager that has just started ends its engine and leaves the databases as they are.\<close>

lemma drain_idle:
  assumes "engine_running w" "worker_inbox w = []" "timers w = []" "creation_jobs w = []" "cleanup_jobs w = []"
  shows "\<exists>e. drain_and_snapshot w = Some e \<and> inventory e = inventory (engine_handle w)"
  using assms
  by (simp add: drain_and_snapshot_def sync_inbox_def stop_tasks_def begin_shutdown_def finish_shutdown_def
      tracker_empty_def post_def creation_worker_turn_def cleanup_worker_turn_def engine_turn_def
      handle_message_def perform_def record_call_def Let_def)

lemma drain_started:
  assumes "WorkerEngineManager_start cl pcfg cfg = Inr (Inr w)"
  shows "\<exists>e. drain_and_snapshot w = Some e \<and> inventory e = inventory (engine_handle w)"
  using assms
  by (intro drain_idle) (auto simp: WorkerEngineManager_start_def prepare_postgres_def start_workers_def
      split: if_splits prod.splits sum.splits)

lemma obliging_starts:
  obtains w where "WorkerEngineManager_start (obliging cl)
      (PostgresConfig_default\<lparr>pgtest_pg_creation_pool_connection := 1\<rparr>)
      (WorkerEngineConfig_default\<lparr>initial_slots := 33\<rparr>) = Inr (Inr w)"
proof -
  let ?pcfg = "PostgresConfig_default\<lparr>pgtest_pg_creation_pool_connection := 1\<rparr>"
  let ?cfg = "WorkerEngineConfig_default\<lparr>initial_slots := 33\<rparr>"
  obtain client ev where m: "start_manager (checks (obliging cl)) (draws (obliging cl) 0) ?pcfg = (Inr client, ev)"
    by (simp add: start_manager_def obliging_def container_server_def PostgresConfig_default_def connect_pool_def
        database_exists_def is_valid_version_def MIN_SERVER_VERSION_NUM_def Let_def signed_divide_int_def)
  have c: "0 < creation_concurrency client" using start_manager_Inr [OF m] by blast
  have s: "WorkerEngineManager_start (obliging cl) ?pcfg ?cfg = start_workers (obliging cl) client ?cfg"
    using m by (auto simp: WorkerEngineManager_start_def prepare_postgres_def WorkerEngineConfig_default_def
        split: prod.splits sum.splits)
  from c show thesis
  proof (cases rule: start_workers_cases [where client = client and cl = "obliging cl" and cfg = ?cfg])
    case (failed e results)
    then have "\<exists>i. (i, Inl e) \<in> set results" by simp
    with creation_outcomes [OF c failed(2)] show thesis
      by (fastforce simp: create_ddl_database_def create_on_connection_def obliging_def Let_def)
  next
    case (started w results)
    with s that show thesis by simp
  qed
qed

lemma prefill_test: "startup_prefills_a_large_batch_on_one_connection cl"
proof -
  obtain w where w: "WorkerEngineManager_start (obliging cl)
      (PostgresConfig_default\<lparr>pgtest_pg_creation_pool_connection := 1\<rparr>)
      (WorkerEngineConfig_default\<lparr>initial_slots := 33\<rparr>) = Inr (Inr w)"
    by (rule obliging_starts)
  note started_ready [OF w] manager_inv_start [OF w]
  moreover from this(3) have "distinct (map db_id (ready (inventory (engine_handle w))))"
    by (auto simp: manager_inv_def settled_inv_def engine_inv_def lease_inv_def inventory_inv_def)
  then have "card (set (map db_id (ready (inventory (engine_handle w))))) = length (ready (inventory (engine_handle w)))"
    by (simp only: distinct_card length_map)
  moreover note drain_started [OF w]
  ultimately show ?thesis
    by (auto simp: startup_prefills_a_large_batch_on_one_connection_def w holds_in_def)
qed

section \<open>Replies\<close>

text \<open>The reply arrives, and is dropped unread with its receiver.\<close>

definition unread_consumer :: ConsumerWorker where
  "unread_consumer = \<lparr>oneshot_channel = 0, attachment = Some (LeaseId ''test'')\<rparr>"

definition dropping_an_unread_attach_reply_detaches :: "CancellationToken \<Rightarrow> bool" where
  "dropping_an_unread_attach_reply_detaches token =
     (case reply True unread_consumer (Attached ''clone'' 42 token) of
        (Inr u, Some r, []) \<Rightarrow> drop_reply r = [Detach (LeaseId ''test'') 42]
      | _ \<Rightarrow> False)"

definition failed_attach_delivery_leaves_rollback_to_the_engine :: "CancellationToken \<Rightarrow> bool" where
  "failed_attach_delivery_leaves_rollback_to_the_engine token =
     (case reply False unread_consumer (Attached ''clone'' 42 token) of
        (Inl r, None, messages) \<Rightarrow> messages = []
      | _ \<Rightarrow> False)"

lemma reply_tests:
  "dropping_an_unread_attach_reply_detaches token" "failed_attach_delivery_leaves_rollback_to_the_engine token"
  by (simp_all add: dropping_an_unread_attach_reply_detaches_def failed_attach_delivery_leaves_rollback_to_the_engine_def
      unread_consumer_def reply_def LeaseSession_new_def drop_reply_def drop_session_def)

end
