(* ===== verification/Spec2Isabelle.thy ===== *)
theory Spec2Isabelle
  imports Release_Properties Wire_Isolation Manager_Supply Testcontainer Sql_Profile Cli Simulator_Properties
    Data_Tests Wire_Tests Listener_Tests Cli_Tests Startup_Tests
begin

text \<open>
  Verification of pgtest, a PostgreSQL proxy that gives every test its own database, cloned from a
  template. A client connects to the database \<open>template/lease-id\<close>; the clients of one lease share a
  database, different leases never do; a lease ends when it is released through the control database
  \<open>pgtest\<close> or when its time is over.

  \<^bold>\<open>The program and its model.\<close> A connection is accepted by a listener and handled by its own task.
  The task asks the manager for a session of its lease, connects to the upstream PostgreSQL and relays
  bytes until the lease is cancelled. The manager sends a message to the engine, which runs as one
  task, owns all state on leases and databases and answers over one-shot channels. The engine asks
  the creation worker and the cleanup worker for databases and for their removal, and gets the
  results as messages. Each of these parts is a theory:

  \<^item> \<open>Prelude\<close>: machine integers as words, results as sums, decimal numbers, the contracts between
    one step and a whole run (locales \<open>machine_invariant\<close> for a step function, \<open>step_invariant\<close> and
    \<open>relative_invariant\<close> for a step relation) and the contract of a batch of jobs (\<open>batch_reporter\<close>).
  \<^item> \<open>Lease_Id\<close>, \<open>Messages\<close> (worker_engine/lease_id.rs, errors.rs, database_jobs.rs, messages.rs,
    traits.rs): the data of the engine's interface. The calls of the engine on its surroundings are
    kept in a log, in order, with whether they succeeded.
  \<^item> \<open>Inventory\<close> (database_inventory.rs): reservations, ready queue, databases being removed; the locale
    \<open>database_store\<close> states what the engine relies on.
  \<^item> \<open>Engine\<close> (worker_engine/core.rs): the record \<open>WorkerEngine\<close> and every method. A failing
    \<open>expect\<close> and an overflow are values of type \<open>panic\<close>. Deadlines and elapsed time come from the
    environment.
  \<^item> \<open>Engine_Invariant\<close>: the invariant of the engine, kept by every message, and that the only panics
    are the exhaustion of 64-bit counters. \<open>Engine_Accounting\<close>: the connection counts of leases
    against the sessions outside.
  \<^item> \<open>Pool_Spec\<close>, \<open>Engine_Refinement\<close>: an abstract pool of databases, and that the engine simulates it.
  \<^item> \<open>Engine_Properties\<close>: what each message does, ordering, limits and time-outs. \<open>Engine_Clients\<close>: the
    clients as multisets of those who asked, were answered, wait or ran out of time.
    \<open>Engine_Effects\<close>, \<open>Engine_Creations\<close>: which methods request creations, and that databases under
    creation balance requests and reports. \<open>Engine_Supply\<close>: they cover the leases that wait, unless growth is disabled.
    \<open>Engine_Drain\<close>: each message logs the requests that make up for what it took.
  \<^item> \<open>Database_Name\<close>, \<open>Postgres_Manager\<close> (pgtest-database-operations: database_name.rs, manager.rs,
    creation.rs, config.rs, errors.rs; postgres_manager.rs of pgtest-core): names, statements, checks,
    and the batches of creations and drops with bounded concurrency. \<open>Sql_Profile\<close>
    (manager/sql_profile.rs): labels and completion events of statements. \<open>Testcontainer\<close>
    (testcontainer.rs): the image of the test container and the templates given to the managers of a
    test process.
  \<^item> \<open>Worker_Io\<close>, \<open>Worker_Manager\<close>, \<open>Startup\<close>, \<open>Manager_Properties\<close> (worker_manager.rs and
    worker_manager/): sessions, channels, timers, workers, start and shutdown. The tasks are steps of
    one transition system over the record \<open>WorkerEngineManager\<close>, in any interleaving; an \<open>await\<close>
    separates two steps. \<open>Client_Channels\<close>: which steps create one-shot channels, and that the reply
    on a channel answers the request sent with it. \<open>Manager_Supply\<close>: every database under creation is
    in the channel, the task or the report that will finish it.
  \<^item> \<open>Control_Statement\<close>, \<open>Control_Panel\<close> (pgtest-wire: control_panel.rs and control_panel/): the
    grammar as parsing functions and as a language, the handlers of the simple and the extended
    protocol, the service loop. \<open>Release_Properties\<close> follows a release from the query over the manager
    and the engine to the row that comes back.
  \<^item> \<open>Postgres_Upstream\<close>, \<open>Connection\<close> (postgres_upstream.rs, connection.rs, session_relay.rs): frames on
    a stream cut into arbitrary reads, authentication, the startup of a client stream, and the handler
    of a connection as the list of its actions. \<open>Wire_Isolation\<close>: many connections interleaved with
    the steps of the manager; the steps of each follow its handler.
  \<^item> \<open>Listeners\<close> (wire_listener.rs, unix_listener.rs): the accept loops (locale \<open>accept_loop\<close>), their
    handles, the socket file. \<open>Cli\<close> (apps/cli, apps/server): options, and the life of the server.

  \<^item> \<open>Engine_Simulator\<close>, \<open>Simulator_Properties\<close>, \<open>Engine_Tests\<close> (worker_engine/mod.rs and
    test_support.rs): the simulator that drives the engine with scripted workers, what every
    simulation ends with, and the tests of the engine on it. \<open>Manager_Tests\<close>
    (worker_manager.rs), \<open>Control_Tests\<close> (statement.rs, protocol.rs), \<open>Data_Tests\<close>, \<open>Wire_Tests\<close>,
    \<open>Listener_Tests\<close> (wire_listener.rs), \<open>Postgres_Tests\<close> (manager.rs), \<open>Startup_Tests\<close>, \<open>Cli_Tests\<close>
    (args.rs): the tests of the other source files. A test is a definition of type \<open>bool\<close>, proved to hold of the model.

  \<^bold>\<open>What is shown.\<close> From the socket of a client to the database: clients relayed to the same database
  named the same lease, and uncancelled clients of one lease share its database; the row of a release
  comes back only when the lease is closed. For the engine: it never panics short of exhausting a
  counter and keeps its invariant; leases hold different databases and no database is ever given to
  two generations; it refines the pool; every client is answered at most once and none is forgotten; the
  queue is served from its head, the oldest database first, and nothing ready is left while anyone waits;
  while creation requests are accepted and growth is not disabled by a batch size of zero, the creations
  requested cover every lease that waits;
  releases, expiries, joins, growth and limits behave as documented. For the manager, over all
  interleavings: sessions of different leases never share a database, every connection count is
  matched by sessions, a session names the database of its lease when it is handed out, no creation is lost between engine,
  worker and tasks and, with growth enabled, those to come cover the waiting leases, a start never panics, a shutdown can
  always complete. For PostgreSQL: one result per job, names within 63 bytes, quoting that reads
  back, pools opened with limits on their waits or closed, the scope of the start-up cleanup, wildcards
  of the template name included, and that the managers of a test
  process do not drop each other's databases. For the wire: the parser accepts exactly the control
  language; what Bind accepts can be executed, and what Describe announces is what Execute returns; a
  connection drops the session it obtained exactly once; the burst is complete however it is cut; no
  connection is lost; the socket file of somebody else is never removed; the server stops its
  listeners and then the engine. For the tests: a simulation with finitely many failing creations ends,
  with nobody waiting unless it was shut down or growth is disabled, and the assertions of the modelled unit tests hold.

  \<^bold>\<open>Loops and bounds.\<close> There is no fuel. Loops over messages, events, connections and reads are
  recursions over the list of what arrives; the frame loop ends by a measure on the bytes left, the
  truncation of names by its index. The loop of the simulator is a partial function into options, with
  the proof that it returns. A \<open>usize\<close> that counts elements in memory is a natural number;
  generations, batches, counts, delays and lengths on the wire keep their width.

  \<^bold>\<open>Parameters.\<close> PostgreSQL and the pools, the codecs, portal store and dispatch of pgwire, sockets, the
  file system, random draws and the clock are arguments. Where a theorem needs a law of them, the law
  is a named hypothesis (\<open>store_laws\<close> for the portal store, \<open>like_spec\<close> for the operator LIKE) with an
  instance in the witness.

  \<^bold>\<open>Not modelled.\<close> The inside of TLS negotiation, framing and the codec of pgwire, which are parameters;
  the polling of upstream_stream.rs, which forwards to the socket it wraps; the constructors that only
  gather channel handles; hotpath instrumentation and logging, which change no state; the parsing of
  arguments by bpaf and of the environment by envconfig; the container runner; examples; tests of contents of a PostgreSQL server, of real
  sockets, of argument texts and of stack sizes.
\<close>

end
